(* ===== verification/Prelude.thy ===== *)
theory Prelude
  imports Main
begin

text \<open>
  What the component theories share: the collections of rewrite and introduction rules the
  proofs are driven by, generic facts on lists and sums, and the abbreviations that read a Go
  \<open>(value, error)\<close> pair as a sum.  Nothing here models code of the repository.
\<close>

section \<open>Collections\<close>

text \<open>
  \<open>go_simps\<close> collects unfolding facts of the Go string and number helpers;
  \<open>inv_intros\<close> collects the preservation lemmas of the components' invariants.
\<close>

named_theorems go_simps \<open>rewrite rules for the helpers of the Go standard library\<close>
named_theorems inv_intros \<open>preservation lemmas of component invariants\<close>

section \<open>Results\<close>

text \<open>A Go function returning \<open>(T, error)\<close> is modelled by a sum: \<open>Inl\<close> is the error.\<close>

abbreviation is_ok :: "'e + 'a \<Rightarrow> bool" where
  "is_ok r \<equiv> \<not> isl r"

definition bind_result :: "'e + 'a \<Rightarrow> ('a \<Rightarrow> 'e + 'b) \<Rightarrow> 'e + 'b" where
  "bind_result r f = (case r of Inl e \<Rightarrow> Inl e | Inr x \<Rightarrow> f x)"

lemma bind_result_simps [simp]:
  "bind_result (Inl e) f = Inl e"
  "bind_result (Inr x) f = f x"
  by (simp_all add: bind_result_def)

lemma bind_result_eq_Inr:
  "bind_result r f = Inr y \<longleftrightarrow> (\<exists>x. r = Inr x \<and> f x = Inr y)"
  by (cases r) simp_all

section \<open>Lists\<close>

lemma sum_list_map_length_concat: "sum_list (map length xss) = length (concat xss)"
  by (simp add: length_concat)

lemma takeWhile_append_stop:
  assumes "\<forall>x \<in> set xs. P x" and "\<not> P y"
  shows "takeWhile P (xs @ y # ys) = xs" and "dropWhile P (xs @ y # ys) = y # ys"
  using assms by (induction xs) auto

lemma filter_concat_map: "filter P (concat xss) = concat (map (filter P) xss)"
  by (induction xss) auto

lemma distinct_filter_map_of_inj:
  "inj_on f (set xs) \<Longrightarrow> distinct xs \<Longrightarrow> distinct (map f xs)"
  by (simp add: distinct_map)

lemma set_update_memI: "x \<in> set xs \<Longrightarrow> i < length xs \<Longrightarrow> x \<noteq> xs ! i \<Longrightarrow> x \<in> set (xs[i := y])"
  by (auto simp: in_set_conv_nth nth_list_update)

end
