(* ===== verification/Float64.thy ===== *)
theory Float64
  imports Complex_Main GoStd "HOL-Library.Log_Nat"
begin

text \<open>
  Go's \<open>float64\<close>: IEEE 754 binary64 as a datatype of its values, with the operations the agent
  applies to them.  A finite value keeps its sign (so that the two zeros differ, as
  \<open>strconv.FormatFloat\<close> shows them) and its magnitude as a rational number; arithmetic is exact
  on rationals followed by one rounding to nearest, ties to even.  NaN payloads are not kept: no
  operation of the agent reads them.
\<close>

section \<open>Values and rounding\<close>

datatype f64 = F64_NaN | F64_Inf (f64_neg: bool) | F64 (f64_sign: bool) (f64_mag: rat)

text \<open>\<open>ilog2 m\<close> is the exponent \<open>e\<close> with \<open>2 ^ e \<le> m < 2 ^ (e + 1)\<close>, for \<open>0 < m\<close>.\<close>

definition ilog2 :: "rat \<Rightarrow> int" where
  "ilog2 m = (let (a, b) = quotient_of m; k = bitlen a - bitlen b
              in if 2 powi k \<le> m then k else k - 1)"

definition round_even :: "rat \<Rightarrow> int" where
  "round_even x = (let f = \<lfloor>x\<rfloor>; d = x - of_int f
     in if d < 1 / 2 then f else if 1 / 2 < d then f + 1 else if even f then f else f + 1)"

text \<open>The exponent of the last place: 53 bits of precision, gradual underflow below \<open>2 ^ (-1022)\<close>.\<close>

definition f64_quantum :: "rat \<Rightarrow> int" where
  "f64_quantum m = max (ilog2 m) (- 1022) - 52"

definition f64_round_mag :: "rat \<Rightarrow> rat" where
  "f64_round_mag m =
     (if m = 0 then 0
      else let q = f64_quantum m in of_int (round_even (m / 2 powi q)) * 2 powi q)"

text \<open>From \<open>2 ^ 1024\<close> on a rounded magnitude is an infinity.\<close>

definition f64_limit :: rat where
  "f64_limit = 2 ^ 1024"

definition f64_of_mag :: "bool \<Rightarrow> rat \<Rightarrow> f64" where
  "f64_of_mag s m = (let r = f64_round_mag m in if f64_limit \<le> r then F64_Inf s else F64 s r)"

text \<open>The conversion \<open>float64(i)\<close> of an integer.\<close>

definition f64_of_int :: "int \<Rightarrow> f64" where
  "f64_of_int i = f64_of_mag (i < 0) (of_int \<bar>i\<bar>)"

section \<open>Arithmetic and comparison\<close>

definition f64_val :: "bool \<Rightarrow> rat \<Rightarrow> rat" where
  "f64_val s m = (if s then - m else m)"

definition f64_of_rat :: "bool \<Rightarrow> rat \<Rightarrow> f64" where
  "f64_of_rat zero_sign x = (if x = 0 then F64 zero_sign 0 else f64_of_mag (x < 0) \<bar>x\<bar>)"

fun f64_uminus :: "f64 \<Rightarrow> f64" where
  "f64_uminus F64_NaN = F64_NaN"
| "f64_uminus (F64_Inf s) = F64_Inf (\<not> s)"
| "f64_uminus (F64 s m) = F64 (\<not> s) m"

fun f64_add :: "f64 \<Rightarrow> f64 \<Rightarrow> f64" where
  "f64_add F64_NaN _ = F64_NaN"
| "f64_add _ F64_NaN = F64_NaN"
| "f64_add (F64_Inf s) (F64_Inf t) = (if s = t then F64_Inf s else F64_NaN)"
| "f64_add (F64_Inf s) (F64 _ _) = F64_Inf s"
| "f64_add (F64 _ _) (F64_Inf t) = F64_Inf t"
| "f64_add (F64 s a) (F64 t b) = f64_of_rat (s \<and> t) (f64_val s a + f64_val t b)"

definition f64_sub :: "f64 \<Rightarrow> f64 \<Rightarrow> f64" where
  "f64_sub a b = f64_add a (f64_uminus b)"

fun f64_mul :: "f64 \<Rightarrow> f64 \<Rightarrow> f64" where
  "f64_mul F64_NaN _ = F64_NaN"
| "f64_mul _ F64_NaN = F64_NaN"
| "f64_mul (F64_Inf s) (F64_Inf t) = F64_Inf (s \<noteq> t)"
| "f64_mul (F64_Inf s) (F64 t b) = (if b = 0 then F64_NaN else F64_Inf (s \<noteq> t))"
| "f64_mul (F64 s a) (F64_Inf t) = (if a = 0 then F64_NaN else F64_Inf (s \<noteq> t))"
| "f64_mul (F64 s a) (F64 t b) = f64_of_mag (s \<noteq> t) (a * b)"

fun f64_div :: "f64 \<Rightarrow> f64 \<Rightarrow> f64" where
  "f64_div F64_NaN _ = F64_NaN"
| "f64_div _ F64_NaN = F64_NaN"
| "f64_div (F64_Inf s) (F64_Inf t) = F64_NaN"
| "f64_div (F64_Inf s) (F64 t _) = F64_Inf (s \<noteq> t)"
| "f64_div (F64 s _) (F64_Inf t) = F64 (s \<noteq> t) 0"
| "f64_div (F64 s a) (F64 t b) =
     (if b = 0 then (if a = 0 then F64_NaN else F64_Inf (s \<noteq> t))
      else f64_of_mag (s \<noteq> t) (a / b))"

fun f64_less :: "f64 \<Rightarrow> f64 \<Rightarrow> bool" where
  "f64_less F64_NaN _ = False"
| "f64_less _ F64_NaN = False"
| "f64_less (F64_Inf s) (F64_Inf t) = (s \<and> \<not> t)"
| "f64_less (F64_Inf s) (F64 _ _) = s"
| "f64_less (F64 _ _) (F64_Inf t) = (\<not> t)"
| "f64_less (F64 s a) (F64 t b) = (f64_val s a < f64_val t b)"

text \<open>Go's \<open>a <= b\<close> on floats: false as soon as one side is NaN.\<close>

definition f64_le :: "f64 \<Rightarrow> f64 \<Rightarrow> bool" where
  "f64_le a b = (a \<noteq> F64_NaN \<and> b \<noteq> F64_NaN \<and> \<not> f64_less b a)"

lemma f64_less_irrefl [simp]: "\<not> f64_less a a"
  by (cases a) auto

lemma f64_less_trans: "f64_less a b \<Longrightarrow> f64_less b c \<Longrightarrow> f64_less a c"
  by (cases a; cases b; cases c) auto

text \<open>Away from NaN the comparison is a weak order: incomparable values are interchangeable.\<close>

lemma f64_less_cotrans: "f64_less a c \<Longrightarrow> b \<noteq> F64_NaN \<Longrightarrow> f64_less a b \<or> f64_less b c"
  by (cases a; cases b; cases c) auto

section \<open>Which numbers are represented exactly\<close>

lemma ilog2_bounds:
  assumes "0 < m"
  shows "2 powi ilog2 m \<le> m" and "m < 2 powi (ilog2 m + 1)"
proof -
  obtain a b where ab: "quotient_of m = (a, b)" by force
  have b: "b > 0" by (rule quotient_of_denom_pos [OF ab])
  have m: "m = of_int a / of_int b" by (rule quotient_of_div [OF ab])
  with assms b have a: "a > 0" by (simp add: zero_less_divide_iff)
  define la lb where "la = bitlen a" and "lb = bitlen b"
  have la: "1 \<le> la" and lb: "1 \<le> lb"
    using a b by (auto simp: la_def lb_def bitlen_alt_def)
  have *: "(2::rat) powi (k - 1) \<le> of_int x \<and> of_int x < (2::rat) powi k"
    if "k = bitlen x" and "0 < x" and "1 \<le> k" for k x
  proof -
    have "2 ^ nat (k - 1) \<le> x" and "x < 2 ^ nat k"
      using bitlen_bounds [OF that(2)] that(1) by auto
    then have "(of_int (2 ^ nat (k - 1)) :: rat) \<le> of_int x" and "(of_int x :: rat) < of_int (2 ^ nat k)"
      by (simp_all only: of_int_le_iff of_int_less_iff)
    then show ?thesis
      using that(3) by (simp add: power_int_def)
  qed
  have lo: "2 powi (la - lb - 1) < m"
  proof -
    have "(2::rat) powi (la - 1) \<le> of_int a" and "of_int b < (2::rat) powi lb"
      using * [OF la_def a la] * [OF lb_def b lb] by auto
    then have "2 powi (la - 1) / 2 powi lb < (of_int a :: rat) / of_int b"
      using a b by (intro frac_less2) auto
    then show ?thesis
      by (simp add: m power_int_diff)
  qed
  have hi: "m < 2 powi (la - lb + 1)"
  proof -
    have "of_int a < (2::rat) powi la" and "(2::rat) powi (lb - 1) \<le> of_int b"
      using * [OF la_def a la] * [OF lb_def b lb] by auto
    then have "(of_int a :: rat) / of_int b < 2 powi la / 2 powi (lb - 1)"
      using a b by (intro frac_less) auto
    then show ?thesis
      by (simp add: m power_int_diff power_int_add)
  qed
  have e: "ilog2 m = (if 2 powi (la - lb) \<le> m then la - lb else la - lb - 1)"
    by (simp add: ilog2_def ab la_def lb_def)
  show "2 powi ilog2 m \<le> m" and "m < 2 powi (ilog2 m + 1)"
    using lo hi by (auto simp: e)
qed

lemma powi2_less_iff: "(2::rat) powi i < 2 powi j \<longleftrightarrow> i < j"
  by (meson linorder_not_less one_less_numeral_iff power_int_increasing power_int_strict_increasing
      one_le_numeral semiring_norm(76))

lemma ilog2_less:
  assumes "0 < m" and "m < 2 powi k"
  shows "ilog2 m < k"
  using le_less_trans [OF ilog2_bounds(1) [OF assms(1)] assms(2)] by (simp add: powi2_less_iff)

lemma ilog2_pow: "ilog2 (2 powi k) = k"
proof -
  have p: "(0::rat) < 2 powi k" by simp
  have "ilog2 (2 powi k) < k + 1"
    by (rule ilog2_less [OF p]) (simp add: powi2_less_iff)
  moreover have "k < ilog2 (2 powi k) + 1"
    using ilog2_bounds(2) [OF p] by (simp add: powi2_less_iff)
  ultimately show ?thesis by simp
qed

lemma round_even_of_int [simp]: "round_even (of_int n) = n"
  by (simp add: round_even_def)

lemma of_int_times_powi:
  assumes "0 \<le> k"
  shows "of_int n * (2::rat) powi k = of_int (n * 2 ^ nat k)"
  using assms by (simp add: power_int_def)

text \<open>A 53-bit integer times a power of two from \<open>2 ^ (-1074)\<close> on is its own rounding.\<close>

lemma f64_round_mag_exact:
  assumes n: "0 \<le> n" "n \<le> 2 ^ 53" and q: "- 1074 \<le> q"
  shows "f64_round_mag (of_int n * 2 powi q) = of_int n * 2 powi q"
proof (cases "n = 0")
  case True
  then show ?thesis by (simp add: f64_round_mag_def)
next
  case False
  define m where "m = of_int n * (2::rat) powi q"
  from False n have m0: "0 < m" by (simp add: m_def)
  have split: "f64_quantum m \<le> q \<or> (n = 2 ^ 53 \<and> f64_quantum m = q + 1)"
  proof (cases "n = 2 ^ 53")
    case True
    then have "m = 2 powi (53 + q)"
      by (simp add: m_def power_int_add)
    then have "ilog2 m = 53 + q" by (simp add: ilog2_pow)
    with q True show ?thesis by (simp add: f64_quantum_def)
  next
    case False
    with n have "(of_int n :: rat) < of_int (2 ^ 53)"
      by (simp only: of_int_less_iff)
    then have lt: "m < 2 powi 53 * 2 powi q" by (simp add: m_def)
    have "(2::rat) powi (53 + q) = 2 powi 53 * 2 powi q"
      by (rule power_int_add) simp
    with lt have "m < 2 powi (53 + q)" by (simp only:)
    then have "ilog2 m < 53 + q" by (rule ilog2_less [OF m0])
    with q have "f64_quantum m \<le> q" by (auto simp: f64_quantum_def)
    then show ?thesis ..
  qed
  then obtain z where z: "m / 2 powi f64_quantum m = of_int z"
  proof
    assume le: "f64_quantum m \<le> q"
    have "m / 2 powi f64_quantum m = of_int n * 2 powi (q - f64_quantum m)"
      by (simp add: m_def power_int_diff)
    with le show ?thesis
      by (intro that [of "n * 2 ^ nat (q - f64_quantum m)"]) (simp add: of_int_times_powi)
  next
    assume e: "n = 2 ^ 53 \<and> f64_quantum m = q + 1"
    then have q': "f64_quantum m = q + 1" by simp
    have "m / 2 powi f64_quantum m = of_int (2 ^ 53) * 2 powi q / 2 powi (q + 1)"
      unfolding q' using e by (simp add: m_def)
    also have "\<dots> = of_int (2 ^ 52)"
      by (simp add: power_int_add)
    finally show ?thesis by (rule that)
  qed
  have "of_int z * 2 powi f64_quantum m = m"
    using z by (metis nonzero_divide_eq_eq power_int_not_zero zero_neq_numeral)
  then show ?thesis
    using m0 z by (simp add: f64_round_mag_def Let_def flip: m_def)
qed

lemma f64_of_int_exact:
  assumes "\<bar>i\<bar> \<le> 2 ^ 53"
  shows "f64_of_int i = F64 (i < 0) (of_int \<bar>i\<bar>)"
proof -
  have "f64_round_mag (of_int \<bar>i\<bar> * 2 powi 0) = of_int \<bar>i\<bar> * 2 powi 0"
    by (rule f64_round_mag_exact) (use assms in auto)
  then have r: "f64_round_mag \<bar>of_int i\<bar> = \<bar>of_int i\<bar>" by simp
  have "(of_int \<bar>i\<bar> :: rat) \<le> of_int (2 ^ 53)" using assms by (simp only: of_int_le_iff)
  also have "(of_int (2 ^ 53) :: rat) < f64_limit" by (simp add: f64_limit_def)
  finally show ?thesis by (simp add: f64_of_int_def f64_of_mag_def Let_def r)
qed

end
