(* ===== verification/GoTime.thy ===== *)
theory GoTime
  imports GoStd
begin

text \<open>
  Go's \<open>time.Time\<close> as far as the agent uses it: an instant in nanoseconds since the Unix epoch and the
  offset of its zone, the civil date of Go's \<open>absDate\<close> algorithm (400-, 100-, 4- and
  1-year cycles counted from 1 January of year 1), and the two layouts with milliseconds of
  \<open>grokformat.go\<close>.  Main fact: a timestamp of a year from 0 to 9999 has 23 characters and
  reads back as the local time truncated to the millisecond.
\<close>

section \<open>Instants and civil dates\<close>

record gotime =
  unix_nanos :: int
  zone_offset :: int  \<comment> \<open>seconds east of UTC\<close>

definition local_nanos :: "gotime \<Rightarrow> int" where
  "local_nanos t = unix_nanos t + zone_offset t * 1000000000"

definition unix_milli :: "gotime \<Rightarrow> int" where
  "unix_milli t = unix_nanos t div 1000000"

definition nanosecond :: "gotime \<Rightarrow> int" where
  "nanosecond t = unix_nanos t mod 1000000000"

definition is_leap :: "int \<Rightarrow> bool" where
  "is_leap y = (y mod 4 = 0 \<and> (y mod 100 \<noteq> 0 \<or> y mod 400 = 0))"

definition days_before :: "int list" where
  "days_before = [0, 31, 59, 90, 120, 151, 181, 212, 243, 273, 304, 334, 365]"

text \<open>Year and day of the year of a day number; day 0 is 1 January of year 1.\<close>

definition year_yday :: "int \<Rightarrow> int \<times> int" where
  "year_yday d0 =
     (let n400 = d0 div 146097; d1 = d0 mod 146097;
          n100 = d1 div 36524 - d1 div 36524 div 4; d2 = d1 - 36524 * n100;
          n4 = d2 div 1461; d3 = d2 - 1461 * n4;
          n1 = d3 div 365 - d3 div 365 div 4; d4 = d3 - 365 * n1
      in (400 * n400 + 100 * n100 + 4 * n4 + n1 + 1, d4))"

definition month_day :: "bool \<Rightarrow> int \<Rightarrow> int \<times> int" where
  "month_day leap yday =
     (if leap \<and> yday = 59 then (2, 29)
      else let day = (if leap \<and> 59 < yday then yday - 1 else yday);
               m = nat (day div 31); end = days_before ! (m + 1)
           in if end \<le> day then (int m + 2, day - end + 1)
              else (int m + 1, day - days_before ! m + 1))"

text \<open>The day number of 1 January 1970.\<close>

definition unix_day0 :: int where
  "unix_day0 = 719162"

record civil =
  c_year :: int
  c_month :: int
  c_day :: int
  c_hour :: int
  c_min :: int
  c_sec :: int

definition civil_of :: "gotime \<Rightarrow> civil" where
  "civil_of t =
     (let secs = local_nanos t div 1000000000; days = secs div 86400; rest = secs mod 86400;
          (y, yday) = year_yday (days + unix_day0); (m, d) = month_day (is_leap y) yday
      in \<lparr>c_year = y, c_month = m, c_day = d,
          c_hour = rest div 3600, c_min = rest mod 3600 div 60, c_sec = rest mod 60\<rparr>)"

section \<open>Layouts\<close>

text \<open>\<open>appendInt\<close> of the \<open>time\<close> package: at least \<open>w\<close> digits.\<close>

definition pad_int :: "nat \<Rightarrow> int \<Rightarrow> string" where
  "pad_int w n = (if n < 0 then ''-'' else '''') @
     (let s = dec_digits \<bar>n\<bar> in replicate (w - length s) CHR ''0'' @ s)"

definition format_layout :: "char \<Rightarrow> civil \<Rightarrow> string" where
  "format_layout sep c =
     pad_int 4 (c_year c) @ ''-'' @ pad_int 2 (c_month c) @ ''-'' @ pad_int 2 (c_day c) @ [sep] @
     pad_int 2 (c_hour c) @ '':'' @ pad_int 2 (c_min c) @ '':'' @ pad_int 2 (c_sec c)"

text \<open>\<open>writeMillis\<close>: three digits, each written as a byte.\<close>

definition write_millis :: "gotime \<Rightarrow> string" where
  "write_millis t =
     (let ms = nanosecond t div 1000000
      in [digit_char (ms div 100), digit_char (ms div 10 mod 10), digit_char (ms mod 10)])"

definition format_grok_timestamp :: "gotime \<Rightarrow> string" where
  "format_grok_timestamp t = format_layout CHR '' '' (civil_of t) @ '','' @ write_millis t"

definition format_json_timestamp :: "gotime \<Rightarrow> string" where
  "format_json_timestamp t = format_layout CHR ''T'' (civil_of t) @ ''.'' @ write_millis t"

section \<open>The calendar is a bijection\<close>

definition day_number :: "int \<Rightarrow> int \<Rightarrow> int" where
  "day_number y yday = (let y1 = y - 1 in 365 * y1 + y1 div 4 - y1 div 100 + y1 div 400 + yday)"

definition yday_of :: "bool \<Rightarrow> int \<Rightarrow> int \<Rightarrow> int" where
  "yday_of leap m d = days_before ! nat (m - 1) + d - 1 + (if leap \<and> 2 < m then 1 else 0)"

lemma year_yday_digits:
  fixes d0 :: int
  defines "d1 \<equiv> d0 mod 146097"
  defines "n100 \<equiv> d1 div 36524 - d1 div 36524 div 4"
  defines "d2 \<equiv> d1 - 36524 * n100"
  defines "n4 \<equiv> d2 div 1461"
  defines "d3 \<equiv> d2 - 1461 * n4"
  defines "n1 \<equiv> d3 div 365 - d3 div 365 div 4"
  defines "d4 \<equiv> d3 - 365 * n1"
  shows "0 \<le> n100" "n100 \<le> 3" "0 \<le> n4" "n4 \<le> 24" "0 \<le> n1" "n1 \<le> 3" "0 \<le> d4"
    and "d4 \<le> 365" and "d4 = 365 \<Longrightarrow> n1 = 3 \<and> (n4 = 24 \<longrightarrow> n100 = 3)"
proof -
  have d1: "0 \<le> d1" "d1 \<le> 146096" by (simp_all add: d1_def)
  define k where "k = d1 div 36524"
  have k: "0 \<le> k" "k \<le> 4" "36524 * k \<le> d1" "d1 < 36524 * k + 36524"
    using d1 by (auto simp: k_def)
  have n100: "n100 = (if k = 4 then 3 else k)"
    using k by (auto simp: n100_def simp flip: k_def)
  then show b: "0 \<le> n100" "n100 \<le> 3" using k by auto
  have d2: "0 \<le> d2" "d2 \<le> 36524" "d2 = 36524 \<Longrightarrow> n100 = 3"
    using d1 k n100 by (auto simp: d2_def split: if_splits)
  then show n4: "0 \<le> n4" "n4 \<le> 24" by (auto simp: n4_def)
  have "d3 = d2 mod 1461" by (simp add: d3_def n4_def minus_mult_div_eq_mod)
  then have d3: "0 \<le> d3" "d3 \<le> 1460" "d2 = 1461 * n4 + d3"
    using pos_mod_sign [of 1461 d2] pos_mod_bound [of 1461 d2] by (auto simp: d3_def)
  define j where "j = d3 div 365"
  have j: "0 \<le> j" "j \<le> 4" "365 * j \<le> d3" "d3 < 365 * j + 365"
    using d3 by (auto simp: j_def)
  have n1: "n1 = (if j = 4 then 3 else j)"
    using j by (auto simp: n1_def simp flip: j_def)
  then show "0 \<le> n1" "n1 \<le> 3" using j by auto
  show "0 \<le> d4" "d4 \<le> 365"
    using j d3 n1 by (auto simp: d4_def split: if_splits)
  assume "d4 = 365"
  then have n13: "n1 = 3" and "d3 = 1460"
    using j d3 n1 by (auto simp: d4_def split: if_splits)
  then have "n4 = 24 \<Longrightarrow> d2 = 36524" using d3 by simp
  with n13 d2 show "n1 = 3 \<and> (n4 = 24 \<longrightarrow> n100 = 3)" by auto
qed

text \<open>The year is recovered from its four cycle counts.\<close>

lemma cycle_div:
  fixes q r k :: int
  assumes "0 \<le> r" "r < k"
  shows "(k * q + r) div k = q" and "(k * q + r) mod k = r"
  using assms by (simp_all add: div_mult_self2)

lemma day_number_year_yday:
  assumes "year_yday d0 = (y, yd)"
  shows "day_number y yd = d0" and "0 \<le> yd" and "yd \<le> 365" and "\<not> is_leap y \<Longrightarrow> yd \<le> 364"
proof -
  define n400 d1 where "n400 = d0 div 146097" and "d1 = d0 mod 146097"
  define n100 where "n100 = d1 div 36524 - d1 div 36524 div 4"
  define d2 where "d2 = d1 - 36524 * n100"
  define n4 where "n4 = d2 div 1461"
  define d3 where "d3 = d2 - 1461 * n4"
  define n1 where "n1 = d3 div 365 - d3 div 365 div 4"
  define d4 where "d4 = d3 - 365 * n1"
  note digits = year_yday_digits [of d0, folded d1_def, folded n100_def, folded d2_def,
      folded n4_def, folded d3_def, folded n1_def, folded d4_def]
  have "year_yday d0 = (400 * n400 + 100 * n100 + 4 * n4 + n1 + 1, d4)"
    unfolding year_yday_def Let_def d4_def n1_def d3_def n4_def d2_def n100_def d1_def n400_def
    by (rule refl)
  with assms have y: "y - 1 = 400 * n400 + (100 * n100 + 4 * n4 + n1)" and yd: "yd = d4"
    by simp_all
  have q400: "(y - 1) div 400 = n400"
    unfolding y by (rule cycle_div) (use digits in auto)
  have q100: "(y - 1) div 100 = 4 * n400 + n100"
  proof -
    have "y - 1 = 100 * (4 * n400 + n100) + (4 * n4 + n1)" using y by simp
    then show ?thesis using digits by (simp only: cycle_div)
  qed
  have q4: "(y - 1) div 4 = 100 * n400 + 25 * n100 + n4"
  proof -
    have "y - 1 = 4 * (100 * n400 + 25 * n100 + n4) + n1" using y by simp
    then show ?thesis using digits by (simp only: cycle_div)
  qed
  have "d0 = 146097 * n400 + d1" by (simp add: n400_def d1_def)
  then show "day_number y yd = d0"
    unfolding day_number_def Let_def q4 q100 q400 yd d4_def d3_def d2_def using y
    by (simp add: algebra_simps)
  show "0 \<le> yd" and "yd \<le> 365" using digits by (simp_all add: yd)
  assume nl: "\<not> is_leap y"
  show "yd \<le> 364"
  proof (rule ccontr)
    assume "\<not> yd \<le> 364"
    then have "d4 = 365" using digits by (simp add: yd)
    then have n: "n1 = 3" "n4 = 24 \<Longrightarrow> n100 = 3" using digits(9) by auto
    have "y = 4 * (100 * n400 + 25 * n100 + n4 + 1)" using y n by simp
    then have m4: "y mod 4 = 0" by simp
    with nl have m: "y mod 100 = 0" "y mod 400 \<noteq> 0" by (auto simp: is_leap_def)
    have "y = 100 * (4 * n400 + n100) + (4 * n4 + 4)" using y n by simp
    then have "y mod 100 = (4 * n4 + 4) mod 100" by (simp only: mod_mult_self4)
    with m(1) have "(4 * n4 + 4) mod 100 = 0" by simp
    moreover have "(4 * n4 + 4) mod 100 = 4 * n4 + 4" if "n4 < 24"
      by (rule mod_pos_pos_trivial) (use that digits in auto)
    ultimately have "n4 = 24" using digits by force
    with n have "y = 400 * (n400 + 1)" using y by simp
    with m(2) show False by simp
  qed
qed

lemma month_start:
  fixes day :: int
  assumes "0 \<le> day" "day < 365"
  defines "m \<equiv> nat (day div 31)"
  shows "m < 12" and "days_before ! m \<le> day"
    and "days_before ! (m + 1) \<le> day \<Longrightarrow> m < 11 \<and> day < days_before ! (m + 1) + 28"
    and "day < days_before ! m + 31 \<or> days_before ! (m + 1) \<le> day" and "day < 31 * int m + 31"
proof -
  define i where "i = day div 31"
  have i: "31 * i \<le> day" "day < 31 * i + 31" by (auto simp: i_def)
  with assms(1,2) have "0 \<le> i" "i \<le> 11" by linarith+
  then have "i = 0 \<or> i = 1 \<or> i = 2 \<or> i = 3 \<or> i = 4 \<or> i = 5 \<or> i = 6 \<or> i = 7 \<or> i = 8
      \<or> i = 9 \<or> i = 10 \<or> i = 11" by presburger
  moreover note i
  moreover have "m = nat i" by (simp add: m_def i_def)
  ultimately show "m < 12" and "days_before ! m \<le> day"
    and "days_before ! (m + 1) \<le> day \<Longrightarrow> m < 11 \<and> day < days_before ! (m + 1) + 28"
    and "day < days_before ! m + 31 \<or> days_before ! (m + 1) \<le> day" and "day < 31 * int m + 31"
    using assms(1,2) by (auto simp: days_before_def eval_nat_numeral)
qed

lemma month_day_inverse:
  assumes "month_day leap yd = (m, d)" and "0 \<le> yd" and "yd \<le> (if leap then 365 else 364)"
  shows "1 \<le> m" "m \<le> 12" "1 \<le> d" "d \<le> 31" "yday_of leap m d = yd"
proof -
  consider (feb29) "leap" "yd = 59" | (other) "\<not> (leap \<and> yd = 59)" by blast
  then have "1 \<le> m \<and> m \<le> 12 \<and> 1 \<le> d \<and> d \<le> 31 \<and> yday_of leap m d = yd"
  proof cases
    case feb29
    then have "m = 2" "d = 29" using assms(1) by (simp_all add: month_day_def)
    with feb29 show ?thesis by (simp add: yday_of_def days_before_def)
  next
    case other
    define day where "day = (if leap \<and> 59 < yd then yd - 1 else yd)"
    define k where "k = nat (day div 31)"
    have day: "0 \<le> day" "day < 365" using assms(2,3) by (auto simp: day_def split: if_splits)
    note start = month_start [OF day, folded k_def]
    have md: "(m, d) = (if days_before ! (k + 1) \<le> day then (int k + 2, day - days_before ! (k + 1) + 1)
        else (int k + 1, day - days_before ! k + 1))"
      using assms(1) other by (auto simp: month_day_def Let_def day_def [symmetric] k_def [symmetric])
    have yd: "yd = day + (if leap \<and> 59 < yd then 1 else 0)" by (simp add: day_def)
    have march: "leap \<Longrightarrow> 2 < m \<longleftrightarrow> 59 < yd"
    proof -
      assume leap
      have "59 \<le> day \<longleftrightarrow> (if days_before ! (k + 1) \<le> day then 1 \<le> k else 2 \<le> k)"
        using start(1,2,5) by (auto simp: days_before_def less_Suc_eq eval_nat_numeral)
      then show ?thesis
        using md other \<open>leap\<close> by (auto simp: day_def split: if_splits)
    qed
    moreover have "nat (1 + int k) = Suc k" by simp
    ultimately show ?thesis
      using md start yd by (auto simp: yday_of_def split: if_splits)
  qed
  then show "1 \<le> m" "m \<le> 12" "1 \<le> d" "d \<le> 31" "yday_of leap m d = yd" by auto
qed

section \<open>Reading a timestamp back\<close>

text \<open>The number of milliseconds of local time a text with either layout stands for.\<close>

definition read_timestamp :: "string \<Rightarrow> int" where
  "read_timestamp s =
     (let y = digits_value (take 4 s); m = digits_value (take 2 (drop 5 s));
          d = digits_value (take 2 (drop 8 s)); h = digits_value (take 2 (drop 11 s));
          mi = digits_value (take 2 (drop 14 s)); se = digits_value (take 2 (drop 17 s));
          ms = digits_value (take 3 (drop 20 s));
          days = day_number y (yday_of (is_leap y) m d) - unix_day0
      in (days * 86400 + h * 3600 + mi * 60 + se) * 1000 + ms)"

lemma pad_int_width:
  assumes "0 \<le> n" "n < 10 ^ w" "0 < w"
  shows "length (pad_int w n) = w" and "digits_value (pad_int w n) = n"
proof -
  have "length (dec_digits n) \<le> w" by (rule length_dec_digits [OF assms(2,3)])
  with assms show "length (pad_int w n) = w" and "digits_value (pad_int w n) = n"
    by (simp_all add: pad_int_def Let_def digits_value_app)
qed

lemma pad2:
  "0 \<le> n \<Longrightarrow> n < 100 \<Longrightarrow> \<exists>a b. pad_int 2 n = [a, b] \<and> digits_value [a, b] = n"
  using pad_int_width [of n 2] by (auto simp: numeral_2_eq_2 length_Suc_conv)

lemma pad4:
  "0 \<le> n \<Longrightarrow> n < 10000 \<Longrightarrow> \<exists>a b c d. pad_int 4 n = [a, b, c, d] \<and> digits_value [a, b, c, d] = n"
  using pad_int_width [of n 4] by (auto simp: eval_nat_numeral length_Suc_conv)

lemma write_millis_value:
  "\<exists>a b c. write_millis t = [a, b, c] \<and> digits_value [a, b, c] = nanosecond t div 1000000"
proof -
  have "0 \<le> nanosecond t" "nanosecond t < 1000000000" by (simp_all add: nanosecond_def)
  then have ms: "0 \<le> nanosecond t div 1000000" "nanosecond t div 1000000 < 1000" by auto
  define ms where "ms = nanosecond t div 1000000"
  have "100 * (ms div 100) + 10 * (ms div 10 mod 10) + ms mod 10 = ms"
  proof -
    have "ms div 100 = ms div 10 div 10" using zdiv_zmult2_eq [of 10 ms 10] by simp
    then show ?thesis
      using div_mult_mod_eq [of ms 10] div_mult_mod_eq [of "ms div 10" 10] by linarith
  qed
  then show ?thesis
    using ms by (simp add: write_millis_def Let_def digits_value_def flip: ms_def)
qed

lemma div_less_bound:
  fixes x :: int
  assumes "x < k * b" "0 < k"
  shows "x div k < b"
proof (rule ccontr)
  assume "\<not> x div k < b"
  then have "b * k \<le> x div k * k" using assms(2) by (intro mult_right_mono) auto
  also have "\<dots> \<le> x"
    using div_mult_mod_eq [of x k] pos_mod_sign [OF assms(2), of x] by linarith
  finally show False using assms(1) by (simp add: mult.commute)
qed

lemma civil_of_bounds:
  assumes "civil_of t = c"
  shows "1 \<le> c_month c" "c_month c \<le> 12" "1 \<le> c_day c" "c_day c \<le> 31"
    and "0 \<le> c_hour c" "c_hour c < 24" "0 \<le> c_min c" "c_min c < 60" "0 \<le> c_sec c" "c_sec c < 60"
    and "(day_number (c_year c) (yday_of (is_leap (c_year c)) (c_month c) (c_day c)) - unix_day0) * 86400
      + c_hour c * 3600 + c_min c * 60 + c_sec c = local_nanos t div 1000000000"
proof -
  define secs where "secs = local_nanos t div 1000000000"
  obtain y yd where y: "year_yday (secs div 86400 + unix_day0) = (y, yd)" by force
  obtain m d where m: "month_day (is_leap y) yd = (m, d)" by force
  note yb = day_number_year_yday [OF y]
  have "yd \<le> (if is_leap y then 365 else 364)" using yb by auto
  note mb = month_day_inverse [OF m yb(2) this]
  define rest where "rest = secs mod 86400"
  have c: "c = \<lparr>c_year = y, c_month = m, c_day = d, c_hour = rest div 3600,
      c_min = rest mod 3600 div 60, c_sec = rest mod 60\<rparr>"
    using assms y m by (simp add: civil_of_def Let_def rest_def flip: secs_def)
  have rest: "0 \<le> rest" "rest < 86400" by (simp_all add: rest_def)
  show "1 \<le> c_month c" "c_month c \<le> 12" "1 \<le> c_day c" "c_day c \<le> 31"
    using mb by (simp_all add: c)
  show "0 \<le> c_hour c" "0 \<le> c_min c" "0 \<le> c_sec c" "c_sec c < 60"
    using rest by (simp_all add: c pos_imp_zdiv_nonneg_iff)
  have "rest div 3600 < 24"
    by (rule div_less_bound) (use rest in simp_all)
  then show "c_hour c < 24" by (simp only: c civil.select_convs)
  have "rest mod 3600 div 60 < 60"
    by (rule div_less_bound) simp_all
  then show "c_min c < 60" by (simp only: c civil.select_convs)
  have "rest mod 3600 mod 60 = rest mod 60" by (rule mod_mod_cancel) simp
  then have "rest div 3600 * 3600 + (rest mod 3600 div 60 * 60 + rest mod 60) = rest"
    by (metis div_mult_mod_eq)
  moreover have "secs div 86400 * 86400 + rest = secs" by (simp add: rest_def)
  ultimately have sum: "secs div 86400 * 86400
      + (rest div 3600 * 3600 + (rest mod 3600 div 60 * 60 + rest mod 60)) = secs"
    by (simp only:)
  have "day_number y (yday_of (is_leap y) m d) - unix_day0 = secs div 86400"
    using yb(1) mb(5) by (simp only: add_diff_cancel_right')
  with sum show "(day_number (c_year c) (yday_of (is_leap (c_year c)) (c_month c) (c_day c)) - unix_day0) * 86400
      + c_hour c * 3600 + c_min c * 60 + c_sec c = local_nanos t div 1000000000"
    by (simp only: c civil.select_convs secs_def add.assoc)
qed

lemma local_millis: "local_nanos t div 1000000000 * 1000 + nanosecond t div 1000000 = local_nanos t div 1000000"
proof -
  have n: "nanosecond t = local_nanos t mod 1000000000"
    by (simp add: nanosecond_def local_nanos_def)
  define x where "x = local_nanos t"
  have "x = (x div 1000000000 * 1000) * 1000000 + x mod 1000000000"
    using div_mult_mod_eq [of x 1000000000] by simp
  then have "x div 1000000 = x div 1000000000 * 1000 + x mod 1000000000 div 1000000"
    by (metis add.commute div_mult_self1 zero_neq_numeral)
  then show ?thesis by (simp add: n x_def)
qed

text \<open>Both layouts: 23 characters, which read back as the local time in milliseconds.\<close>

lemma format_layout_reads_back:
  assumes "0 \<le> c_year (civil_of t)" "c_year (civil_of t) < 10000"
  shows "length (format_layout sep (civil_of t) @ [dot] @ write_millis t) = 23"
    and "read_timestamp (format_layout sep (civil_of t) @ [dot] @ write_millis t)
      = local_nanos t div 1000000"
proof -
  define c where "c = civil_of t"
  note b = civil_of_bounds [OF c_def [symmetric]]
  obtain y1 y2 y3 y4 where y: "pad_int 4 (c_year c) = [y1, y2, y3, y4]" "digits_value [y1, y2, y3, y4] = c_year c"
    using pad4 assms by (metis c_def)
  obtain m1 m2 where m: "pad_int 2 (c_month c) = [m1, m2]" "digits_value [m1, m2] = c_month c"
    using pad2 [of "c_month c"] b by auto
  obtain d1 d2 where d: "pad_int 2 (c_day c) = [d1, d2]" "digits_value [d1, d2] = c_day c"
    using pad2 [of "c_day c"] b by auto
  obtain h1 h2 where h: "pad_int 2 (c_hour c) = [h1, h2]" "digits_value [h1, h2] = c_hour c"
    using pad2 [of "c_hour c"] b by auto
  obtain i1 i2 where i: "pad_int 2 (c_min c) = [i1, i2]" "digits_value [i1, i2] = c_min c"
    using pad2 [of "c_min c"] b by auto
  obtain s1 s2 where s: "pad_int 2 (c_sec c) = [s1, s2]" "digits_value [s1, s2] = c_sec c"
    using pad2 [of "c_sec c"] b by auto
  obtain u1 u2 u3 where u: "write_millis t = [u1, u2, u3]"
      "digits_value [u1, u2, u3] = nanosecond t div 1000000"
    using write_millis_value by metis
  have form: "format_layout sep c @ [dot] @ write_millis t
      = [y1, y2, y3, y4, CHR ''-'', m1, m2, CHR ''-'', d1, d2, sep, h1, h2, CHR '':'', i1, i2,
         CHR '':'', s1, s2, dot, u1, u2, u3]"
    by (simp add: format_layout_def y m d h i s u)
  then show "length (format_layout sep (civil_of t) @ [dot] @ write_millis t) = 23"
    by (simp add: c_def)
  have "read_timestamp (format_layout sep c @ [dot] @ write_millis t)
      = (local_nanos t div 1000000000) * 1000 + nanosecond t div 1000000"
    unfolding form read_timestamp_def using b(11) y m d h i s u by (simp add: Let_def)
  then show "read_timestamp (format_layout sep (civil_of t) @ [dot] @ write_millis t)
      = local_nanos t div 1000000"
    by (simp add: c_def local_millis)
qed

text \<open>The characters a timestamp is made of.\<close>

lemma pad_int_chars: "x \<in> set (pad_int w n) \<Longrightarrow> is_digit x \<or> x = CHR ''-''"
  by (auto simp: pad_int_def Let_def dest: dec_digits_set split: if_splits)

lemma write_millis_chars: "x \<in> set (write_millis t) \<Longrightarrow> is_digit x"
proof -
  have "0 \<le> nanosecond t" "nanosecond t < 1000000000" by (simp_all add: nanosecond_def)
  then have "0 \<le> nanosecond t div 1000000" "nanosecond t div 1000000 < 1000" by auto
  then show "x \<in> set (write_millis t) \<Longrightarrow> is_digit x"
    by (auto simp: write_millis_def Let_def div_less_iff_less_mult)
qed

lemma format_grok_timestamp_chars:
  "x \<in> set (format_grok_timestamp t) \<Longrightarrow> is_digit x \<or> x \<in> set ''- :,''"
  by (auto simp: format_grok_timestamp_def format_layout_def
      dest!: pad_int_chars write_millis_chars)

end
