(* ===== verification/Types.thy ===== *)
theory Types
  imports Float64 GoTime "HOL-Library.Word"
begin

text \<open>
  The data model of \<open>internal/collector/types.go\<close>: one record per struct, field by field.
  \<open>uint64\<close> and \<open>uint32\<close> fields are words of their width, \<open>float64\<close> is \<open>f64\<close>, a pointer to a number is
  an option, and the signed integers, which no code here does arithmetic on, are \<open>int\<close>.
  The \<open>interface{}\<close> a \<open>MetricData\<close> carries is the datatype \<open>payload\<close>.
\<close>

section \<open>Measurements\<close>

record cpu_data =
  cpu_usage_percent :: "f64"
  cpu_user :: "f64"
  cpu_system :: "f64"
  cpu_idle :: "f64"
  cpu_iowait :: "f64"
  cpu_irq :: "f64"
  cpu_softirq :: "f64"
  cpu_steal :: "f64"
  cpu_guest :: "f64"
  cpu_core_count :: "int"
  cpu_per_core :: "f64 list"

record memory_data =
  mem_total_bytes :: "64 word"
  mem_used_bytes :: "64 word"
  mem_available_bytes :: "64 word"
  mem_usage_percent :: "f64"
  mem_swap_total_bytes :: "64 word"
  mem_swap_used_bytes :: "64 word"
  mem_swap_free_bytes :: "64 word"
  mem_swap_percent :: "f64"
  mem_cached :: "64 word"
  mem_buffers :: "64 word"

record disk_partition =
  dp_device :: "string"
  dp_mountpoint :: "string"
  dp_fs_type :: "string"
  dp_total_bytes :: "64 word"
  dp_used_bytes :: "64 word"
  dp_free_bytes :: "64 word"
  dp_usage_percent :: "f64"
  dp_inodes_total :: "64 word"
  dp_inodes_used :: "64 word"
  dp_inodes_free :: "64 word"
  dp_inodes_percent :: "f64"
  dp_read_bytes :: "64 word"
  dp_write_bytes :: "64 word"
  dp_read_count :: "64 word"
  dp_write_count :: "64 word"
  dp_read_time :: "64 word"
  dp_write_time :: "64 word"

record disk_data =
  disk_partitions :: "disk_partition list"

record network_interface =
  ni_name :: "string"
  ni_bytes_sent :: "64 word"
  ni_bytes_recv :: "64 word"
  ni_packets_sent :: "64 word"
  ni_packets_recv :: "64 word"
  ni_errors_in :: "64 word"
  ni_errors_out :: "64 word"
  ni_drops_in :: "64 word"
  ni_drops_out :: "64 word"
  ni_bytes_sent_rate :: "f64"
  ni_bytes_recv_rate :: "f64"

record network_data =
  net_interfaces :: "network_interface list"
  net_tcp_inbound_count :: "int"
  net_tcp_outbound_count :: "int"

record temperature_sensor =
  ts_name :: "string"
  ts_temperature :: "f64"
  ts_high :: "f64"
  ts_critical :: "f64"

record temperature_data =
  temp_sensors :: "temperature_sensor list"

record fan_sensor =
  fs_name :: "string"
  fs_rpm :: "f64"

record fan_data =
  fan_sensors :: "fan_sensor list"

record process_cpu =
  pc_pid :: "int"
  pc_name :: "string"
  pc_username :: "string"
  pc_cpu_percent :: "f64"
  pc_create_time :: "int"
  pc_watched :: "bool"

record process_cpu_data =
  pcd_processes :: "process_cpu list"

record process_memory =
  pm_pid :: "int"
  pm_name :: "string"
  pm_username :: "string"
  pm_memory_percent :: "f64"
  pm_rss :: "64 word"
  pm_vms :: "64 word"
  pm_swap :: "64 word"
  pm_create_time :: "int"
  pm_watched :: "bool"

record process_memory_data =
  pmd_processes :: "process_memory list"

record gpu_sensor =
  gs_name :: "string"
  gs_temperature :: "f64 option"
  gs_core_load :: "f64 option"
  gs_memory_load :: "f64 option"
  gs_fan_speed :: "f64 option"
  gs_power :: "f64 option"
  gs_core_clock :: "f64 option"
  gs_memory_clock :: "f64 option"

record gpu_data =
  gpu_gpus :: "gpu_sensor list"

record storage_smart_sensor =
  ss_name :: "string"
  ss_type :: "string"
  ss_temperature :: "f64 option"
  ss_remaining_life :: "f64 option"
  ss_media_errors :: "int option"
  ss_power_cycles :: "int option"
  ss_unsafe_shutdowns :: "int option"
  ss_power_on_hours :: "int option"
  ss_total_bytes_written :: "int option"

record storage_smart_data =
  smart_storages :: "storage_smart_sensor list"

record voltage_sensor =
  vs_name :: "string"
  vs_voltage :: "f64"

record voltage_data =
  volt_sensors :: "voltage_sensor list"

record motherboard_temp_sensor =
  ms_name :: "string"
  ms_temperature :: "f64"

record motherboard_temp_data =
  mbt_sensors :: "motherboard_temp_sensor list"

record process_watch_status =
  pw_name :: "string"
  pw_pid :: "int"
  pw_running :: "bool"
  pw_type :: "string"

record process_watch_data =
  pwd_statuses :: "process_watch_status list"

record storage_health_disk =
  shd_name :: "string"
  shd_status :: "string"
  shd_raw_status :: "string"
  shd_disk_type :: "string"

record storage_health_data =
  sh_disks :: "storage_health_disk list"

record uptime_data =
  up_boot_time_unix :: "int"
  up_boot_time_str :: "string"
  up_uptime_minutes :: "f64"

record self_metrics_data =
  sm_goroutine_count :: "int"
  sm_rss_bytes :: "64 word"
  sm_heap_alloc_bytes :: "64 word"
  sm_heap_sys_bytes :: "64 word"
  sm_handle_count :: "32 word"
  sm_buffer_count :: "int"
  sm_buffer_dropped_total :: "int"

section \<open>The common wrapper\<close>

text \<open>
  What \<open>MetricData.Data\<close> holds: a value of one of the types above (directly or behind a pointer), or
  something else, known by the text \<open>encoding/json\<close> gives for it.
\<close>

datatype payload =
    P_CPU cpu_data | P_Memory memory_data | P_Disk disk_data | P_Network network_data
  | P_CPUProcess process_cpu_data | P_MemoryProcess process_memory_data
  | P_Temperature temperature_data | P_GPU gpu_data | P_Fan fan_data | P_Voltage voltage_data
  | P_MotherboardTemp motherboard_temp_data | P_StorageSmart storage_smart_data
  | P_StorageHealth storage_health_data | P_Uptime uptime_data
  | P_ProcessWatch process_watch_data | P_SelfMetrics self_metrics_data
  | P_Other string

record metric_data =
  md_type :: string
  md_timestamp :: gotime
  md_agent_id :: string
  md_hostname :: string
  md_data :: payload

end
