(* ===== verification/GoDuration.thy ===== *)
theory GoDuration
  imports GoStd Float64
begin

text \<open>
  \<open>time.ParseDuration\<close> and the constants of package \<open>time\<close>.  A \<open>time.Duration\<close> is an \<open>int64\<close> of nanoseconds,
  here an \<open>int\<close>; \<open>parse_duration\<close> checks the bounds of 64 bits where the library does, so its results
  are in range (\<open>parse_duration_range\<close>).
\<close>

section \<open>Units\<close>

definition microsecond :: int where "microsecond = 1000"
definition millisecond :: int where "millisecond = 1000000"
definition second :: int where "second = 1000000000"
definition minute :: int where "minute = 60 * second"
definition hour :: int where "hour = 60 * minute"

lemmas duration_units = microsecond_def millisecond_def second_def minute_def hour_def

definition unit_value :: "string \<Rightarrow> int option" where
  "unit_value u =
     (if u = ''ns'' then Some 1
      else if u = ''us'' then Some microsecond
      else if u = [CHR 0xC2, CHR 0xB5, CHR ''s''] then Some microsecond
      else if u = [CHR 0xCE, CHR 0xBC, CHR ''s''] then Some microsecond
      else if u = ''ms'' then Some millisecond
      else if u = ''s'' then Some second
      else if u = ''m'' then Some minute
      else if u = ''h'' then Some hour
      else None)"

lemma unit_value_pos: "unit_value u = Some n \<Longrightarrow> 0 < n"
  by (auto simp: unit_value_def duration_units split: if_splits)

section \<open>Numbers\<close>

text \<open>\<open>leadingInt\<close>: the digits at the front, \<open>None\<close> when they exceed \<open>2 ^ 63\<close>.\<close>

fun leading_int :: "int \<Rightarrow> string \<Rightarrow> (int \<times> string) option" where
  "leading_int x [] = Some (x, [])"
| "leading_int x (c # cs) =
     (if \<not> is_digit c then Some (x, c # cs)
      else if x > 2 ^ 63 div 10 then None
      else let y = x * 10 + char_digit c in
        if y > 2 ^ 63 then None else leading_int y cs)"

text \<open>\<open>leadingFraction\<close>: the digits after the point, as a number and its scale; digits past the range are dropped.\<close>

fun leading_fraction :: "int \<Rightarrow> f64 \<Rightarrow> bool \<Rightarrow> string \<Rightarrow> int \<times> f64 \<times> string" where
  "leading_fraction x scale over [] = (x, scale, [])"
| "leading_fraction x scale over (c # cs) =
     (if \<not> is_digit c then (x, scale, c # cs)
      else if over then leading_fraction x scale True cs
      else if x > (2 ^ 63 - 1) div 10 then leading_fraction x scale True cs
      else let y = x * 10 + char_digit c in
        if y > 2 ^ 63 then leading_fraction x scale True cs
        else leading_fraction y (f64_mul scale (f64_of_int 10)) False cs)"

text \<open>\<open>uint64(x)\<close> of a float of \<open>[0, 2 ^ 64)\<close>.\<close>

fun f64_trunc :: "f64 \<Rightarrow> int" where
  "f64_trunc (F64 s m) = \<lfloor>m\<rfloor>"
| "f64_trunc _ = 0"

definition unit_char :: "char \<Rightarrow> bool" where
  "unit_char c = (\<not> (c = CHR ''.'' \<or> is_digit c))"

text \<open>One group \<open>[0-9]*(\.[0-9]*)?[a-z]+\<close>: its value in nanoseconds and the rest.\<close>

definition parse_fraction :: "string \<Rightarrow> int \<times> f64 \<times> string \<times> bool" where
  "parse_fraction s =
     (case s of
        c # cs \<Rightarrow>
          if c = CHR ''.'' then
            (let (f, scale, r) = leading_fraction 0 (f64_of_int 1) False cs in (f, scale, r, length r \<noteq> length cs))
          else (0, f64_of_int 1, s, False)
      | [] \<Rightarrow> (0, f64_of_int 1, s, False))"

definition parse_group :: "string \<Rightarrow> (int \<times> string) option" where
  "parse_group s =
     (if s = [] \<or> unit_char (hd s) then None
      else case leading_int 0 s of
        None \<Rightarrow> None
      | Some (v, s1) \<Rightarrow>
          (let (f, scale, s2, post) = parse_fraction s1; u = takeWhile unit_char s2; s3 = dropWhile unit_char s2 in
           if \<not> (length s1 \<noteq> length s \<or> post) \<or> u = [] then None
           else case unit_value u of
             None \<Rightarrow> None
           | Some unit \<Rightarrow>
               if v > 2 ^ 63 div unit then None
               else let w = v * unit + (if f > 0 then f64_trunc (f64_mul (f64_of_int f) (f64_div (f64_of_int unit) scale)) else 0)
                 in if f > 0 \<and> w > 2 ^ 63 then None else Some (w, s3)))"

lemma leading_int_length: "leading_int x s = Some (v, r) \<Longrightarrow> length r \<le> length s"
  by (induction x s rule: leading_int.induct) (auto simp: Let_def split: if_splits)

lemma leading_fraction_length: "leading_fraction x sc b s = (f, sc', r) \<Longrightarrow> length r \<le> length s"
  by (induction x sc b s rule: leading_fraction.induct) (auto simp: Let_def split: if_splits)

lemma parse_fraction_length: "parse_fraction s = (f, sc, r, p) \<Longrightarrow> length r \<le> length s"
  by (auto simp: parse_fraction_def split: list.splits if_splits prod.splits dest: leading_fraction_length)

lemma parse_group_shorter: "parse_group s = Some (w, r) \<Longrightarrow> length r < length s"
proof -
  assume "parse_group s = Some (w, r)"
  then obtain v s1 f sc s2 post where *: "leading_int 0 s = Some (v, s1)" "parse_fraction s1 = (f, sc, s2, post)"
      "takeWhile unit_char s2 \<noteq> []" "r = dropWhile unit_char s2"
    by (auto simp: parse_group_def Let_def split: if_splits option.splits prod.splits)
  have "length (takeWhile unit_char s2) + length (dropWhile unit_char s2) = length s2"
    by (metis length_append takeWhile_dropWhile_id)
  moreover have "0 < length (takeWhile unit_char s2)" using *(3) by simp
  ultimately show ?thesis
    using leading_int_length [OF *(1)] parse_fraction_length [OF *(2)] unfolding *(4) by linarith
qed

function parse_groups :: "int \<Rightarrow> string \<Rightarrow> int option" where
  "parse_groups d s =
     (if s = [] then Some d
      else case parse_group s of
        None \<Rightarrow> None
      | Some (v, r) \<Rightarrow>
          let d' = (d + v) mod 2 ^ 64 in if d' > 2 ^ 63 then None else parse_groups d' r)"
  by pat_completeness auto
termination
  by (relation "measure (\<lambda>(d, s). length s)") (auto dest: parse_group_shorter)

declare parse_groups.simps [simp del]

definition parse_duration :: "string \<Rightarrow> int option" where
  "parse_duration s =
     (let neg = has_prefix s ''-''; r = (if has_prefix s ''-'' \<or> has_prefix s ''+'' then tl s else s) in
      if r = ''0'' then Some 0
      else if r = [] then None
      else case parse_groups 0 r of
        None \<Rightarrow> None
      | Some d \<Rightarrow> if neg then Some (- d) else if d > 2 ^ 63 - 1 then None else Some d)"

section \<open>Range and whole numbers of a unit\<close>

lemma parse_groups_range:
  "0 \<le> d \<Longrightarrow> d \<le> 2 ^ 63 \<Longrightarrow> parse_groups d s = Some e \<Longrightarrow> 0 \<le> e \<and> e \<le> 2 ^ 63"
proof (induction d s rule: parse_groups.induct)
  case (1 d s)
  note step = "1.prems"(3) [unfolded parse_groups.simps [of d s]]
  show ?case
  proof (cases "s = []")
    case True
    then show ?thesis using step "1.prems" by simp
  next
    case False
    then obtain v r where v: "parse_group s = Some (v, r)"
      using step by (auto split: option.splits)
    then show ?thesis
      using step False "1.IH" [OF False v refl refl] by (auto simp: Let_def split: if_splits)
  qed
qed

lemma parse_duration_range: "parse_duration s = Some d \<Longrightarrow> - (2 ^ 63) \<le> d \<and> d < 2 ^ 63"
  using parse_groups_range [of 0]
  by (auto simp: parse_duration_def Let_def split: if_splits option.splits) fastforce+

lemma leading_int_digits:
  assumes "list_all is_digit ds" and "0 \<le> x" and "x * 10 ^ length ds + digits_value ds \<le> 2 ^ 63"
    and "t = [] \<or> \<not> is_digit (hd t)"
  shows "leading_int x (ds @ t) = Some (x * 10 ^ length ds + digits_value ds, t)"
  using assms
proof (induction ds arbitrary: x)
  case Nil
  then show ?case by (cases t) (auto simp: digits_value_def)
next
  case (Cons c cs)
  have split: "digits_value (c # cs) = char_digit c * 10 ^ length cs + digits_value cs"
    using digits_value_app [of "[c]" cs] by (simp add: digits_value_def)
  have c: "is_digit c" "0 \<le> char_digit c"
    using Cons.prems by (auto simp: is_digit_def char_digit_def Let_def)
  have dv: "0 \<le> digits_value cs"
    using Cons.prems(1) by (induction cs rule: rev_induct)
      (auto simp: digits_value_append is_digit_def char_digit_def Let_def, simp add: digits_value_def)
  let ?y = "x * 10 + char_digit c"
  have total: "?y * 10 ^ length cs + digits_value cs = x * 10 ^ length (c # cs) + digits_value (c # cs)"
    by (simp add: split algebra_simps)
  have "?y = ?y * 1" by simp
  also have "\<dots> \<le> ?y * 10 ^ length cs"
    by (rule mult_left_mono) (use Cons.prems c in auto)
  also have "\<dots> \<le> ?y * 10 ^ length cs + digits_value cs" using dv by simp
  also have "\<dots> \<le> 2 ^ 63" unfolding total by (rule Cons.prems(3))
  finally have y: "?y \<le> 2 ^ 63" .
  then have "x \<le> 2 ^ 63 div 10" using c by linarith
  then show ?case
    using Cons.IH [of ?y] Cons.prems c y total by (simp add: Let_def)
qed

lemma takeWhile_all: "list_all P s \<Longrightarrow> takeWhile P s = s" and dropWhile_all: "list_all P s \<Longrightarrow> dropWhile P s = []"
  by (induction s) auto

lemma unit_text: "unit_value u = Some n \<Longrightarrow> u \<noteq> [] \<and> list_all unit_char u"
  by (auto simp: unit_value_def unit_char_def is_digit_def split: if_splits)

lemma parse_group_whole:
  assumes u: "unit_value u = Some unit" and n: "0 \<le> n" and bound: "n * unit \<le> 2 ^ 63"
  shows "parse_group (dec_digits n @ u) = Some (n * unit, [])"
proof -
  have pos: "0 < unit" using unit_value_pos [OF u] .
  have ut: "u \<noteq> []" "list_all unit_char u" using unit_text [OF u] by auto
  have hd_u: "\<not> is_digit (hd u)" "hd u \<noteq> CHR ''.''"
    using ut by (cases u; auto simp: unit_char_def)+
  have "n * 1 \<le> n * unit" by (rule mult_left_mono) (use n pos in auto)
  then have "n \<le> 2 ^ 63" using bound by linarith
  then have li: "leading_int 0 (dec_digits n @ u) = Some (n, u)"
    using leading_int_digits [of "dec_digits n" 0 u] dec_digits_is_digit n hd_u by simp
  have fr: "parse_fraction u = (0, f64_of_int 1, u, False)"
    using hd_u ut(1) by (cases u) (auto simp: parse_fraction_def)
  have "n = n * unit div unit" using pos by simp
  also have "\<dots> \<le> 2 ^ 63 div unit" by (rule zdiv_mono1) (use bound pos in auto)
  finally have le: "\<not> n > 2 ^ 63 div unit" by simp
  have hd: "\<not> unit_char (hd (dec_digits n @ u))"
    using dec_digits_set [OF hd_in_set [OF dec_digits_nonempty, of n]] by (simp add: unit_char_def)
  show ?thesis
    unfolding parse_group_def using hd li fr le ut u
    by (simp add: takeWhile_all dropWhile_all Let_def)
qed

text \<open>A whole number of a unit is read exactly, as long as it fits in 63 bits.\<close>

lemma parse_duration_whole:
  assumes u: "unit_value u = Some unit" and n: "0 \<le> n" and bound: "n * unit < 2 ^ 63"
  shows "parse_duration (itoa n @ u) = Some (n * unit)"
proof -
  have it: "itoa n = dec_digits n" using n by (simp add: itoa_def)
  have ut: "u \<noteq> []" using unit_text [OF u] by simp
  obtain c cs where c: "dec_digits n = c # cs" "is_digit c"
    using dec_digits_nonempty dec_digits_set [of _ n] by (metis list.exhaust list.set_intros(1))
  then have sign: "\<not> has_prefix (dec_digits n @ u) ''-''" "\<not> has_prefix (dec_digits n @ u) ''+''"
    by (auto simp: has_prefix_def is_digit_def)
  have nz: "dec_digits n @ u \<noteq> ''0''" "dec_digits n @ u \<noteq> []"
    using c ut by (auto simp: Cons_eq_append_conv)
  have "0 \<le> n * unit" using n unit_value_pos [OF u] by simp
  then have "parse_groups 0 (dec_digits n @ u) = Some (n * unit)"
    using parse_group_whole [OF u n] bound nz
    by (subst parse_groups.simps) (simp add: Let_def parse_groups.simps)
  then show ?thesis
    using sign nz bound unfolding it parse_duration_def by simp
qed

end
