(* ===== verification/Config.thy ===== *)
theory Config
  imports GoDuration "HOL-Library.AList"
begin

text \<open>
  \<open>internal/config/config.go\<close>: the configuration structures, their defaults, the merge of what a file
  says over the defaults, and the derived values \<open>ResolvePassword\<close> and \<open>ResolveTopic\<close>.  A Go map is an
  association list with distinct keys, in the order an iteration visits it; the theorems on maps
  hold for every such order.
\<close>

section \<open>Structures\<close>

record file_config =
  fc_file_path :: string
  fc_max_size_mb :: int
  fc_max_backups :: int
  fc_console :: bool
  fc_pretty :: bool
  fc_format :: string

record kafka_config =
  kc_broker_port :: int
  kc_compression :: string
  kc_required_acks :: int
  kc_timeout :: int
  kc_enable_tls :: bool
  kc_tls_cert_file :: string
  kc_tls_key_file :: string
  kc_tls_ca_file :: string
  kc_sasl_enabled :: bool
  kc_sasl_mechanism :: string
  kc_sasl_user :: string
  kc_sasl_password :: string

record batch_config =
  bc_flush_frequency :: int
  bc_flush_messages :: int
  bc_max_batch_size :: int
  bc_max_retries :: int
  bc_retry_backoff :: int
  bc_max_buffered_records :: int

record collector_config =
  cc_enabled :: bool
  cc_interval :: int
  cc_top_n :: int
  cc_disks :: "string list"
  cc_interfaces :: "string list"
  cc_include_zones :: "string list"
  cc_watch_processes :: "string list"
  cc_required_processes :: "string list"
  cc_forbidden_processes :: "string list"

record redis_config =
  rd_port :: int
  rd_password :: string

record socks_config =
  sk_host :: string
  sk_port :: int

record eqp_info_config =
  eq_process :: string
  eq_model :: string
  eq_id :: string
  eq_line :: string
  eq_line_desc :: string
  eq_index :: string

record config =
  cfg_sender_type :: string
  cfg_kafka :: kafka_config
  cfg_batch :: batch_config
  cfg_file :: file_config
  cfg_virtual_address_list :: string
  cfg_redis :: redis_config
  cfg_private_ip_pattern :: string
  cfg_socks :: socks_config
  cfg_service_discovery_port :: int
  cfg_topic :: string
  cfg_time_diff_sync_interval :: int
  cfg_update_server_interval :: int
  cfg_kafka_rest_address :: string
  cfg_eqp_info :: "eqp_info_config option"

definition default_redis_password :: string where
  "default_redis_password = ''visuallove''"

definition resolve_password :: "redis_config \<Rightarrow> string" where
  "resolve_password r = (if rd_password r = [] then default_redis_password else rd_password r)"

section \<open>Defaults\<close>

definition default_config :: config where
  "default_config =
     \<lparr>cfg_sender_type = ''kafka'',
      cfg_kafka = \<lparr>kc_broker_port = 9092, kc_compression = ''snappy'', kc_required_acks = 1,
        kc_timeout = 10 * second, kc_enable_tls = False, kc_tls_cert_file = [], kc_tls_key_file = [],
        kc_tls_ca_file = [], kc_sasl_enabled = False, kc_sasl_mechanism = [], kc_sasl_user = [],
        kc_sasl_password = []\<rparr>,
      cfg_batch = \<lparr>bc_flush_frequency = 30 * second, bc_flush_messages = 100, bc_max_batch_size = 500,
        bc_max_retries = 2, bc_retry_backoff = 500 * millisecond, bc_max_buffered_records = 10000\<rparr>,
      cfg_file = \<lparr>fc_file_path = ''log/ResourceAgent/metrics.jsonl'', fc_max_size_mb = 50, fc_max_backups = 3,
        fc_console = True, fc_pretty = False, fc_format = []\<rparr>,
      cfg_virtual_address_list = [],
      cfg_redis = \<lparr>rd_port = 6379, rd_password = []\<rparr>,
      cfg_private_ip_pattern = [],
      cfg_socks = \<lparr>sk_host = [], sk_port = 0\<rparr>,
      cfg_service_discovery_port = 50009,
      cfg_topic = ''process'',
      cfg_time_diff_sync_interval = 3600,
      cfg_update_server_interval = 10 * minute,
      cfg_kafka_rest_address = [],
      cfg_eqp_info = None\<rparr>"

section \<open>Merge\<close>

text \<open>The pattern of every field but the booleans: a non-zero value of \<open>other\<close> replaces the old one.\<close>

definition set_str :: "string \<Rightarrow> string \<Rightarrow> string" where
  "set_str old other = (if other \<noteq> [] then other else old)"

definition set_int :: "int \<Rightarrow> int \<Rightarrow> int" where
  "set_int old other = (if other \<noteq> 0 then other else old)"

definition set_list :: "'a list \<Rightarrow> 'a list \<Rightarrow> 'a list" where
  "set_list old other = (if length other > 0 then other else old)"

definition merge_config :: "config \<Rightarrow> config option \<Rightarrow> config" where
  "merge_config c oth =
     (case oth of
        None \<Rightarrow> c
      | Some n \<Rightarrow>
         c\<lparr>cfg_sender_type := set_str (cfg_sender_type c) (cfg_sender_type n),
           cfg_file :=
             \<lparr>fc_file_path = set_str (fc_file_path (cfg_file c)) (fc_file_path (cfg_file n)),
              fc_max_size_mb = set_int (fc_max_size_mb (cfg_file c)) (fc_max_size_mb (cfg_file n)),
              fc_max_backups = set_int (fc_max_backups (cfg_file c)) (fc_max_backups (cfg_file n)),
              fc_console = fc_console (cfg_file n),
              fc_pretty = fc_pretty (cfg_file n),
              fc_format = set_str (fc_format (cfg_file c)) (fc_format (cfg_file n))\<rparr>,
           cfg_kafka :=
             \<lparr>kc_broker_port = set_int (kc_broker_port (cfg_kafka c)) (kc_broker_port (cfg_kafka n)),
              kc_compression = set_str (kc_compression (cfg_kafka c)) (kc_compression (cfg_kafka n)),
              kc_required_acks = set_int (kc_required_acks (cfg_kafka c)) (kc_required_acks (cfg_kafka n)),
              kc_timeout = set_int (kc_timeout (cfg_kafka c)) (kc_timeout (cfg_kafka n)),
              kc_enable_tls = kc_enable_tls (cfg_kafka n),
              kc_tls_cert_file = set_str (kc_tls_cert_file (cfg_kafka c)) (kc_tls_cert_file (cfg_kafka n)),
              kc_tls_key_file = set_str (kc_tls_key_file (cfg_kafka c)) (kc_tls_key_file (cfg_kafka n)),
              kc_tls_ca_file = set_str (kc_tls_ca_file (cfg_kafka c)) (kc_tls_ca_file (cfg_kafka n)),
              kc_sasl_enabled = kc_sasl_enabled (cfg_kafka n),
              kc_sasl_mechanism = set_str (kc_sasl_mechanism (cfg_kafka c)) (kc_sasl_mechanism (cfg_kafka n)),
              kc_sasl_user = set_str (kc_sasl_user (cfg_kafka c)) (kc_sasl_user (cfg_kafka n)),
              kc_sasl_password = set_str (kc_sasl_password (cfg_kafka c)) (kc_sasl_password (cfg_kafka n))\<rparr>,
           cfg_batch :=
             \<lparr>bc_flush_frequency = set_int (bc_flush_frequency (cfg_batch c)) (bc_flush_frequency (cfg_batch n)),
              bc_flush_messages = set_int (bc_flush_messages (cfg_batch c)) (bc_flush_messages (cfg_batch n)),
              bc_max_batch_size = set_int (bc_max_batch_size (cfg_batch c)) (bc_max_batch_size (cfg_batch n)),
              bc_max_retries = set_int (bc_max_retries (cfg_batch c)) (bc_max_retries (cfg_batch n)),
              bc_retry_backoff = set_int (bc_retry_backoff (cfg_batch c)) (bc_retry_backoff (cfg_batch n)),
              bc_max_buffered_records =
                set_int (bc_max_buffered_records (cfg_batch c)) (bc_max_buffered_records (cfg_batch n))\<rparr>,
           cfg_virtual_address_list := set_str (cfg_virtual_address_list c) (cfg_virtual_address_list n),
           cfg_redis :=
             \<lparr>rd_port = set_int (rd_port (cfg_redis c)) (rd_port (cfg_redis n)),
              rd_password = set_str (rd_password (cfg_redis c)) (rd_password (cfg_redis n))\<rparr>,
           cfg_socks :=
             \<lparr>sk_host = set_str (sk_host (cfg_socks c)) (sk_host (cfg_socks n)),
              sk_port = set_int (sk_port (cfg_socks c)) (sk_port (cfg_socks n))\<rparr>,
           cfg_private_ip_pattern := set_str (cfg_private_ip_pattern c) (cfg_private_ip_pattern n),
           cfg_service_discovery_port := set_int (cfg_service_discovery_port c) (cfg_service_discovery_port n),
           cfg_topic := set_str (cfg_topic c) (cfg_topic n),
           cfg_time_diff_sync_interval := set_int (cfg_time_diff_sync_interval c) (cfg_time_diff_sync_interval n),
           cfg_update_server_interval :=
             set_int (cfg_update_server_interval c) (cfg_update_server_interval n)\<rparr>)"

lemma set_assoc:
  "set_str (set_str a b) c = set_str a (set_str b c)"
  "set_int (set_int i j) k = set_int i (set_int j k)"
  "set_list (set_list xs ys) zs = set_list xs (set_list ys zs)"
  by (simp_all add: set_str_def set_int_def set_list_def)

lemma set_idem: "set_str a a = a" "set_int i i = i" "set_list xs xs = xs"
  by (simp_all add: set_str_def set_int_def set_list_def)

lemma set_zero_iff: "set_int i j = 0 \<longleftrightarrow> i = 0 \<and> j = 0" "set_str a b = [] \<longleftrightarrow> a = [] \<and> b = []"
  by (auto simp: set_int_def set_str_def)

section \<open>The collectors' configuration\<close>

record monitor_config =
  mc_collectors :: "(string \<times> collector_config) list"

definition default_monitor_config :: monitor_config where
  "default_monitor_config = \<lparr>mc_collectors = []\<rparr>"

text \<open>\<open>ApplyDefaults\<close>: an entry for every name that has none.\<close>

definition apply_defaults :: "monitor_config \<Rightarrow> (string \<times> collector_config) list \<Rightarrow> monitor_config" where
  "apply_defaults mc defaults =
     foldl (\<lambda>m (name, def_cfg).
       (case map_of (mc_collectors m) name of
          Some _ \<Rightarrow> m
        | None \<Rightarrow> m\<lparr>mc_collectors := AList.update name def_cfg (mc_collectors m)\<rparr>)) mc defaults"

definition merge_collector :: "collector_config \<Rightarrow> collector_config \<Rightarrow> collector_config" where
  "merge_collector existing n =
     \<lparr>cc_enabled = cc_enabled n,
      cc_interval = set_int (cc_interval existing) (cc_interval n),
      cc_top_n = set_int (cc_top_n existing) (cc_top_n n),
      cc_disks = set_list (cc_disks existing) (cc_disks n),
      cc_interfaces = set_list (cc_interfaces existing) (cc_interfaces n),
      cc_include_zones = set_list (cc_include_zones existing) (cc_include_zones n),
      cc_watch_processes = set_list (cc_watch_processes existing) (cc_watch_processes n),
      cc_required_processes = set_list (cc_required_processes existing) (cc_required_processes n),
      cc_forbidden_processes = set_list (cc_forbidden_processes existing) (cc_forbidden_processes n)\<rparr>"

definition merge_monitor :: "monitor_config \<Rightarrow> monitor_config option \<Rightarrow> monitor_config" where
  "merge_monitor mc oth =
     (case oth of
        None \<Rightarrow> mc
      | Some n \<Rightarrow>
         foldl (\<lambda>m (name, cfg).
           (case map_of (mc_collectors m) name of
              Some existing \<Rightarrow>
                m\<lparr>mc_collectors := AList.update name (merge_collector existing cfg) (mc_collectors m)\<rparr>
            | None \<Rightarrow> m\<lparr>mc_collectors := AList.update name cfg (mc_collectors m)\<rparr>)) mc (mc_collectors n))"

section \<open>Topics\<close>

text \<open>\<open>ResolveTopic\<close>; \<open>None\<close> is the nil dereference of a mode that needs the equipment info when there is none.\<close>

definition resolve_topic :: "string \<Rightarrow> eqp_info_config option \<Rightarrow> string option" where
  "resolve_topic mode eqp =
     (if mode = ''all'' then Some ''tp_all_all_resource''
      else if mode = ''model'' then
        map_option (\<lambda>e. ''tp_'' @ eq_process e @ ''_'' @ eq_model e @ ''_resource'') eqp
      else map_option (\<lambda>e. ''tp_'' @ eq_process e @ ''_all_resource'') eqp)"

lemma resolve_topic_some: "eqp \<noteq> None \<Longrightarrow> resolve_topic mode eqp \<noteq> None"
  by (auto simp: resolve_topic_def)

section \<open>Merging as maps\<close>

abbreviation collectors_map :: "monitor_config \<Rightarrow> string \<rightharpoonup> collector_config" where
  "collectors_map mc \<equiv> map_of (mc_collectors mc)"

lemma fold_update_map_of:
  assumes "distinct (map fst xs)"
  shows "collectors_map (foldl (\<lambda>m (name, v). (case collectors_map m name of
            Some e \<Rightarrow> m\<lparr>mc_collectors := AList.update name (f e v) (mc_collectors m)\<rparr>
          | None \<Rightarrow> m\<lparr>mc_collectors := AList.update name v (mc_collectors m)\<rparr>)) mc xs) name =
       (case map_of xs name of
          None \<Rightarrow> collectors_map mc name
        | Some v \<Rightarrow> (case collectors_map mc name of None \<Rightarrow> Some v | Some e \<Rightarrow> Some (f e v)))"
  using assms
proof (induction xs arbitrary: mc)
  case Nil
  then show ?case by simp
next
  case (Cons x xs)
  obtain n v where x: "x = (n, v)" by force
  have "map_of xs n = None" using Cons.prems x by (simp add: map_of_eq_None_iff)
  then show ?case
    using Cons x by (auto simp: update_conv' split: option.splits)
qed

lemma merge_monitor_map:
  assumes "distinct (map fst (mc_collectors n))"
  shows "collectors_map (merge_monitor mc (Some n)) name =
      (case collectors_map n name of
         None \<Rightarrow> collectors_map mc name
       | Some v \<Rightarrow> (case collectors_map mc name of None \<Rightarrow> Some v | Some e \<Rightarrow> Some (merge_collector e v)))"
  unfolding merge_monitor_def option.case by (rule fold_update_map_of [OF assms])

lemma apply_defaults_map:
  "collectors_map (apply_defaults mc ds) name =
     (case collectors_map mc name of Some c \<Rightarrow> Some c | None \<Rightarrow> map_of ds name)"
  unfolding apply_defaults_def
proof (induction ds arbitrary: mc)
  case Nil
  then show ?case by (simp split: option.splits)
next
  case (Cons d ds)
  obtain n v where d: "d = (n, v)" by force
  show ?case
    by (cases "collectors_map mc n") (auto simp: d Cons.IH update_conv' split: option.splits)
qed

lemma apply_defaults_distinct:
  "distinct (map fst (mc_collectors mc)) \<Longrightarrow> distinct (map fst (mc_collectors (apply_defaults mc ds)))"
  unfolding apply_defaults_def
proof (induction ds arbitrary: mc)
  case (Cons d ds)
  obtain n v where d: "d = (n, v)" by force
  show ?case
    using Cons by (auto simp: d distinct_update split: option.splits)
qed simp

lemma merge_monitor_distinct:
  assumes "distinct (map fst (mc_collectors mc))"
  shows "distinct (map fst (mc_collectors (merge_monitor mc n)))"
proof (cases n)
  case (Some m)
  have "distinct (map fst (mc_collectors (foldl (\<lambda>m (name, cfg).
           (case map_of (mc_collectors m) name of
              Some existing \<Rightarrow>
                m\<lparr>mc_collectors := AList.update name (merge_collector existing cfg) (mc_collectors m)\<rparr>
            | None \<Rightarrow> m\<lparr>mc_collectors := AList.update name cfg (mc_collectors m)\<rparr>)) mc xs)))" for xs
    using assms
  proof (induction xs arbitrary: mc)
    case (Cons d ds)
    obtain n v where d: "d = (n, v)" by force
    show ?case
      using Cons by (auto simp: d distinct_update split: option.splits)
  qed simp
  then show ?thesis by (simp add: merge_monitor_def Some)
qed (use assms in \<open>simp add: merge_monitor_def\<close>)

section \<open>Properties\<close>

text \<open>Layering configurations is associative and idempotent: merging a third configuration into the
  merge of two is the same as merging the merge of the last two into the first, merging nothing or the
  configuration itself changes nothing, and a merged number is zero only when it is zero in both.\<close>

theorem merge_layers:
  "merge_config (merge_config a (Some b)) (Some c) = merge_config a (Some (merge_config b (Some c))) \<and>
   merge_config a None = a \<and> merge_config a (Some a) = a \<and>
   (cfg_service_discovery_port (merge_config a (Some b)) = 0 \<longleftrightarrow>
      cfg_service_discovery_port a = 0 \<and> cfg_service_discovery_port b = 0) \<and>
   (bc_max_buffered_records (cfg_batch (merge_config a (Some b))) = 0 \<longleftrightarrow>
      bc_max_buffered_records (cfg_batch a) = 0 \<and> bc_max_buffered_records (cfg_batch b) = 0)"
  by (simp add: merge_config_def set_assoc set_idem set_zero_iff)

text \<open>Merging monitor configurations works per collector: one that only one of them names is taken over
  unchanged, and one that both name gets the new on/off switch and, for every other setting, the new
  value unless it is zero or empty.\<close>

theorem monitor_merge_pointwise:
  assumes "distinct (map fst (mc_collectors n))"
  shows "map_of (mc_collectors (merge_monitor mc (Some n))) name =
      (case (map_of (mc_collectors mc) name, map_of (mc_collectors n) name) of
         (e, None) \<Rightarrow> e
       | (None, Some v) \<Rightarrow> Some v
       | (Some e, Some v) \<Rightarrow> Some (merge_collector e v)) \<and>
    cc_enabled (merge_collector e v) = cc_enabled v \<and>
    cc_interval (merge_collector e v) = (if cc_interval v \<noteq> 0 then cc_interval v else cc_interval e) \<and>
    cc_watch_processes (merge_collector e v) =
      (if cc_watch_processes v = [] then cc_watch_processes e else cc_watch_processes v)"
  using merge_monitor_map [OF assms, of mc name]
  by (auto simp: merge_collector_def set_int_def set_list_def split: option.splits)

definition sample_collector_config :: collector_config where
  "sample_collector_config =
     \<lparr>cc_enabled = True, cc_interval = second, cc_top_n = 0, cc_disks = [], cc_interfaces = [], cc_include_zones = [],
      cc_watch_processes = [], cc_required_processes = [], cc_forbidden_processes = []\<rparr>"

theorem monitor_merge_pointwise_witness:
  "map_of (mc_collectors (merge_monitor \<lparr>mc_collectors = [(''CPU'', sample_collector_config)]\<rparr>
     (Some \<lparr>mc_collectors = [(''Disk'', sample_collector_config)]\<rparr>))) ''CPU'' = Some sample_collector_config"
  by (subst conjunct1 [OF monitor_merge_pointwise]) simp_all

end
