(* ===== verification/Sanitize.thy ===== *)
theory Sanitize
  imports GoStd
begin

text \<open>
  \<open>internal/collector/sanitize.go\<close>: the names of sensors, processes and interfaces are made safe for the
  downstream Grok and JSON pipelines.  The two regular expressions are written out: every
  byte outside \<open>[a-zA-Z0-9_:.@-]\<close> becomes an underscore, then each run of underscores becomes
  one.  (Go's regexp works on runes; a multi-byte rune gives one underscore there and a run of
  them here, which the second step makes the same.)
\<close>

section \<open>The two passes\<close>

definition safe_char :: "char \<Rightarrow> bool" where
  "safe_char c = (let n = of_char c :: nat in
     (97 \<le> n \<and> n \<le> 122) \<or> (65 \<le> n \<and> n \<le> 90) \<or> (48 \<le> n \<and> n \<le> 57) \<or> c \<in> set ''_:.@-'')"

text \<open>\<open>_{2,}\<close>, leftmost and greedy, replaced by one underscore.\<close>

fun collapse_underscores :: "string \<Rightarrow> string" where
  "collapse_underscores (a # b # s) =
     (if a = CHR ''_'' \<and> b = CHR ''_'' then collapse_underscores (b # s)
      else a # collapse_underscores (b # s))"
| "collapse_underscores s = s"

definition sanitize_name :: "string \<Rightarrow> string" where
  "sanitize_name s =
     collapse_underscores
       (map (\<lambda>c. if safe_char c then c else CHR ''_'')
         (filter (\<lambda>c. c \<noteq> CHR ''('' \<and> c \<noteq> CHR '')'') s))"

section \<open>What the result looks like\<close>

fun no_double_underscore :: "string \<Rightarrow> bool" where
  "no_double_underscore (a # b # s) =
     (\<not> (a = CHR ''_'' \<and> b = CHR ''_'') \<and> no_double_underscore (b # s))"
| "no_double_underscore s = True"

definition safe_name :: "string \<Rightarrow> bool" where
  "safe_name s = (list_all safe_char s \<and> no_double_underscore s)"

lemma set_collapse: "set (collapse_underscores s) = set s"
  by (induction s rule: collapse_underscores.induct) auto

lemma hd_collapse: "s \<noteq> [] \<Longrightarrow> collapse_underscores s \<noteq> [] \<and> hd (collapse_underscores s) = hd s"
  by (induction s rule: collapse_underscores.induct) auto

lemma no_double_Cons:
  "no_double_underscore (a # s) \<longleftrightarrow>
     no_double_underscore s \<and> (s = [] \<or> \<not> (a = CHR ''_'' \<and> hd s = CHR ''_''))"
  by (cases s) auto

lemma no_double_collapse: "no_double_underscore (collapse_underscores s)"
proof (induction s rule: collapse_underscores.induct)
  case (1 a b s)
  then show ?case
    using hd_collapse [of "b # s"] by (auto simp: no_double_Cons)
qed simp_all

lemma collapse_id: "no_double_underscore s \<Longrightarrow> collapse_underscores s = s"
  by (induction s rule: no_double_underscore.induct) auto

lemma safe_char_underscore [simp]: "safe_char CHR ''_''"
  by (simp add: safe_char_def)

lemma sanitize_safe: "safe_name (sanitize_name s)"
  by (auto simp: safe_name_def sanitize_name_def no_double_collapse list_all_iff set_collapse)

lemma sanitize_id:
  assumes "safe_name s"
  shows "sanitize_name s = s"
proof -
  have "\<forall>c \<in> set s. safe_char c" using assms by (simp add: safe_name_def list_all_iff)
  moreover have "safe_char c \<Longrightarrow> c \<noteq> CHR ''('' \<and> c \<noteq> CHR '')''" for c
    by (auto simp: safe_char_def)
  ultimately have "filter (\<lambda>c. c \<noteq> CHR ''('' \<and> c \<noteq> CHR '')'') s = s"
    by (auto intro: filter_True)
  moreover from this have "map (\<lambda>c. if safe_char c then c else CHR ''_'') s = s"
    using assms by (auto simp: safe_name_def list_all_iff intro: map_idI)
  ultimately show ?thesis
    using assms by (simp add: sanitize_name_def collapse_id safe_name_def)
qed

lemma sanitize_idem: "sanitize_name (sanitize_name s) = sanitize_name s"
  by (rule sanitize_id [OF sanitize_safe])

lemma sanitize_char: "c \<in> set (sanitize_name s) \<Longrightarrow> safe_char c"
  using sanitize_safe [of s] by (auto simp: safe_name_def list_all_iff)

lemma sanitize_no_comma [simp]: "CHR '','' \<notin> set (sanitize_name s)"
  by (auto dest!: sanitize_char simp: safe_char_def)

lemma length_collapse: "length (collapse_underscores s) \<le> length s"
  by (induction s rule: collapse_underscores.induct) auto

lemma length_sanitize: "length (sanitize_name s) \<le> length s"
  unfolding sanitize_name_def
  by (rule order_trans [OF length_collapse]) (simp add: length_filter_le)

section \<open>Properties\<close>

text \<open>C40 A sanitised name uses only characters the downstream patterns accept, never two underscores in a
  row, and is no longer than the name; a name that already has this form is not changed, so sanitising
  twice is sanitising once.\<close>

theorem sanitized_name_safe:
  "safe_name (sanitize_name s) \<and> length (sanitize_name s) \<le> length s \<and>
   (sanitize_name s = s \<longleftrightarrow> safe_name s) \<and> sanitize_name (sanitize_name s) = sanitize_name s"
  using sanitize_safe [of s] sanitize_id [of s] length_sanitize [of s] sanitize_idem [of s] by metis

end
