(* ===== verification/Collector.thy ===== *)
theory Collector
  imports Types Config Sanitize
begin

text \<open>
  \<open>internal/collector/collector.go\<close> and the collectors that read a value and pass it on: CPU, memory,
  disk, uptime, the sensor collectors and the agent's own metrics.  A struct that embeds
  \<open>BaseCollector\<close> is a record that extends \<open>base_collector\<close>.  What the operating system, gopsutil and
  the sensor helper answer are arguments; \<open>None\<close> is an error of the call.
\<close>

section \<open>The base\<close>

record base_collector =
  co_name :: string
  co_interval :: int
  co_enabled :: bool

datatype collect_error = Probe_Failed | Context_Cancelled | Nil_Matcher

definition new_base_collector :: "string \<Rightarrow> base_collector" where
  "new_base_collector name = \<lparr>co_name = name, co_interval = 10 * second, co_enabled = True\<rparr>"

definition base_default_config :: "'a base_collector_scheme \<Rightarrow> collector_config" where
  "base_default_config c =
     \<lparr>cc_enabled = True, cc_interval = co_interval c, cc_top_n = 0, cc_disks = [], cc_interfaces = [],
      cc_include_zones = [], cc_watch_processes = [], cc_required_processes = [], cc_forbidden_processes = []\<rparr>"

text \<open>The setters, and the common part of every \<open>Configure\<close>: an interval that is not positive leaves the old one.\<close>

definition set_interval :: "int \<Rightarrow> 'a base_collector_scheme \<Rightarrow> 'a base_collector_scheme" where
  [simp]: "set_interval d c = c\<lparr>co_interval := d\<rparr>"

definition set_enabled :: "bool \<Rightarrow> 'a base_collector_scheme \<Rightarrow> 'a base_collector_scheme" where
  [simp]: "set_enabled enabled c = c\<lparr>co_enabled := enabled\<rparr>"

definition configure_base :: "collector_config \<Rightarrow> 'a base_collector_scheme \<Rightarrow> 'a base_collector_scheme" where
  "configure_base cfg c =
     (let c1 = set_enabled (cc_enabled cfg) c
      in if cc_interval cfg > 0 then set_interval (cc_interval cfg) c1 else c1)"

definition make_metric :: "'a base_collector_scheme \<Rightarrow> gotime \<Rightarrow> payload \<Rightarrow> metric_data" where
  "make_metric c now p =
     \<lparr>md_type = co_name c, md_timestamp = now, md_agent_id = [], md_hostname = [], md_data = p\<rparr>"

record filtered_collector = base_collector +
  co_include :: "string list"

definition new_filtered :: "string \<Rightarrow> filtered_collector" where
  "new_filtered name =
     \<lparr>co_name = name, co_interval = 10 * second, co_enabled = True, co_include = []\<rparr>"

lemma configure_base_simps [simp]:
  "co_name (configure_base cfg c) = co_name c"
  "co_enabled (configure_base cfg c) = cc_enabled cfg"
  "co_interval (configure_base cfg c) = (if cc_interval cfg > 0 then cc_interval cfg else co_interval c)"
  by (simp_all add: configure_base_def Let_def)

section \<open>Durations as floats\<close>

text \<open>\<open>Duration.Seconds\<close> and \<open>Duration.Minutes\<close>: the whole part and the rest, each as a float.\<close>

definition tdiv :: "int \<Rightarrow> int \<Rightarrow> int" where
  "tdiv a b = (if a < 0 then - (- a div b) else a div b)"

definition duration_seconds :: "int \<Rightarrow> f64" where
  "duration_seconds d =
     (let sec = tdiv d second; nsec = d - sec * second in
      f64_add (f64_of_int sec) (f64_div (f64_of_int nsec) (f64_of_int second)))"

definition duration_minutes :: "int \<Rightarrow> f64" where
  "duration_minutes d =
     (let m = tdiv d minute; nsec = d - m * minute in
      f64_add (f64_of_int m) (f64_div (f64_of_int nsec) (f64_of_int minute)))"

text \<open>\<open>t.Sub(u)\<close>, which saturates at the bounds of \<open>int64\<close>.\<close>

definition sub_time :: "gotime \<Rightarrow> gotime \<Rightarrow> int" where
  "sub_time t u = max (- (2 ^ 63)) (min (2 ^ 63 - 1) (unix_nanos t - unix_nanos u))"

section \<open>CPU and memory\<close>

record cpu_times =
  ct_user :: f64
  ct_system :: f64
  ct_idle :: f64
  ct_iowait :: f64
  ct_irq :: f64
  ct_softirq :: f64
  ct_steal :: f64
  ct_guest :: f64

definition new_cpu_collector :: base_collector where
  "new_cpu_collector = new_base_collector ''CPU''"

definition f64_zero :: f64 where
  "f64_zero = F64 False 0"

definition share :: "f64 \<Rightarrow> f64 \<Rightarrow> f64" where
  "share x whole = f64_mul (f64_div x whole) (f64_of_int 100)"

definition collect_cpu ::
  "f64 list option \<Rightarrow> f64 list option \<Rightarrow> cpu_times list option \<Rightarrow> int \<Rightarrow> gotime \<Rightarrow>
     'a base_collector_scheme \<Rightarrow> collect_error + metric_data" where
  "collect_cpu percentages per_core cpu_ts num_cpu now c =
     (case (percentages, cpu_ts) of
        (Some ps, Some ts) \<Rightarrow>
          (let zero = \<lparr>cpu_usage_percent = (if length ps > 0 then ps ! 0 else f64_zero),
                  cpu_user = f64_zero, cpu_system = f64_zero, cpu_idle = f64_zero, cpu_iowait = f64_zero,
                  cpu_irq = f64_zero, cpu_softirq = f64_zero, cpu_steal = f64_zero, cpu_guest = f64_zero,
                  cpu_core_count = num_cpu,
                  cpu_per_core = (case per_core of None \<Rightarrow> [] | Some xs \<Rightarrow> xs)\<rparr>;
               d = (if length ts > 0 then
                      (let t = ts ! 0;
                           total = f64_add (f64_add (f64_add (f64_add (f64_add (f64_add (f64_add
                             (ct_user t) (ct_system t)) (ct_idle t)) (ct_iowait t)) (ct_irq t))
                             (ct_softirq t)) (ct_steal t)) (ct_guest t)
                       in if f64_less f64_zero total then
                            zero\<lparr>cpu_user := share (ct_user t) total, cpu_system := share (ct_system t) total,
                              cpu_idle := share (ct_idle t) total, cpu_iowait := share (ct_iowait t) total,
                              cpu_irq := share (ct_irq t) total, cpu_softirq := share (ct_softirq t) total,
                              cpu_steal := share (ct_steal t) total, cpu_guest := share (ct_guest t) total\<rparr>
                          else zero)
                    else zero)
           in Inr (make_metric c now (P_CPU d)))
      | _ \<Rightarrow> Inl Probe_Failed)"

record virtual_memory =
  vm_total :: "64 word"
  vm_used :: "64 word"
  vm_available :: "64 word"
  vm_used_percent :: f64
  vm_cached :: "64 word"
  vm_buffers :: "64 word"

record swap_memory =
  sw_total :: "64 word"
  sw_used :: "64 word"
  sw_free :: "64 word"
  sw_used_percent :: f64

definition new_memory_collector :: base_collector where
  "new_memory_collector = new_base_collector ''Memory''"

definition collect_memory ::
  "virtual_memory option \<Rightarrow> swap_memory option \<Rightarrow> gotime \<Rightarrow> 'a base_collector_scheme \<Rightarrow>
     collect_error + metric_data" where
  "collect_memory vm swap now c =
     (case vm of
        None \<Rightarrow> Inl Probe_Failed
      | Some v \<Rightarrow>
          (let s = (case swap of Some s \<Rightarrow> s
                    | None \<Rightarrow> \<lparr>sw_total = 0, sw_used = 0, sw_free = 0, sw_used_percent = f64_zero\<rparr>)
           in Inr (make_metric c now (P_Memory
             \<lparr>mem_total_bytes = vm_total v, mem_used_bytes = vm_used v, mem_available_bytes = vm_available v,
              mem_usage_percent = vm_used_percent v, mem_swap_total_bytes = sw_total s,
              mem_swap_used_bytes = sw_used s, mem_swap_free_bytes = sw_free s,
              mem_swap_percent = sw_used_percent s, mem_cached = vm_cached v, mem_buffers = vm_buffers v\<rparr>))))"

section \<open>Disk\<close>

record disk_usage =
  us_total :: "64 word"
  us_used :: "64 word"
  us_free :: "64 word"
  us_used_percent :: f64
  us_inodes_total :: "64 word"
  us_inodes_used :: "64 word"
  us_inodes_free :: "64 word"
  us_inodes_percent :: f64

record io_counters =
  io_read_bytes :: "64 word"
  io_write_bytes :: "64 word"
  io_read_count :: "64 word"
  io_write_count :: "64 word"
  io_read_time :: "64 word"
  io_write_time :: "64 word"

record partition_stat =
  ps_device :: string
  ps_mountpoint :: string
  ps_fstype :: string

definition new_disk_collector :: filtered_collector where
  "new_disk_collector = new_filtered ''Disk''"

definition disk_default_config :: "filtered_collector \<Rightarrow> collector_config" where
  "disk_default_config c = (base_default_config c)\<lparr>cc_interval := 30 * second\<rparr>"

definition configure_disk :: "collector_config \<Rightarrow> filtered_collector \<Rightarrow> filtered_collector" where
  "configure_disk cfg c = (configure_base cfg c)\<lparr>co_include := cc_disks cfg\<rparr>"

definition disk_should_include :: "filtered_collector \<Rightarrow> string \<Rightarrow> string \<Rightarrow> bool" where
  "disk_should_include c device mountpoint = list_ex (\<lambda>d. d = device \<or> d = mountpoint) (co_include c)"

definition pseudo_fs :: "string list" where
  "pseudo_fs =
     [''sysfs'', ''proc'', ''devtmpfs'', ''devpts'', ''tmpfs'', ''securityfs'', ''cgroup'', ''cgroup2'', ''pstore'',
      ''debugfs'', ''hugetlbfs'', ''mqueue'', ''fusectl'', ''configfs'', ''autofs'', ''binfmt_misc'', ''fuse.gvfsd-fuse'',
      ''overlay'', ''squashfs'', ''cdfs'', ''udf'']"

definition is_pseudo_fs :: "string \<Rightarrow> bool" where
  "is_pseudo_fs fstype = list_ex (\<lambda>p. to_lower fstype = p) pseudo_fs"

definition should_skip_partition :: "64 word \<Rightarrow> bool" where
  "should_skip_partition bytes = (bytes = 0)"

definition get_device_name :: "string \<Rightarrow> string" where
  "get_device_name device = last (split_on CHR ''/'' device)"

definition disk_row ::
  "(string \<Rightarrow> disk_usage option) \<Rightarrow> (string \<Rightarrow> io_counters option) option \<Rightarrow> filtered_collector \<Rightarrow>
     partition_stat \<Rightarrow> disk_partition list" where
  "disk_row usage_of io c p =
     (if co_include c \<noteq> [] \<and> \<not> disk_should_include c (ps_device p) (ps_mountpoint p) then []
      else if is_pseudo_fs (ps_fstype p) then []
      else case usage_of (ps_mountpoint p) of
        None \<Rightarrow> []
      | Some u \<Rightarrow>
          if should_skip_partition (us_total u) then []
          else
            (let d = \<lparr>dp_device = ps_device p, dp_mountpoint = ps_mountpoint p, dp_fs_type = ps_fstype p,
                   dp_total_bytes = us_total u, dp_used_bytes = us_used u, dp_free_bytes = us_free u,
                   dp_usage_percent = us_used_percent u, dp_inodes_total = us_inodes_total u,
                   dp_inodes_used = us_inodes_used u, dp_inodes_free = us_inodes_free u,
                   dp_inodes_percent = us_inodes_percent u, dp_read_bytes = 0, dp_write_bytes = 0,
                   dp_read_count = 0, dp_write_count = 0, dp_read_time = 0, dp_write_time = 0\<rparr>
             in case io of
                  None \<Rightarrow> [d]
                | Some counters \<Rightarrow>
                    (case counters (get_device_name (ps_device p)) of
                       None \<Rightarrow> [d]
                     | Some i \<Rightarrow>
                         [d\<lparr>dp_read_bytes := io_read_bytes i, dp_write_bytes := io_write_bytes i,
                            dp_read_count := io_read_count i, dp_write_count := io_write_count i,
                            dp_read_time := io_read_time i, dp_write_time := io_write_time i\<rparr>])))"

definition collect_disk ::
  "partition_stat list option \<Rightarrow> (string \<Rightarrow> disk_usage option) \<Rightarrow> (string \<Rightarrow> io_counters option) option \<Rightarrow>
     gotime \<Rightarrow> filtered_collector \<Rightarrow> collect_error + metric_data" where
  "collect_disk partitions usage_of io now c =
     (case partitions of
        None \<Rightarrow> Inl Probe_Failed
      | Some ps \<Rightarrow> Inr (make_metric c now (P_Disk \<lparr>disk_partitions = concat (map (disk_row usage_of io c) ps)\<rparr>)))"

section \<open>Uptime and the agent itself\<close>

definition new_uptime_collector :: base_collector where
  "new_uptime_collector = new_base_collector ''Uptime''"

text \<open>\<open>time.Unix(boot, 0)\<close> in the zone of the machine.\<close>

definition collect_uptime :: "64 word option \<Rightarrow> int \<Rightarrow> gotime \<Rightarrow> 'a base_collector_scheme \<Rightarrow> collect_error + metric_data" where
  "collect_uptime boot zone now c =
     (case boot of
        None \<Rightarrow> Inl Probe_Failed
      | Some b \<Rightarrow>
          (let boot_time = \<lparr>unix_nanos = sint b * 1000000000, zone_offset = zone\<rparr> in
           Inr (make_metric c now (P_Uptime
             \<lparr>up_boot_time_unix = sint b,
              up_boot_time_str = format_layout CHR ''T'' (civil_of boot_time),
              up_uptime_minutes = duration_minutes (sub_time now boot_time)\<rparr>))))"

definition new_self_metrics_collector :: base_collector where
  "new_self_metrics_collector = set_interval (60 * second) (new_base_collector ''SelfMetrics'')"

definition self_metrics_default_config :: "base_collector \<Rightarrow> collector_config" where
  "self_metrics_default_config c = (base_default_config c)\<lparr>cc_interval := 60 * second\<rparr>"

record runtime_stats =
  rt_goroutines :: int
  rt_alloc :: "64 word"
  rt_sys :: "64 word"
  rt_rss :: "64 word"
  rt_handles :: "32 word"

definition collect_self_metrics ::
  "runtime_stats \<Rightarrow> (int \<times> int \<times> int) option \<Rightarrow> gotime \<Rightarrow> base_collector \<Rightarrow> metric_data" where
  "collect_self_metrics st bs now c =
     (let (cnt, dropped, _) = (case bs of Some x \<Rightarrow> x | None \<Rightarrow> (0, 0, 0)) in
      make_metric c now (P_SelfMetrics
        \<lparr>sm_goroutine_count = rt_goroutines st, sm_rss_bytes = rt_rss st, sm_heap_alloc_bytes = rt_alloc st,
         sm_heap_sys_bytes = rt_sys st, sm_handle_count = rt_handles st, sm_buffer_count = cnt,
         sm_buffer_dropped_total = dropped\<rparr>))"

section \<open>The probes of the running agent\<close>

text \<open>
  \<open>defaultRuntimeStats\<close>.  The counts of the Go runtime, the memory the library reports, the entries of
  \<open>/proc/self/fd\<close> and the answer of \<open>GetProcessHandleCount\<close> are parameters; a probe gives its value and
  whether it reports an error.
\<close>

text \<open>Linux: the names in the directory, \<open>None\<close> when it cannot be opened or read.\<close>

definition handle_count_linux :: "string list option \<Rightarrow> 32 word \<times> bool" where
  "handle_count_linux names =
     (case names of
        None \<Rightarrow> (0, True)
      | Some ns \<Rightarrow> (let n = length ns in if n > 0 then (word_of_nat (n - 1), False) else (0, False)))"

text \<open>Windows: the result of the call, the number it stored and the error number of the system.\<close>

definition handle_count_windows :: "64 word \<Rightarrow> 32 word \<Rightarrow> 64 word \<Rightarrow> 32 word \<times> bool" where
  "handle_count_windows r1 n errno = (if r1 = 0 then (if errno \<noteq> 0 then (0, True) else (0, False)) else (n, False))"

definition handle_count_other :: "32 word \<times> bool" where
  "handle_count_other = (0, False)"

text \<open>The process is missing when its handle could not be made; the memory info is missing on an error or when nil.\<close>

datatype memory_probe = No_Process | Memory_Failed bool | Memory_Info "64 word"

definition process_rss_bytes :: "memory_probe \<Rightarrow> 64 word \<times> bool" where
  "process_rss_bytes m =
     (case m of No_Process \<Rightarrow> (0, False) | Memory_Failed err \<Rightarrow> (0, err) | Memory_Info rss \<Rightarrow> (rss, False))"

definition default_runtime_stats :: "int \<Rightarrow> 64 word \<Rightarrow> 64 word \<Rightarrow> memory_probe \<Rightarrow> 32 word \<times> bool \<Rightarrow> runtime_stats" where
  "default_runtime_stats goroutines alloc sys mem handles =
     \<lparr>rt_goroutines = goroutines, rt_alloc = alloc, rt_sys = sys, rt_rss = fst (process_rss_bytes mem),
      rt_handles = fst handles\<rparr>"

text \<open>A probe that fails shows as zero and takes nothing from the others; the directory of descriptors is not
  counted among them.\<close>

lemma self_metrics_of_probes:
  "md_data (collect_self_metrics (default_runtime_stats g a s mem handles) bs now c) = P_SelfMetrics d \<Longrightarrow>
     sm_goroutine_count d = g \<and> sm_heap_alloc_bytes d = a \<and> sm_heap_sys_bytes d = s \<and>
     (snd (process_rss_bytes mem) \<longrightarrow> sm_rss_bytes d = 0) \<and> sm_handle_count d = fst handles"
  by (auto simp: collect_self_metrics_def default_runtime_stats_def make_metric_def process_rss_bytes_def
      split: prod.splits memory_probe.splits if_splits)

lemma failed_handle_count_is_zero:
  "snd (handle_count_linux names) \<Longrightarrow> fst (handle_count_linux names) = 0"
  "snd (handle_count_windows r1 n errno) \<Longrightarrow> fst (handle_count_windows r1 n errno) = 0"
  by (auto simp: handle_count_linux_def handle_count_windows_def Let_def split: option.splits if_splits)

lemma fd_count_exact:
  "length names < 2 ^ 32 \<Longrightarrow> unat (fst (handle_count_linux (Some names))) = length names - 1"
  by (auto simp: handle_count_linux_def unat_of_nat take_bit_nat_eq_self_iff Let_def)

end
