(* ===== verification/StorageHealth.thy ===== *)
theory StorageHealth
  imports Float64
begin

text \<open>
  \<open>internal/collector/storage_health.go\<close>: the status texts of WMI and \<open>smartctl\<close> are reduced to five
  levels, and a level to the number sent downstream.  The abstract view is the datatype
  \<open>health\<close>, ordered by severity.
\<close>

section \<open>Status texts\<close>

definition fail_tokens :: "string list" where
  "fail_tokens = [''FAIL'', ''ERROR'', ''NONRECOVER'', ''LOST COMM'', ''NO CONTACT'']"

definition normalize_health_status :: "string \<Rightarrow> string" where
  "normalize_health_status raw =
     (let upper = to_upper (trim_space raw) in
      if upper = ''OK'' \<or> upper = ''PASSED'' then ''OK''
      else if upper = ''DEGRADED'' \<or> upper = ''STRESSED'' then ''DEGRADED''
      else if upper = ''PRED FAIL'' then ''PRED_FAIL''
      else if upper = '''' then ''UNKNOWN''
      else if list_ex (contains upper) fail_tokens then ''FAIL''
      else ''UNKNOWN'')"

definition health_status_value :: "string \<Rightarrow> f64" where
  "health_status_value status =
     (if status = ''OK'' then f64_of_int 0
      else if status = ''DEGRADED'' then f64_of_int 1
      else if status = ''PRED_FAIL'' then f64_of_int 2
      else if status = ''FAIL'' then f64_of_int 3
      else f64_of_int (- 1))"

section \<open>The five levels\<close>

datatype health = Unknown | Healthy | Degraded | PredFail | Failed

fun severity :: "health \<Rightarrow> int" where
  "severity Unknown = - 1"
| "severity Healthy = 0"
| "severity Degraded = 1"
| "severity PredFail = 2"
| "severity Failed = 3"

instantiation health :: linorder
begin

definition less_eq_health :: "health \<Rightarrow> health \<Rightarrow> bool" where
  "less_eq_health a b = (severity a \<le> severity b)"

definition less_health :: "health \<Rightarrow> health \<Rightarrow> bool" where
  "less_health a b = (severity a < severity b)"

instance
proof
  fix a b :: health
  assume "a \<le> b" "b \<le> a"
  then show "a = b" by (cases a; cases b) (auto simp: less_eq_health_def)
qed (auto simp: less_eq_health_def less_health_def)

end

definition health_of_status :: "string \<Rightarrow> health" where
  "health_of_status s =
     (if s = ''OK'' then Healthy else if s = ''DEGRADED'' then Degraded
      else if s = ''PRED_FAIL'' then PredFail else if s = ''FAIL'' then Failed else Unknown)"

lemma health_status_value_severity:
  "health_status_value s = f64_of_int (severity (health_of_status s))"
  by (auto simp: health_status_value_def health_of_status_def)

lemma normalize_range:
  "normalize_health_status raw \<in> {''OK'', ''DEGRADED'', ''PRED_FAIL'', ''FAIL'', ''UNKNOWN''}"
  by (auto simp: normalize_health_status_def Let_def)

lemma f64_of_int_less_iff:
  assumes "\<bar>i\<bar> \<le> 2 ^ 53" "\<bar>j\<bar> \<le> 2 ^ 53"
  shows "f64_less (f64_of_int i) (f64_of_int j) \<longleftrightarrow> i < j"
  using assms by (simp add: f64_of_int_exact f64_val_def)

lemma severity_small: "\<bar>severity h\<bar> \<le> 2 ^ 53"
  by (cases h) auto

text \<open>The numbers sent downstream order the levels as their severity does.\<close>

lemma health_value_mono:
  "f64_less (health_status_value s) (health_status_value t) \<longleftrightarrow> health_of_status s < health_of_status t"
  unfolding health_status_value_severity less_health_def
  by (rule f64_of_int_less_iff [OF severity_small severity_small])

section \<open>Properties\<close>

text \<open>The number sent for a disk orders the statuses as their severity does: whatever a platform
  reports is normalised to one of five statuses, and of two of them the worse one always gets the
  larger number.\<close>

theorem health_values_ordered:
  "normalize_health_status raw \<in> {''OK'', ''DEGRADED'', ''PRED_FAIL'', ''FAIL'', ''UNKNOWN''} \<and>
   f64_less (health_status_value (normalize_health_status raw)) (health_status_value (normalize_health_status raw')) =
     (health_of_status (normalize_health_status raw) < health_of_status (normalize_health_status raw'))"
  using normalize_range [of raw] health_value_mono by blast

end
