(* ===== verification/Sensors.thy ===== *)
theory Sensors
  imports Collector StorageHealth
begin

text \<open>
  The sensor collectors of \<open>internal/collector\<close> (temperature, fan, GPU, voltage, motherboard temperature,
  SMART values, storage health).  On Windows their readings come from the shared helper, whose data is
  the record \<open>lhm_data\<close>; a collector keeps those its configuration names, copies them field by field
  into its own structs and turns a failure into an empty reading.
\<close>

section \<open>Readings of the helper\<close>

record lhm_sensor =
  ln_name :: string
  ln_temperature :: f64
  ln_high :: f64
  ln_critical :: f64

record lhm_fan =
  lf_name :: string
  lf_rpm :: f64

record lhm_gpu =
  lg_name :: string
  lg_temperature :: "f64 option"
  lg_core_load :: "f64 option"
  lg_memory_load :: "f64 option"
  lg_fan_speed :: "f64 option"
  lg_power :: "f64 option"
  lg_core_clock :: "f64 option"
  lg_memory_clock :: "f64 option"

record lhm_storage =
  lt_name :: string
  lt_type :: string
  lt_temperature :: "f64 option"
  lt_remaining_life :: "f64 option"
  lt_media_errors :: "int option"
  lt_power_cycles :: "int option"
  lt_unsafe_shutdowns :: "int option"
  lt_power_on_hours :: "int option"
  lt_total_bytes_written :: "int option"

record lhm_voltage =
  lv_name :: string
  lv_voltage :: f64

record lhm_motherboard_temp =
  lm_name :: string
  lm_temperature :: f64

record lhm_data =
  lhm_sensors :: "lhm_sensor list"
  lhm_fans :: "lhm_fan list"
  lhm_gpus :: "lhm_gpu list"
  lhm_storages :: "lhm_storage list"
  lhm_voltages :: "lhm_voltage list"
  lhm_motherboard_temps :: "lhm_motherboard_temp list"
  lhm_error :: string

text \<open>The filters: by sanitized name for the sensors, by exact name for drives.\<close>

definition sanitized_member :: "string list \<Rightarrow> string \<Rightarrow> bool" where
  "sanitized_member names key = list_ex (\<lambda>n. sanitize_name n = sanitize_name key) names"

definition exact_member :: "string list \<Rightarrow> string \<Rightarrow> bool" where
  "exact_member names key = list_ex (\<lambda>n. n = key) names"

text \<open>The loops of the Windows code: entries that are not wanted are skipped, the others copied.\<close>

fun copy_wanted :: "('a \<Rightarrow> bool) \<Rightarrow> ('a \<Rightarrow> 'b) \<Rightarrow> 'a list \<Rightarrow> 'b list" where
  "copy_wanted skip f [] = []"
| "copy_wanted skip f (x # xs) = (if skip x then copy_wanted skip f xs else f x # copy_wanted skip f xs)"

lemma copy_wanted_eq: "copy_wanted skip f xs = map f (filter (\<lambda>x. \<not> skip x) xs)"
  by (induction xs) auto

text \<open>A result of the platform code: an error or the readings, a nil slice being no reading.\<close>

definition readings :: "'a list option \<Rightarrow> 'a list" where
  "readings r = (case r of None \<Rightarrow> [] | Some xs \<Rightarrow> xs)"

section \<open>Temperature\<close>

definition new_temperature_collector :: filtered_collector where
  "new_temperature_collector = new_filtered ''Temperature''"

definition temperature_default_config :: "filtered_collector \<Rightarrow> collector_config" where
  "temperature_default_config c = (base_default_config c)\<lparr>cc_interval := 30 * second\<rparr>"

definition configure_temperature :: "collector_config \<Rightarrow> filtered_collector \<Rightarrow> filtered_collector" where
  "configure_temperature cfg c = (configure_base cfg c)\<lparr>co_include := cc_include_zones cfg\<rparr>"

definition temperature_should_include :: "filtered_collector \<Rightarrow> string \<Rightarrow> bool" where
  "temperature_should_include c key = sanitized_member (co_include c) key"

definition collect_temperature_windows :: "lhm_data option \<Rightarrow> filtered_collector \<Rightarrow> temperature_sensor list option" where
  "collect_temperature_windows data c =
     map_option (\<lambda>d. copy_wanted (\<lambda>s. co_include c \<noteq> [] \<and> \<not> temperature_should_include c (ln_name s))
       (\<lambda>s. \<lparr>ts_name = ln_name s, ts_temperature = ln_temperature s, ts_high = ln_high s,
           ts_critical = ln_critical s\<rparr>) (lhm_sensors d)) data"

definition collect_temperature :: "temperature_sensor list option \<Rightarrow> gotime \<Rightarrow> filtered_collector \<Rightarrow> metric_data" where
  "collect_temperature result now c = make_metric c now (P_Temperature \<lparr>temp_sensors = readings result\<rparr>)"

text \<open>On Linux: gopsutil's sensors, without readings that are not in \<open>(0, 200]\<close>; a failure is no reading.\<close>

definition collect_temperature_unix :: "temperature_sensor list option \<Rightarrow> filtered_collector \<Rightarrow> temperature_sensor list option" where
  "collect_temperature_unix temps c =
     Some (case temps of
       None \<Rightarrow> []
     | Some ts \<Rightarrow> filter (\<lambda>t. \<not> (co_include c \<noteq> [] \<and> \<not> temperature_should_include c (ts_name t)) \<and>
         \<not> (f64_le (ts_temperature t) f64_zero \<or> f64_less (f64_of_int 200) (ts_temperature t))) ts)"

section \<open>Fan\<close>

definition new_fan_collector :: filtered_collector where
  "new_fan_collector = new_filtered ''Fan''"

definition fan_default_config :: "filtered_collector \<Rightarrow> collector_config" where
  "fan_default_config c = (base_default_config c)\<lparr>cc_interval := 30 * second\<rparr>"

definition configure_fan :: "collector_config \<Rightarrow> filtered_collector \<Rightarrow> filtered_collector" where
  "configure_fan cfg c = (configure_base cfg c)\<lparr>co_include := cc_include_zones cfg\<rparr>"

definition fan_should_include :: "filtered_collector \<Rightarrow> string \<Rightarrow> bool" where
  "fan_should_include c key = sanitized_member (co_include c) key"

definition collect_fan_windows :: "lhm_data option \<Rightarrow> filtered_collector \<Rightarrow> fan_sensor list option" where
  "collect_fan_windows data c =
     map_option (\<lambda>d. copy_wanted (\<lambda>s. co_include c \<noteq> [] \<and> \<not> fan_should_include c (lf_name s))
       (\<lambda>s. \<lparr>fs_name = lf_name s, fs_rpm = lf_rpm s\<rparr>) (lhm_fans d)) data"

definition collect_fan :: "fan_sensor list option \<Rightarrow> gotime \<Rightarrow> filtered_collector \<Rightarrow> metric_data" where
  "collect_fan result now c = make_metric c now (P_Fan \<lparr>fan_sensors = readings result\<rparr>)"

section \<open>GPU\<close>

definition new_gpu_collector :: filtered_collector where
  "new_gpu_collector = new_filtered ''GPU''"

definition gpu_default_config :: "filtered_collector \<Rightarrow> collector_config" where
  "gpu_default_config c = (base_default_config c)\<lparr>cc_interval := 30 * second\<rparr>"

definition configure_gpu :: "collector_config \<Rightarrow> filtered_collector \<Rightarrow> filtered_collector" where
  "configure_gpu cfg c = (configure_base cfg c)\<lparr>co_include := cc_include_zones cfg\<rparr>"

definition gpu_should_include :: "filtered_collector \<Rightarrow> string \<Rightarrow> bool" where
  "gpu_should_include c key = sanitized_member (co_include c) key"

definition collect_gpu_windows :: "lhm_data option \<Rightarrow> filtered_collector \<Rightarrow> gpu_sensor list option" where
  "collect_gpu_windows data c =
     map_option (\<lambda>d. copy_wanted (\<lambda>s. co_include c \<noteq> [] \<and> \<not> gpu_should_include c (lg_name s))
       (\<lambda>s. \<lparr>gs_name = lg_name s, gs_temperature = lg_temperature s, gs_core_load = lg_core_load s,
           gs_memory_load = lg_memory_load s, gs_fan_speed = lg_fan_speed s, gs_power = lg_power s,
           gs_core_clock = lg_core_clock s, gs_memory_clock = lg_memory_clock s\<rparr>) (lhm_gpus d)) data"

text \<open>Other systems have no readings.\<close>

definition collect_gpu_unix :: "filtered_collector \<Rightarrow> gpu_sensor list option" where
  "collect_gpu_unix c = Some []"

definition collect_gpu :: "gpu_sensor list option \<Rightarrow> gotime \<Rightarrow> filtered_collector \<Rightarrow> metric_data" where
  "collect_gpu result now c = make_metric c now (P_GPU \<lparr>gpu_gpus = readings result\<rparr>)"

section \<open>Voltage\<close>

definition new_voltage_collector :: filtered_collector where
  "new_voltage_collector = new_filtered ''Voltage''"

definition voltage_default_config :: "filtered_collector \<Rightarrow> collector_config" where
  "voltage_default_config c = (base_default_config c)\<lparr>cc_interval := 30 * second\<rparr>"

definition configure_voltage :: "collector_config \<Rightarrow> filtered_collector \<Rightarrow> filtered_collector" where
  "configure_voltage cfg c = (configure_base cfg c)\<lparr>co_include := cc_include_zones cfg\<rparr>"

definition voltage_should_include :: "filtered_collector \<Rightarrow> string \<Rightarrow> bool" where
  "voltage_should_include c key = sanitized_member (co_include c) key"

definition collect_voltage_windows :: "lhm_data option \<Rightarrow> filtered_collector \<Rightarrow> voltage_sensor list option" where
  "collect_voltage_windows data c =
     map_option (\<lambda>d. copy_wanted (\<lambda>s. co_include c \<noteq> [] \<and> \<not> voltage_should_include c (lv_name s))
       (\<lambda>s. \<lparr>vs_name = lv_name s, vs_voltage = lv_voltage s\<rparr>) (lhm_voltages d)) data"

text \<open>Other systems have no readings.\<close>

definition collect_voltage_unix :: "filtered_collector \<Rightarrow> voltage_sensor list option" where
  "collect_voltage_unix c = Some []"

definition collect_voltage :: "voltage_sensor list option \<Rightarrow> gotime \<Rightarrow> filtered_collector \<Rightarrow> metric_data" where
  "collect_voltage result now c = make_metric c now (P_Voltage \<lparr>volt_sensors = readings result\<rparr>)"

section \<open>MotherboardTemp\<close>

definition new_motherboard_temp_collector :: filtered_collector where
  "new_motherboard_temp_collector = new_filtered ''MotherboardTemp''"

definition motherboard_temp_default_config :: "filtered_collector \<Rightarrow> collector_config" where
  "motherboard_temp_default_config c = (base_default_config c)\<lparr>cc_interval := 30 * second\<rparr>"

definition configure_motherboard_temp :: "collector_config \<Rightarrow> filtered_collector \<Rightarrow> filtered_collector" where
  "configure_motherboard_temp cfg c = (configure_base cfg c)\<lparr>co_include := cc_include_zones cfg\<rparr>"

definition motherboard_temp_should_include :: "filtered_collector \<Rightarrow> string \<Rightarrow> bool" where
  "motherboard_temp_should_include c key = sanitized_member (co_include c) key"

definition collect_motherboard_temp_windows :: "lhm_data option \<Rightarrow> filtered_collector \<Rightarrow> motherboard_temp_sensor list option" where
  "collect_motherboard_temp_windows data c =
     map_option (\<lambda>d. copy_wanted (\<lambda>s. co_include c \<noteq> [] \<and> \<not> motherboard_temp_should_include c (lm_name s))
       (\<lambda>s. \<lparr>ms_name = lm_name s, ms_temperature = lm_temperature s\<rparr>) (lhm_motherboard_temps d)) data"

text \<open>Other systems have no readings.\<close>

definition collect_motherboard_temp_unix :: "filtered_collector \<Rightarrow> motherboard_temp_sensor list option" where
  "collect_motherboard_temp_unix c = Some []"

definition collect_motherboard_temp :: "motherboard_temp_sensor list option \<Rightarrow> gotime \<Rightarrow> filtered_collector \<Rightarrow> metric_data" where
  "collect_motherboard_temp result now c = make_metric c now (P_MotherboardTemp \<lparr>mbt_sensors = readings result\<rparr>)"

section \<open>StorageSmart\<close>

definition new_storage_smart_collector :: filtered_collector where
  "new_storage_smart_collector = new_filtered ''StorageSmart''"

definition storage_smart_default_config :: "filtered_collector \<Rightarrow> collector_config" where
  "storage_smart_default_config c = (base_default_config c)\<lparr>cc_interval := 60 * second\<rparr>"

definition configure_storage_smart :: "collector_config \<Rightarrow> filtered_collector \<Rightarrow> filtered_collector" where
  "configure_storage_smart cfg c = (configure_base cfg c)\<lparr>co_include := cc_disks cfg\<rparr>"

definition storage_smart_should_include :: "filtered_collector \<Rightarrow> string \<Rightarrow> bool" where
  "storage_smart_should_include c key = exact_member (co_include c) key"

definition collect_storage_smart_windows :: "lhm_data option \<Rightarrow> filtered_collector \<Rightarrow> storage_smart_sensor list option" where
  "collect_storage_smart_windows data c =
     map_option (\<lambda>d. copy_wanted (\<lambda>s. co_include c \<noteq> [] \<and> \<not> storage_smart_should_include c (lt_name s))
       (\<lambda>s. \<lparr>ss_name = lt_name s, ss_type = lt_type s, ss_temperature = lt_temperature s,
           ss_remaining_life = lt_remaining_life s, ss_media_errors = lt_media_errors s,
           ss_power_cycles = lt_power_cycles s, ss_unsafe_shutdowns = lt_unsafe_shutdowns s,
           ss_power_on_hours = lt_power_on_hours s, ss_total_bytes_written = lt_total_bytes_written s\<rparr>) (lhm_storages d)) data"

text \<open>Other systems have no readings.\<close>

definition collect_storage_smart_unix :: "filtered_collector \<Rightarrow> storage_smart_sensor list option" where
  "collect_storage_smart_unix c = Some []"

definition collect_storage_smart :: "storage_smart_sensor list option \<Rightarrow> gotime \<Rightarrow> filtered_collector \<Rightarrow> metric_data" where
  "collect_storage_smart result now c = make_metric c now (P_StorageSmart \<lparr>smart_storages = readings result\<rparr>)"

section \<open>StorageHealth\<close>

definition new_storage_health_collector :: filtered_collector where
  "new_storage_health_collector = new_filtered ''StorageHealth''"

definition storage_health_default_config :: "filtered_collector \<Rightarrow> collector_config" where
  "storage_health_default_config c = (base_default_config c)\<lparr>cc_interval := 300 * second\<rparr>"

definition configure_storage_health :: "collector_config \<Rightarrow> filtered_collector \<Rightarrow> filtered_collector" where
  "configure_storage_health cfg c = (configure_base cfg c)\<lparr>co_include := cc_disks cfg\<rparr>"

definition storage_health_should_include :: "filtered_collector \<Rightarrow> string \<Rightarrow> bool" where
  "storage_health_should_include c key = exact_member (co_include c) key"

definition collect_storage_health :: "storage_health_disk list option \<Rightarrow> gotime \<Rightarrow> filtered_collector \<Rightarrow> metric_data" where
  "collect_storage_health result now c = make_metric c now (P_StorageHealth \<lparr>sh_disks = readings result\<rparr>)"

section \<open>Filtering\<close>

text \<open>An empty list of names keeps every sensor; otherwise exactly the named ones stay, in the helper's order.\<close>

lemmas copy_defs =
  collect_temperature_windows_def collect_fan_windows_def collect_gpu_windows_def collect_voltage_windows_def
  collect_motherboard_temp_windows_def collect_storage_smart_windows_def temperature_should_include_def
  fan_should_include_def gpu_should_include_def voltage_should_include_def motherboard_temp_should_include_def
  storage_smart_should_include_def copy_wanted_eq

definition wanted_sensor :: "filtered_collector \<Rightarrow> string \<Rightarrow> bool" where
  "wanted_sensor c name = (co_include c = [] \<or> (\<exists>n \<in> set (co_include c). sanitize_name n = sanitize_name name))"

lemma sanitized_member_wanted:
  "(\<not> (co_include c \<noteq> [] \<and> \<not> sanitized_member (co_include c) name)) = wanted_sensor c name"
  by (auto simp: wanted_sensor_def sanitized_member_def list_ex_iff)

lemma collect_windows_names:
  "map ts_name (readings (collect_temperature_windows (Some d) c)) = filter (wanted_sensor c) (map ln_name (lhm_sensors d))"
  "map fs_name (readings (collect_fan_windows (Some d) c)) = filter (wanted_sensor c) (map lf_name (lhm_fans d))"
  "map gs_name (readings (collect_gpu_windows (Some d) c)) = filter (wanted_sensor c) (map lg_name (lhm_gpus d))"
  "map vs_name (readings (collect_voltage_windows (Some d) c)) = filter (wanted_sensor c) (map lv_name (lhm_voltages d))"
  "map ms_name (readings (collect_motherboard_temp_windows (Some d) c)) =
     filter (wanted_sensor c) (map lm_name (lhm_motherboard_temps d))"
  by (simp_all add: copy_defs readings_def filter_map o_def sanitized_member_wanted del: not_all de_Morgan_conj imp_conjL)

end
