(* ===== verification/TopN.thy ===== *)
theory TopN
  imports Float64 "HOL-Library.Multiset"
begin

text \<open>
  The binary heap of \<open>container/heap\<close>, as the process collectors use it to keep the top consumers, and
  the contract of the comparison, the locale \<open>strict_weak\<close>.  A heap is a list, element \<open>k\<close> the child of
  element \<open>(k - 1) div 2\<close>; the operations are those of the library, index by index.
\<close>

section \<open>Operations\<close>

definition swap_at :: "'a list \<Rightarrow> nat \<Rightarrow> nat \<Rightarrow> 'a list" where
  "swap_at h i j = h[i := h ! j, j := h ! i]"

definition parent :: "nat \<Rightarrow> nat" where
  "parent j = (j - 1) div 2"

lemma parent_le [simp]: "0 < k \<Longrightarrow> parent k < k" and parent_0 [simp]: "parent 0 = 0"
  by (auto simp: parent_def)

lemma parent_fixed [simp]: "parent k = k \<longleftrightarrow> k = 0"
  by (cases k) (auto simp: parent_def)

function heap_up :: "('a \<Rightarrow> 'a \<Rightarrow> bool) \<Rightarrow> 'a list \<Rightarrow> nat \<Rightarrow> 'a list" where
  "heap_up lt h j =
     (if parent j = j \<or> \<not> lt (h ! j) (h ! parent j) then h
      else heap_up lt (swap_at h (parent j) j) (parent j))"
  by pat_completeness auto
termination
  by (relation "measure (\<lambda>(_, _, j). j)") (auto simp: parent_def)

declare heap_up.simps [simp del]

definition lesser_child :: "('a \<Rightarrow> 'a \<Rightarrow> bool) \<Rightarrow> 'a list \<Rightarrow> nat \<Rightarrow> nat \<Rightarrow> nat" where
  "lesser_child lt h i n =
     (let j1 = 2 * i + 1 in if j1 + 1 < n \<and> lt (h ! (j1 + 1)) (h ! j1) then j1 + 1 else j1)"

text \<open>\<open>down\<close> gives the heap and the index where it stopped; it has moved when that is beyond the start.\<close>

function heap_down :: "('a \<Rightarrow> 'a \<Rightarrow> bool) \<Rightarrow> 'a list \<Rightarrow> nat \<Rightarrow> nat \<Rightarrow> 'a list \<times> nat" where
  "heap_down lt h i n =
     (if 2 * i + 1 \<ge> n then (h, i)
      else let j = lesser_child lt h i n in
        if \<not> lt (h ! j) (h ! i) then (h, i) else heap_down lt (swap_at h i j) j n)"
  by pat_completeness auto
termination
  by (relation "measure (\<lambda>(_, _, i, n). n - i)") (auto simp: lesser_child_def Let_def)

declare heap_down.simps [simp del]

definition heap_push :: "('a \<Rightarrow> 'a \<Rightarrow> bool) \<Rightarrow> 'a list \<Rightarrow> 'a \<Rightarrow> 'a list" where
  "heap_push lt h x = heap_up lt (h @ [x]) (length h)"

definition heap_pop :: "('a \<Rightarrow> 'a \<Rightarrow> bool) \<Rightarrow> 'a list \<Rightarrow> 'a \<times> 'a list" where
  "heap_pop lt h =
     (let n = length h - 1; h2 = fst (heap_down lt (swap_at h 0 n) 0 n) in (h2 ! n, take n h2))"

definition heap_fix :: "('a \<Rightarrow> 'a \<Rightarrow> bool) \<Rightarrow> 'a list \<Rightarrow> nat \<Rightarrow> 'a list" where
  "heap_fix lt h i =
     (let (h', i') = heap_down lt h i (length h) in if i' > i then h' else heap_up lt h' i)"

text \<open>Popping everything, the smallest last: the loop that fills \<open>heapItems\<close> from the end.\<close>

function heap_drain :: "('a \<Rightarrow> 'a \<Rightarrow> bool) \<Rightarrow> 'a list \<Rightarrow> 'a list \<Rightarrow> 'a list" where
  "heap_drain lt h acc =
     (if h = [] then acc else let (x, h') = heap_pop lt h in heap_drain lt h' (x # acc))"
  by pat_completeness auto
termination
  by (relation "measure (\<lambda>(_, h, _). length h)")
    (auto simp: heap_pop_def Let_def min_less_iff_disj intro: diff_less)

declare heap_drain.simps [simp del]

text \<open>What the first pass does with a process that is not watched, and with one that may be.\<close>

definition select_heap :: "('a \<Rightarrow> 'a \<Rightarrow> bool) \<Rightarrow> int \<Rightarrow> 'a list \<Rightarrow> 'a \<Rightarrow> 'a list" where
  "select_heap lt remaining h q =
     (if remaining \<le> 0 then h
      else if int (length h) < remaining then heap_push lt h q
      else if lt (h ! 0) q then heap_fix lt (h[0 := q]) 0
      else h)"

definition select_step ::
  "('a \<Rightarrow> 'a \<Rightarrow> bool) \<Rightarrow> ('a \<Rightarrow> bool) \<Rightarrow> int \<Rightarrow> 'a \<Rightarrow> 'a list \<times> 'a list \<Rightarrow> 'a list \<times> 'a list" where
  "select_step lt watched top_n q s =
     (if watched q then (fst s @ [q], snd s)
      else (fst s, select_heap lt (top_n - int (length (fst s))) (snd s) q))"

section \<open>Structure\<close>

lemma swap_at_simps [simp]:
  "length (swap_at h i j) = length h"
  "i < length h \<Longrightarrow> j < length h \<Longrightarrow> mset (swap_at h i j) = mset h"
  by (simp_all add: swap_at_def mset_swap)

lemma swap_at_nth:
  "i < length h \<Longrightarrow> j < length h \<Longrightarrow>
     swap_at h i j ! k = (if k = i then h ! j else if k = j then h ! i else h ! k)"
  by (auto simp: swap_at_def nth_list_update)

lemma lesser_child_cases: "lesser_child lt h i n = 2 * i + 1 \<or> lesser_child lt h i n = 2 * i + 2"
  by (auto simp: lesser_child_def Let_def)

lemma lesser_child_bound: "Suc (2 * i) < n \<Longrightarrow> lesser_child lt h i n < n"
  by (auto simp: lesser_child_def Let_def)

lemma parent_lesser_child: "parent (lesser_child lt h i n) = i"
  using lesser_child_cases [of lt h i n] by (auto simp: parent_def)

lemma parent_eq_child: "0 < k \<Longrightarrow> parent k = i \<longleftrightarrow> k = 2 * i + 1 \<or> k = 2 * i + 2"
  by (auto simp: parent_def)

lemma heap_up_mset: "j < length h \<Longrightarrow> mset (heap_up lt h j) = mset h \<and> length (heap_up lt h j) = length h"
proof (induction lt h j rule: heap_up.induct)
  case (1 lt h j)
  show ?case
  proof (cases "parent j = j \<or> \<not> lt (h ! j) (h ! parent j)")
    case True
    then show ?thesis by (subst heap_up.simps, subst heap_up.simps) simp
  next
    case False
    then have "parent j < j" by auto
    then show ?thesis
      using "1.IH" [OF False] "1.prems" False by (subst (1 2) heap_up.simps) simp
  qed
qed

lemma heap_down_mset:
  "i < length h \<or> n = 0 \<Longrightarrow> n \<le> length h \<Longrightarrow>
     mset (fst (heap_down lt h i n)) = mset h \<and> length (fst (heap_down lt h i n)) = length h \<and>
     (\<forall>k. n \<le> k \<longrightarrow> fst (heap_down lt h i n) ! k = h ! k)"
proof (induction lt h i n rule: heap_down.induct)
  case (1 lt h i n)
  let ?j = "lesser_child lt h i n"
  show ?case
  proof (cases "2 * i + 1 \<ge> n \<or> \<not> lt (h ! ?j) (h ! i)")
    case True
    then show ?thesis by (subst (1 2 3) heap_down.simps) (auto simp: Let_def)
  next
    case False
    have j: "?j < n" using False lesser_child_bound [of i n lt h] by simp
    have eq: "heap_down lt h i n = heap_down lt (swap_at h i ?j) ?j n"
      using False by (subst heap_down.simps) (simp add: Let_def)
    have i: "i < n" using False by auto
    have "mset (fst (heap_down lt (swap_at h i ?j) ?j n)) = mset (swap_at h i ?j) \<and>
        length (fst (heap_down lt (swap_at h i ?j) ?j n)) = length (swap_at h i ?j) \<and>
        (\<forall>k. n \<le> k \<longrightarrow> fst (heap_down lt (swap_at h i ?j) ?j n) ! k = swap_at h i ?j ! k)"
      by (rule "1.IH") (use False j "1.prems" in auto)
    then show ?thesis
      unfolding eq using j i "1.prems" by (auto simp: swap_at_nth)
  qed
qed

lemma heap_push_mset: "mset (heap_push lt h x) = add_mset x (mset h)" "length (heap_push lt h x) = Suc (length h)"
  using heap_up_mset [of "length h" "h @ [x]" lt] by (simp_all add: heap_push_def)

lemma heap_fix_mset:
  assumes "i < length h"
  shows "mset (heap_fix lt h i) = mset h" and "length (heap_fix lt h i) = length h"
proof -
  note d = heap_down_mset [of i h "length h" lt]
  have "mset (heap_fix lt h i) = mset h \<and> length (heap_fix lt h i) = length h"
    using d assms heap_up_mset [of i "fst (heap_down lt h i (length h))" lt]
    by (auto simp: heap_fix_def split: prod.splits)
  then show "mset (heap_fix lt h i) = mset h" and "length (heap_fix lt h i) = length h" by auto
qed

lemma heap_pop_mset:
  assumes "h \<noteq> []"
  shows "mset h = add_mset (fst (heap_pop lt h)) (mset (snd (heap_pop lt h)))"
    and "length (snd (heap_pop lt h)) = length h - 1"
    and "fst (heap_pop lt h) = h ! 0"
proof -
  define n where "n = length h - 1"
  define h2 where "h2 = fst (heap_down lt (swap_at h 0 n) 0 n)"
  have n: "n < length h" using assms by (simp add: n_def)
  have d: "mset h2 = mset h" "length h2 = length h" "h2 ! n = swap_at h 0 n ! n"
    using heap_down_mset [of 0 "swap_at h 0 n" n lt] n assms by (auto simp: h2_def)
  have pop: "heap_pop lt h = (h2 ! n, take n h2)"
    unfolding heap_pop_def h2_def n_def Let_def by (rule refl)
  have "h2 = take n h2 @ [h2 ! n]"
    using d(2) n assms take_Suc_conv_app_nth [of n h2] by (simp add: n_def)
  then have "mset h2 = mset (take n h2 @ [h2 ! n])" by simp
  then show "mset h = add_mset (fst (heap_pop lt h)) (mset (snd (heap_pop lt h)))"
    by (simp add: pop d(1))
  show "length (snd (heap_pop lt h)) = length h - 1"
    using d n by (simp add: pop n_def)
  show "fst (heap_pop lt h) = h ! 0"
    using d(3) n assms swap_at_nth [of 0 h n n] by (simp add: pop split: if_splits)
qed

section \<open>The contract of the comparison\<close>

text \<open>
  A strict weak order on the elements that are \<open>ok\<close>.  A comparison of floats is one on the values that
  are not NaN, which is why \<open>ok\<close> is there.
\<close>

locale strict_weak =
  fixes lt :: "'a \<Rightarrow> 'a \<Rightarrow> bool"
    and ok :: "'a \<Rightarrow> bool"
  assumes irrefl: "ok a \<Longrightarrow> \<not> lt a a"
    and trans: "ok a \<Longrightarrow> ok b \<Longrightarrow> ok c \<Longrightarrow> lt a b \<Longrightarrow> lt b c \<Longrightarrow> lt a c"
    and cotrans: "ok a \<Longrightarrow> ok b \<Longrightarrow> ok c \<Longrightarrow> lt a b \<Longrightarrow> lt a c \<or> lt c b"
begin

definition le :: "'a \<Rightarrow> 'a \<Rightarrow> bool" where
  "le a b = (\<not> lt b a)"

lemma le_trans: "ok a \<Longrightarrow> ok b \<Longrightarrow> ok c \<Longrightarrow> le a b \<Longrightarrow> le b c \<Longrightarrow> le a c"
  unfolding le_def using cotrans [of c a b] by blast

lemma lt_le: "ok a \<Longrightarrow> ok b \<Longrightarrow> lt a b \<Longrightarrow> le a b"
  unfolding le_def using irrefl trans by blast

lemma le_refl: "ok a \<Longrightarrow> le a a"
  by (simp add: le_def irrefl)

definition heap :: "nat \<Rightarrow> 'a list \<Rightarrow> bool" where
  "heap n h = (\<forall>k < n. 0 < k \<longrightarrow> le (h ! parent k) (h ! k))"

definition all_ok :: "'a list \<Rightarrow> bool" where
  "all_ok h = (\<forall>x \<in> set h. ok x)"

lemma all_ok_nth: "all_ok h \<Longrightarrow> k < length h \<Longrightarrow> ok (h ! k)"
  by (simp add: all_ok_def)

lemma all_ok_mset: "mset h = mset g \<Longrightarrow> all_ok h = all_ok g"
  by (metis all_ok_def mset_eq_setD)

text \<open>A heap but for element \<open>j\<close>, which may be too small; and one but for the children of \<open>i\<close>.\<close>

definition up_inv :: "nat \<Rightarrow> 'a list \<Rightarrow> bool" where
  "up_inv j h =
     ((\<forall>k < length h. 0 < k \<longrightarrow> k \<noteq> j \<longrightarrow> le (h ! parent k) (h ! k)) \<and>
      (\<forall>c < length h. 0 < c \<longrightarrow> parent c = j \<longrightarrow> 0 < j \<longrightarrow> le (h ! parent j) (h ! c)))"

definition down_inv :: "nat \<Rightarrow> nat \<Rightarrow> 'a list \<Rightarrow> bool" where
  "down_inv i n h =
     ((\<forall>k < n. 0 < k \<longrightarrow> parent k \<noteq> i \<longrightarrow> le (h ! parent k) (h ! k)) \<and>
      (0 < i \<longrightarrow> (\<forall>c < n. 0 < c \<longrightarrow> parent c = i \<longrightarrow> le (h ! parent i) (h ! c))))"

lemma up_inv_step:
  assumes inv: "up_inv j h" and ok: "all_ok h" and j: "j < length h"
    and moved: "parent j \<noteq> j" "lt (h ! j) (h ! parent j)"
  shows "up_inv (parent j) (swap_at h (parent j) j)"
proof -
  define i where "i = parent j"
  have "0 < j" using moved(1) by (cases j) simp_all
  then have ij: "i < j" "i < length h" using j less_trans [OF parent_le j] by (simp_all add: i_def)
  have nth: "swap_at h i j ! k = (if k = i then h ! j else if k = j then h ! i else h ! k)" for k
    using ij j by (simp add: swap_at_nth)
  have o: "\<And>k. k < length h \<Longrightarrow> ok (h ! k)" using all_ok_nth [OF ok] .
  have ji: "le (h ! j) (h ! i)"
    using lt_le [OF o o] moved(2) j ij by (simp add: i_def)
  have a: "le (h ! parent k) (h ! k)" if "k < length h" "0 < k" "k \<noteq> j" for k
    using inv that by (auto simp: up_inv_def)
  have b: "le (h ! i) (h ! c)" if "c < length h" "0 < c" "parent c = j" for c
    using inv that ij by (auto simp: up_inv_def i_def)
  have first: "le (swap_at h i j ! parent k) (swap_at h i j ! k)" if k: "k < length h" "0 < k" "k \<noteq> i" for k
  proof -
    have pk: "parent k < k" using k(2) by simp
    consider "k = j" | "k \<noteq> j" "parent k = i" | "k \<noteq> j" "parent k = j" | "k \<noteq> j" "parent k \<noteq> i" "parent k \<noteq> j" by blast
    then show ?thesis
    proof cases
      case 1
      then have "parent k = i" by (simp add: i_def)
      then show ?thesis using 1 ij ji by (simp add: nth)
    next
      case 2
      then have "le (h ! i) (h ! k)" using a [OF k(1,2)] by simp
      then have "le (h ! j) (h ! k)" using le_trans [OF o o o ji] j ij k by blast
      then show ?thesis using 2 k by (simp add: nth)
    next
      case 3
      then show ?thesis using b [OF k(1,2)] k ij by (simp add: nth)
    next
      case 4
      then show ?thesis using a [OF k(1,2)] k by (simp add: nth)
    qed
  qed
  have second: "le (swap_at h i j ! parent i) (swap_at h i j ! c)"
    if c: "c < length h" "0 < c" "parent c = i" "0 < i" for c
  proof -
    have pi: "parent i < i" using c(4) by simp
    have top: "le (h ! parent i) (h ! i)" using a [of i] ij c(4) by simp
    have ci: "c \<noteq> i" using c parent_le [OF c(2)] by simp
    show ?thesis
    proof (cases "c = j")
      case True
      then show ?thesis using top pi ij by (simp add: nth)
    next
      case False
      then have "le (h ! i) (h ! c)" using a [OF c(1,2)] c(3) by simp
      then have "le (h ! parent i) (h ! c)" using le_trans [OF o o o top] pi ij c by simp
      then show ?thesis using False ci pi ij by (simp add: nth)
    qed
  qed
  show ?thesis
    using first second unfolding up_inv_def i_def [symmetric] by simp
qed

lemma up_heap: "up_inv j h \<Longrightarrow> all_ok h \<Longrightarrow> j < length h \<Longrightarrow> heap (length h) (heap_up lt h j)"
proof (induction j arbitrary: h rule: less_induct)
  case (less j)
  show ?case
  proof (cases "parent j = j \<or> \<not> lt (h ! j) (h ! parent j)")
    case True
    have "le (h ! parent k) (h ! k)" if "k < length h" "0 < k" for k
    proof (cases "k = j")
      case False
      then show ?thesis using less.prems(1) that by (simp add: up_inv_def)
    next
      case kj: True
      then show ?thesis using True that by (simp add: le_def)
    qed
    then show ?thesis using True by (subst heap_up.simps) (simp add: heap_def)
  next
    case False
    then have pj: "parent j < j" by (cases "j = 0") auto
    have "all_ok (swap_at h (parent j) j)"
      using less.prems pj all_ok_mset [of "swap_at h (parent j) j" h] by simp
    then have "heap (length (swap_at h (parent j) j)) (heap_up lt (swap_at h (parent j) j) (parent j))"
      using less.IH [OF pj up_inv_step [OF less.prems]] less.prems(3) pj False by simp
    then show ?thesis using False by (subst heap_up.simps) simp
  qed
qed

lemma lesser_child_le:
  assumes n: "n \<le> length h" "2 * i + 1 < n" and ok: "all_ok h" and k: "k < n"
    and child: "k = 2 * i + 1 \<or> k = 2 * i + 2"
  shows "le (h ! lesser_child lt h i n) (h ! k)"
proof (cases "2 * i + 2 < n \<and> lt (h ! (2 * i + 2)) (h ! (2 * i + 1))")
  case True
  then have j: "lesser_child lt h i n = 2 * i + 2" by (simp add: lesser_child_def Let_def)
  have "ok (h ! (2 * i + 2))" "ok (h ! (2 * i + 1))" using all_ok_nth [OF ok] n True by simp_all
  then show ?thesis using child lt_le le_refl True unfolding j by blast
next
  case False
  then have j: "lesser_child lt h i n = 2 * i + 1" by (simp add: lesser_child_def Let_def)
  have "ok (h ! (2 * i + 1))" using all_ok_nth [OF ok] n by simp
  then show ?thesis using child le_refl False k unfolding j le_def by blast
qed

lemma down_inv_step:
  assumes inv: "down_inv i n h" and ok: "all_ok h" and n: "n \<le> length h" "2 * i + 1 < n"
    and moved: "lt (h ! lesser_child lt h i n) (h ! i)"
  shows "down_inv (lesser_child lt h i n) n (swap_at h i (lesser_child lt h i n))"
proof -
  define j where "j = lesser_child lt h i n"
  have j: "j < n" "parent j = i" "0 < j" "i < j"
    using lesser_child_bound [of i n lt h] lesser_child_cases [of lt h i n] n(2)
    by (auto simp: j_def parent_lesser_child)
  have len: "i < length h" "j < length h" using j n by auto
  have nth: "swap_at h i j ! k = (if k = i then h ! j else if k = j then h ! i else h ! k)" for k
    using len by (simp add: swap_at_nth)
  have o: "\<And>k. k < n \<Longrightarrow> ok (h ! k)" using all_ok_nth [OF ok] n(1) by simp
  have ji: "le (h ! j) (h ! i)"
    using lt_le [OF o o] moved j by (simp add: j_def)
  have a: "le (h ! parent k) (h ! k)" if "k < n" "0 < k" "parent k \<noteq> i" for k
    using inv that by (simp add: down_inv_def)
  have b: "le (h ! parent i) (h ! c)" if "c < n" "0 < c" "parent c = i" "0 < i" for c
    using inv that by (simp add: down_inv_def)
  have sibling: "le (h ! j) (h ! k)" if "k < n" "0 < k" "parent k = i" for k
  proof -
    have k: "k = 2 * i + 1 \<or> k = 2 * i + 2" using parent_eq_child [of k i] that(2,3) by blast
    then show ?thesis
      unfolding j_def using lesser_child_le [OF n ok that(1)] by blast
  qed
  have first: "le (swap_at h i j ! parent k) (swap_at h i j ! k)" if k: "k < n" "0 < k" "parent k \<noteq> j" for k
  proof -
    have pk: "parent k < k" using k(2) by simp
    consider "k = j" | "k \<noteq> j" "parent k = i" | "k = i" | "k \<noteq> j" "parent k \<noteq> i" "k \<noteq> i" by blast
    then show ?thesis
    proof cases
      case 1
      then show ?thesis using ji j by (simp add: nth)
    next
      case 2
      then show ?thesis using sibling [OF k(1,2)] pk by (simp add: nth)
    next
      case 3
      then show ?thesis using b [OF j(1,3,2)] k pk by (simp add: nth)
    next
      case 4
      then show ?thesis using a [OF k(1,2)] k by (simp add: nth)
    qed
  qed
  have second: "le (swap_at h i j ! parent j) (swap_at h i j ! c)" if c: "c < n" "0 < c" "parent c = j" for c
  proof -
    have pc: "parent c < c" using c(2) by simp
    have "le (h ! parent c) (h ! c)" using a [OF c(1,2)] c(3) j by simp
    then show ?thesis using c(3) pc j by (simp add: nth)
  qed
  show ?thesis
    using first second unfolding down_inv_def j_def [symmetric] by simp
qed

lemma down_heap:
  "down_inv i n h \<Longrightarrow> all_ok h \<Longrightarrow> n \<le> length h \<Longrightarrow> heap n (fst (heap_down lt h i n))"
proof (induction "n - i" arbitrary: i h rule: less_induct)
  case less
  let ?j = "lesser_child lt h i n"
  show ?case
  proof (cases "2 * i + 1 < n \<and> lt (h ! ?j) (h ! i)")
    case False
    have "le (h ! parent k) (h ! k)" if k: "k < n" "0 < k" for k
    proof (cases "parent k = i")
      case diff: False
      then show ?thesis using less.prems(1) k by (simp add: down_inv_def)
    next
      case True
      have kc: "k = 2 * i + 1 \<or> k = 2 * i + 2" using parent_eq_child [of k i] k(2) True by blast
      then have child: "2 * i + 1 < n" using k(1) by auto
      then have nl: "\<not> lt (h ! ?j) (h ! i)" using False by blast
      have jn: "?j < n" using lesser_child_bound [of i n lt h] child by simp
      have oks: "ok (h ! i)" "ok (h ! k)" "ok (h ! ?j)" "ok (h ! (2 * i + 1))"
        using all_ok_nth [OF less.prems(2)] less.prems(3) k child jn by simp_all
      have "le (h ! ?j) (h ! k)"
        using lesser_child_le [OF less.prems(3) child less.prems(2) k(1) kc] .
      moreover have "le (h ! i) (h ! ?j)" using nl by (simp add: le_def)
      ultimately show ?thesis using le_trans [OF oks(1,3,2)] True by simp
    qed
    then have "heap n h" by (simp add: heap_def)
    moreover have "heap_down lt h i n = (h, i)"
      using False by (subst heap_down.simps) (simp add: Let_def)
    ultimately show ?thesis by simp
  next
    case True
    have j: "?j < n" "i < ?j"
      using lesser_child_bound [of i n lt h] lesser_child_cases [of lt h i n] True by auto
    have eq: "heap_down lt h i n = heap_down lt (swap_at h i ?j) ?j n"
      using True by (subst heap_down.simps) (simp add: Let_def)
    have okh: "all_ok (swap_at h i ?j)"
      using less.prems j all_ok_mset [of "swap_at h i ?j" h] by simp
    have inv: "down_inv ?j n (swap_at h i ?j)"
      by (rule down_inv_step) (use less.prems True in simp_all)
    have dec: "n - ?j < n - i" using j by linarith
    show ?thesis
      unfolding eq by (rule less.hyps [OF dec inv okh]) (use less.prems in simp)
  qed
qed

section \<open>The operations keep the heap\<close>

lemma heap_root: "heap n h \<Longrightarrow> all_ok h \<Longrightarrow> n \<le> length h \<Longrightarrow> k < n \<Longrightarrow> le (h ! 0) (h ! k)"
proof (induction k rule: less_induct)
  case (less k)
  have "0 < length h" "k < length h" using less.prems by auto
  then have oks: "ok (h ! 0)" "ok (h ! k)" using all_ok_nth [OF less.prems(2)] by blast+
  show ?case
  proof (cases "k = 0")
    case True
    then show ?thesis using le_refl oks by simp
  next
    case False
    then have pk: "parent k < k" by simp
    have "le (h ! 0) (h ! parent k)" using less.IH [OF pk] less.prems pk by simp
    moreover have "le (h ! parent k) (h ! k)" using less.prems False by (simp add: heap_def)
    moreover have "ok (h ! parent k)" using all_ok_nth [OF less.prems(2)] less.prems pk by simp
    ultimately show ?thesis using le_trans oks by blast
  qed
qed

lemma heap_push_heap:
  assumes "heap (length h) h" "all_ok h" "ok x"
  shows "heap (length (heap_push lt h x)) (heap_push lt h x)"
proof -
  have up: "up_inv (length h) (h @ [x])"
    unfolding up_inv_def
  proof (intro conjI allI impI)
    fix k assume k: "k < length (h @ [x])" "0 < k" "k \<noteq> length h"
    then have "k < length h" "parent k < length h" using less_trans [OF parent_le [OF k(2)]] by auto
    then show "le ((h @ [x]) ! parent k) ((h @ [x]) ! k)"
      using assms(1) k(2) by (simp add: nth_append heap_def)
  next
    fix c assume c: "c < length (h @ [x])" "0 < c" "parent c = length h"
    then show "le ((h @ [x]) ! parent (length h)) ((h @ [x]) ! c)"
      using parent_le [OF c(2)] by simp
  qed
  have ok': "all_ok (h @ [x])" using assms by (simp add: all_ok_def)
  from up_heap [OF up ok'] show ?thesis
    using heap_push_mset(2) [of lt h x] by (simp add: heap_push_def)
qed

lemma heap_fix_root:
  assumes "heap (length h) h" "all_ok h" "ok x" "h \<noteq> []"
  shows "heap (length h) (heap_fix lt (h[0 := x]) 0)"
proof -
  have down: "down_inv 0 (length h) (h[0 := x])"
    unfolding down_inv_def
  proof (intro conjI allI impI)
    fix k assume k: "k < length h" "0 < k" "parent k \<noteq> 0"
    then show "le (h[0 := x] ! parent k) (h[0 := x] ! k)"
      using assms(1) by (simp add: heap_def)
  qed simp
  have ok': "all_ok (h[0 := x])"
    using assms set_update_subset_insert [of h 0 x] by (auto simp: all_ok_def)
  have "heap (length h) (fst (heap_down lt (h[0 := x]) 0 (length h)))"
    by (rule down_heap [OF down ok']) simp
  then show ?thesis
    by (auto simp: heap_fix_def heap_up.simps split: prod.splits)
qed

lemma heap_pop_heap:
  assumes "heap (length h) h" "all_ok h" "h \<noteq> []"
  shows "heap (length (snd (heap_pop lt h))) (snd (heap_pop lt h))"
    and "\<forall>y \<in> set (snd (heap_pop lt h)). le (fst (heap_pop lt h)) y"
proof -
  define n where "n = length h - 1"
  have n: "n < length h" using assms(3) by (simp add: n_def)
  have down: "down_inv 0 n (swap_at h 0 n)"
    unfolding down_inv_def
  proof (intro conjI allI impI)
    fix k assume k: "k < n" "0 < k" "parent k \<noteq> 0"
    have "parent k < n" using less_trans [OF parent_le [OF k(2)] k(1)] .
    then show "le (swap_at h 0 n ! parent k) (swap_at h 0 n ! k)"
      using assms(1,3) k n by (simp add: swap_at_nth heap_def)
  qed simp
  have ok': "all_ok (swap_at h 0 n)"
    using assms n all_ok_mset [of "swap_at h 0 n" h] by simp
  have hp: "heap n (fst (heap_down lt (swap_at h 0 n) 0 n))"
    by (rule down_heap [OF down ok']) (use n in simp)
  have "length (fst (heap_down lt (swap_at h 0 n) 0 n)) = length h"
    using heap_down_mset [of 0 "swap_at h 0 n" n lt] n assms(3) by simp
  then show "heap (length (snd (heap_pop lt h))) (snd (heap_pop lt h))"
    using hp n less_trans [OF parent_le]
    unfolding heap_pop_def Let_def n_def [symmetric] by (auto simp: heap_def)
  note m = heap_pop_mset [OF assms(3), of lt]
  show "\<forall>y \<in> set (snd (heap_pop lt h)). le (fst (heap_pop lt h)) y"
  proof
    fix y assume "y \<in> set (snd (heap_pop lt h))"
    then have "y \<in> set h" using m(1) by (metis insert_iff set_mset_add_mset_insert set_mset_mset)
    then obtain k where "k < length h" "y = h ! k" by (metis in_set_conv_nth)
    then show "le (fst (heap_pop lt h)) y"
      using heap_root [OF assms(1,2)] m(3) by simp
  qed
qed

section \<open>Selection\<close>

text \<open>\<open>h\<close> holds the \<open>k\<close> greatest elements of \<open>seen\<close> (all of them when there are fewer).\<close>

definition top_of :: "nat \<Rightarrow> 'a list \<Rightarrow> 'a list \<Rightarrow> bool" where
  "top_of k seen h =
     (length h = min k (length seen) \<and>
      (\<exists>out. mset seen = mset h + out \<and> (\<forall>x \<in> set h. \<forall>y \<in># out. le y x)))"

lemma top_of_step:
  assumes top: "top_of k seen h" "heap (length h) h" and ok: "all_ok seen" "ok q" and k: "0 < k"
  shows "top_of k (seen @ [q]) (select_heap lt (int k) h q) \<and>
    heap (length (select_heap lt (int k) h q)) (select_heap lt (int k) h q)"
proof -
  obtain out where out: "mset seen = mset h + out" "\<forall>x \<in> set h. \<forall>y \<in># out. le y x"
    using top by (auto simp: top_of_def)
  have len: "length h = min k (length seen)" using top by (simp add: top_of_def)
  have subset: "set h \<union> set_mset out = set seen" using out(1) by (metis set_mset_mset set_mset_union)
  have okh: "all_ok h" and oko: "\<forall>y \<in># out. ok y" using ok(1) subset by (auto simp: all_ok_def)
  show ?thesis
  proof (cases "length h < k")
    case True
    then have "length h = length seen" using len by simp
    then have "out = {#}"
      using out(1) by (metis add_left_cancel add_0_right size_eq_0_iff_empty size_mset size_union)
    then have "mset (seen @ [q]) = mset (heap_push lt h q) + {#}"
      using out(1) heap_push_mset(1) [of lt h q] by simp
    then have "top_of k (seen @ [q]) (heap_push lt h q)"
      unfolding top_of_def using heap_push_mset(2) [of lt h q] True len by fastforce
    then show ?thesis
      using heap_push_heap [OF top(2) okh ok(2)] True k by (simp add: select_heap_def)
  next
    case False
    then have full: "length h = k" "k \<le> length seen" using len by auto
    then have ne: "h \<noteq> []" using k by auto
    define r where "r = h ! 0"
    have r: "r \<in> set h" "ok r" using ne okh by (auto simp: r_def all_ok_def)
    have root: "le r x" if "x \<in> set h" for x
      using heap_root [OF top(2) okh order_refl] that by (metis in_set_conv_nth r_def)
    show ?thesis
    proof (cases "lt r q")
      case True
      let ?h' = "heap_fix lt (h[0 := q]) 0"
      have m': "mset ?h' = add_mset q (mset h - {#r#})" "length ?h' = length h"
        using heap_fix_mset [of 0 "h[0 := q]" lt] ne by (simp_all add: mset_update r_def)
      have eq: "mset (seen @ [q]) = mset ?h' + add_mset r out"
        using out(1) r(1) by (simp add: m')
      have "le y x" if x: "x \<in> set ?h'" and y: "y \<in># add_mset r out" for x y
      proof -
        have "x \<in># mset ?h'" using x by simp
        then have xc: "x = q \<or> x \<in> set h" unfolding m'(1) by (auto dest: in_diffD)
        have oky: "ok y" using y r oko by auto
        have yr: "le y r" using y out(2) r le_refl by auto
        have rq: "le r q" using lt_le [OF r(2) ok(2) True] .
        have xq: "x = q \<Longrightarrow> le y x" using le_trans [OF oky r(2) ok(2) yr rq] by simp
        have "x \<in> set h \<Longrightarrow> le y x"
          using le_trans [OF oky r(2) _ yr root] okh by (simp add: all_ok_def)
        then show ?thesis using xc xq by blast
      qed
      then have "top_of k (seen @ [q]) ?h'"
        unfolding top_of_def using eq m'(2) full by auto
      moreover have "heap (length ?h') ?h'"
        using heap_fix_root [OF top(2) okh ok(2) ne] m'(2) by simp
      ultimately show ?thesis
        using False k True by (simp add: select_heap_def r_def)
    next
      case not: False
      have "le y x" if x: "x \<in> set h" and y: "y \<in># add_mset q out" for x y
      proof -
        have "le q r" using not by (simp add: le_def)
        then have "le q x" using le_trans [OF ok(2) r(2) _ _ root] x okh by (simp add: all_ok_def)
        then show ?thesis using out(2) x y by auto
      qed
      then have "top_of k (seen @ [q]) h"
        unfolding top_of_def using out(1) full by (intro conjI exI [of _ "add_mset q out"]) auto
      then show ?thesis
        using False k not top(2) by (simp add: select_heap_def r_def)
    qed
  qed
qed

text \<open>When the watched elements come first, the rest is selected exactly.\<close>

lemma select_watched: "\<forall>q \<in> set ws. w q \<Longrightarrow> fold (select_step lt w n) ws s = (fst s @ ws, snd s)"
  by (induction ws arbitrary: s) (auto simp: select_step_def)

lemma select_unwatched:
  assumes "\<forall>q \<in> set us. \<not> w q" and "all_ok (seen @ us)" and "top_of k seen h" "heap (length h) h"
    and k: "0 < k" "int k = n - int (length ws)"
  shows "\<exists>h'. fold (select_step lt w n) us (ws, h) = (ws, h') \<and> top_of k (seen @ us) h' \<and> heap (length h') h'"
  using assms(1-4)
proof (induction us arbitrary: seen h)
  case Nil
  then show ?case by simp
next
  case (Cons q us)
  have step: "select_step lt w n q (ws, h) = (ws, select_heap lt (int k) h q)"
    using Cons.prems(1) by (simp add: select_step_def k(2))
  have ok: "all_ok seen" "ok q" "all_ok ((seen @ [q]) @ us)" using Cons.prems(2) by (auto simp: all_ok_def)
  note t = top_of_step [OF Cons.prems(3,4) ok(1,2) k(1)]
  from Cons.IH [OF _ ok(3) conjunct1 [OF t] conjunct2 [OF t]] Cons.prems(1)
  show ?case by (simp add: step)
qed

lemma select_exact:
  assumes "\<forall>q \<in> set ws. w q" "\<forall>q \<in> set us. \<not> w q" and "all_ok us"
  shows "\<exists>h. fold (select_step lt w n) (ws @ us) ([], []) = (ws, h) \<and> top_of (nat (n - int (length ws))) us h
      \<and> heap (length h) h"
proof (cases "n - int (length ws) > 0")
  case True
  have "top_of (nat (n - int (length ws))) [] []" "heap (length []) []"
    by (simp_all add: top_of_def heap_def)
  from select_unwatched [OF assms(2) _ this] assms(3) True select_watched [OF assms(1), of n "([], [])"]
  show ?thesis by simp
next
  case False
  have "fold (select_step lt w n) us (ws, []) = (ws, [])"
    using assms(2) False by (induction us) (auto simp: select_step_def select_heap_def)
  then show ?thesis
    using select_watched [OF assms(1), of n "([], [])"] False
    by (auto simp: top_of_def heap_def)
qed

text \<open>Draining gives the elements in descending order.\<close>

lemma drain_sorted:
  "heap (length h) h \<Longrightarrow> all_ok h \<Longrightarrow> all_ok acc \<Longrightarrow> sorted_wrt (\<lambda>a b. le b a) acc \<Longrightarrow>
     (\<forall>x \<in> set h. \<forall>y \<in> set acc. le y x) \<Longrightarrow>
     sorted_wrt (\<lambda>a b. le b a) (heap_drain lt h acc) \<and> mset (heap_drain lt h acc) = mset h + mset acc"
proof (induction "length h" arbitrary: h acc rule: less_induct)
  case less
  show ?case
  proof (cases "h = []")
    case True
    then show ?thesis using less.prems by (subst (1 2) heap_drain.simps) simp
  next
    case False
    obtain x h' where pop: "heap_pop lt h = (x, h')" by force
    note m = heap_pop_mset [OF False, of lt, unfolded pop fst_conv snd_conv]
    note hp = heap_pop_heap [OF less.prems(1,2) False, unfolded pop fst_conv snd_conv]
    have sets: "set h = insert x (set h')" using m(1) by (metis set_mset_add_mset_insert set_mset_mset)
    have eq: "heap_drain lt h acc = heap_drain lt h' (x # acc)"
      using False by (subst heap_drain.simps) (simp add: pop)
    have "sorted_wrt (\<lambda>a b. le b a) (heap_drain lt h' (x # acc)) \<and>
        mset (heap_drain lt h' (x # acc)) = mset h' + mset (x # acc)"
    proof (rule less.hyps)
      show "length h' < length h" using m(2) False by simp
      show "heap (length h') h'" by (rule hp(1))
      show "all_ok h'" "all_ok (x # acc)" using less.prems(2,3) sets by (auto simp: all_ok_def)
      show "sorted_wrt (\<lambda>a b. le b a) (x # acc)" using less.prems(4,5) sets by simp
      show "\<forall>z \<in> set h'. \<forall>y \<in> set (x # acc). le y z" using hp(2) less.prems(5) sets by auto
    qed
    then show ?thesis unfolding eq using m(1) by simp
  qed
qed

text \<open>The whole selection: what the client reads off the two lists when the watched elements come first.\<close>

lemma select_and_drain:
  assumes "\<forall>q \<in> set ws. w q" "\<forall>q \<in> set us. \<not> w q \<and> ok q"
  shows "\<exists>h out. fold (select_step lt w n) (ws @ us) ([], []) = (ws, h) \<and>
    length (heap_drain lt h []) = min (nat (n - int (length ws))) (length us) \<and>
    mset us = mset (heap_drain lt h []) + mset out \<and>
    sorted_wrt (\<lambda>a b. \<not> lt a b) (heap_drain lt h []) \<and>
    list_all (\<lambda>a. list_all (\<lambda>b. \<not> lt a b) out) (heap_drain lt h [])"
proof -
  have ok: "all_ok us" using assms(2) by (simp add: all_ok_def)
  from select_exact [OF assms(1) _ ok, of n] assms(2) obtain h where
    h: "fold (select_step lt w n) (ws @ us) ([], []) = (ws, h)"
      "top_of (nat (n - int (length ws))) us h" "heap (length h) h" by blast
  from h(2) obtain out where out: "length h = min (nat (n - int (length ws))) (length us)"
      "mset us = mset h + out" "\<forall>x \<in> set h. \<forall>y \<in># out. \<not> lt x y"
    by (auto simp: top_of_def le_def)
  obtain outs where outs: "mset outs = out" by (metis ex_mset)
  have "set h \<subseteq> set us" using out(2) by (metis set_mset_mset set_mset_union sup_ge1)
  then have okh: "all_ok h" using ok by (auto simp: all_ok_def)
  have drain: "sorted_wrt (\<lambda>a b. \<not> lt a b) (heap_drain lt h []) \<and> mset (heap_drain lt h []) = mset h"
    using drain_sorted [OF h(3) okh, of "[]"] by (simp add: all_ok_def le_def)
  then have "set (heap_drain lt h []) = set h" "length (heap_drain lt h []) = length h"
    by (metis set_mset_mset, metis size_mset)
  with drain h(1) out outs show ?thesis by (intro exI [of _ h] exI [of _ outs]) (auto simp: list_all_iff)
qed

end

section \<open>What holds in every order\<close>

text \<open>Whatever order the elements come in: all watched ones are kept, the others come from the input and are at most \<open>n\<close>.\<close>

lemma select_heap_mset:
  "mset (select_heap lt r h q) \<subseteq># add_mset q (mset h)"
  "int (length h) \<le> max 0 m \<Longrightarrow> r \<le> m \<Longrightarrow> int (length (select_heap lt r h q)) \<le> max 0 m"
proof -
  have fix_: "mset (heap_fix lt (h[0 := q]) 0) \<subseteq># add_mset q (mset h)" "length (heap_fix lt (h[0 := q]) 0) = length h"
    if "h \<noteq> []"
    using heap_fix_mset [of 0 "h[0 := q]" lt] that by (simp_all add: mset_update)
  have ne: "h \<noteq> []" if "\<not> r \<le> 0" "\<not> int (length h) < r" using that by auto
  show "mset (select_heap lt r h q) \<subseteq># add_mset q (mset h)"
    using fix_(1) ne by (auto simp: select_heap_def heap_push_mset)
  show "int (length h) \<le> max 0 m \<Longrightarrow> r \<le> m \<Longrightarrow> int (length (select_heap lt r h q)) \<le> max 0 m"
    using fix_(2) ne by (auto simp: select_heap_def heap_push_mset)
qed

lemma select_general:
  assumes "fold (select_step lt w n) qs (ws, h) = (ws', h')" and "int (length h) \<le> max 0 n"
  shows "ws' = ws @ filter w qs \<and> mset h' \<subseteq># mset h + mset (filter (\<lambda>q. \<not> w q) qs) \<and> int (length h') \<le> max 0 n"
  using assms
proof (induction qs arbitrary: ws h)
  case Nil
  then show ?case by simp
next
  case (Cons q qs)
  show ?case
  proof (cases "w q")
    case True
    then have "fold (select_step lt w n) qs (ws @ [q], h) = (ws', h')"
      using Cons.prems(1) by (simp add: select_step_def [of lt w n q])
    from Cons.IH [OF this Cons.prems(2)] show ?thesis using True by simp
  next
    case False
    let ?h1 = "select_heap lt (n - int (length ws)) h q"
    have "fold (select_step lt w n) qs (ws, ?h1) = (ws', h')"
      using Cons.prems(1) False by (simp add: select_step_def [of lt w n q])
    moreover have "int (length ?h1) \<le> max 0 n"
      by (rule select_heap_mset(2) [OF Cons.prems(2)]) simp
    ultimately have "ws' = ws @ filter w qs \<and> mset h' \<subseteq># mset ?h1 + mset (filter (\<lambda>q. \<not> w q) qs)
        \<and> int (length h') \<le> max 0 n"
      by (rule Cons.IH)
    moreover have "mset ?h1 + mset (filter (\<lambda>q. \<not> w q) qs) \<subseteq># mset h + mset (filter (\<lambda>q. \<not> w q) (q # qs))"
      using select_heap_mset(1) [of lt "n - int (length ws)" h q] False
      by (simp add: subset_mset.add_right_mono)
    ultimately show ?thesis
      using False by (auto intro: subset_mset.order_trans)
  qed
qed

lemma heap_drain_mset: "mset (heap_drain lt h acc) = mset h + mset acc"
proof (induction "length h" arbitrary: h acc rule: less_induct)
  case less
  show ?case
  proof (cases "h = []")
    case True
    then show ?thesis by (simp add: heap_drain.simps)
  next
    case False
    obtain x h' where pop: "heap_pop lt h = (x, h')" by force
    note m = heap_pop_mset [OF False, of lt, unfolded pop fst_conv snd_conv]
    have "length h' < length h" using m(2) False by simp
    from less.hyps [OF this, of "x # acc"] m(1) False show ?thesis
      by (subst heap_drain.simps) (simp add: pop)
  qed
qed

end
