(* ===== verification/Processes.thy ===== *)
theory Processes
  imports Collector TopN
begin

text \<open>
  The collectors that look at processes: \<open>process_match.go\<close>, \<open>cpu_process.go\<close>, \<open>memory_process.go\<close> and
  \<open>process_watch.go\<close>.  A process is a sample of what gopsutil answers about it; \<open>ctx_done k\<close> says that
  the context is done when process \<open>k\<close> is reached.  \<open>sort.Slice\<close> is the argument \<open>sort_slice\<close>, given the
  comparison.
\<close>

section \<open>Names\<close>

record process_matcher =
  pmt_watch_set :: "string list"
  pmt_case_insensitive :: bool

definition new_process_matcher :: "bool \<Rightarrow> string list \<Rightarrow> process_matcher" where
  "new_process_matcher windows names =
     \<lparr>pmt_watch_set = fold (\<lambda>n s. List.insert (if windows then to_lower n else n) s) names [],
      pmt_case_insensitive = windows\<rparr>"

definition is_watched :: "process_matcher \<Rightarrow> string \<Rightarrow> bool" where
  "is_watched m name =
     (if length (pmt_watch_set m) = 0 then False
      else (if pmt_case_insensitive m then to_lower name else name) \<in> set (pmt_watch_set m))"

definition has_watch_list :: "process_matcher \<Rightarrow> bool" where
  "has_watch_list m = (length (pmt_watch_set m) > 0)"

definition same_name :: "bool \<Rightarrow> string \<Rightarrow> string \<Rightarrow> bool" where
  "same_name windows a b = (if windows then to_lower a = to_lower b else a = b)"

lemma watch_set_members:
  "set (fold (\<lambda>n s. List.insert (f n) s) names acc) = f ` set names \<union> set acc"
  by (induction names arbitrary: acc) auto

lemma is_watched_iff: "is_watched (new_process_matcher w names) name \<longleftrightarrow> (\<exists>n \<in> set names. same_name w n name)"
proof -
  let ?s = "pmt_watch_set (new_process_matcher w names)"
  have set_s: "set ?s = (\<lambda>n. if w then to_lower n else n) ` set names"
    by (simp add: new_process_matcher_def watch_set_members)
  have "is_watched (new_process_matcher w names) name \<longleftrightarrow> (if w then to_lower name else name) \<in> set ?s"
    by (auto simp: is_watched_def new_process_matcher_def)
  also have "\<dots> \<longleftrightarrow> (\<exists>n \<in> set names. same_name w n name)"
    unfolding set_s same_name_def image_iff by (cases w) (auto, metis)
  finally show ?thesis .
qed

lemma has_watch_list_iff: "has_watch_list (new_process_matcher w names) \<longleftrightarrow> names \<noteq> []"
proof -
  have "set (pmt_watch_set (new_process_matcher w names)) = (\<lambda>n. if w then to_lower n else n) ` set names"
    by (simp add: new_process_matcher_def watch_set_members)
  then show ?thesis by (metis has_watch_list_def image_is_empty length_greater_0_conv set_empty)
qed

section \<open>CPU usage per process\<close>

record process_collector = base_collector +
  pl_top_n :: int
  pl_watch_processes :: "string list"
  pl_matcher :: "process_matcher option"
  pl_num_cpu :: f64
  pl_warmed_up :: bool

definition new_cpu_process_collector :: "int \<Rightarrow> process_collector" where
  "new_cpu_process_collector num_cpu =
     \<lparr>co_name = ''CPUProcess'', co_interval = 10 * second, co_enabled = True, pl_top_n = 10,
      pl_watch_processes = [], pl_matcher = None, pl_num_cpu = f64_of_int num_cpu, pl_warmed_up = False\<rparr>"

definition cpu_process_default_config :: "process_collector \<Rightarrow> collector_config" where
  "cpu_process_default_config c = (base_default_config c)\<lparr>cc_interval := 30 * second, cc_top_n := 10\<rparr>"

definition configure_cpu_process :: "bool \<Rightarrow> collector_config \<Rightarrow> process_collector \<Rightarrow> process_collector" where
  "configure_cpu_process windows cfg c =
     (let c1 = configure_base cfg c;
          c2 = (if cc_top_n cfg \<ge> 0 then c1\<lparr>pl_top_n := cc_top_n cfg\<rparr> else c1)
      in c2\<lparr>pl_watch_processes := cc_watch_processes cfg,
            pl_matcher := Some (new_process_matcher windows (cc_watch_processes cfg))\<rparr>)"

record cpu_sample =
  cs_pid :: int
  cs_percent :: "f64 option"
  cs_name :: string
  cs_username :: string
  cs_create_time :: int

record cpu_quick =
  cq_proc :: cpu_sample
  cq_percent :: f64
  cq_name :: string
  cq_watched :: bool

definition cpu_less :: "cpu_quick \<Rightarrow> cpu_quick \<Rightarrow> bool" where
  "cpu_less a b = f64_less (cq_percent a) (cq_percent b)"

text \<open>The body of the first pass up to the choice between the watched list and the heap.\<close>

definition cpu_candidate :: "f64 \<Rightarrow> process_matcher \<Rightarrow> cpu_sample \<Rightarrow> cpu_quick option" where
  "cpu_candidate num_cpu m p =
     (case cs_percent p of
        None \<Rightarrow> None
      | Some pct \<Rightarrow>
          if cs_name p = [] then None
          else Some \<lparr>cq_proc = p, cq_percent = f64_div pct num_cpu, cq_name = cs_name p,
                     cq_watched = is_watched m (cs_name p)\<rparr>)"

fun cpu_first_pass ::
  "(nat \<Rightarrow> bool) \<Rightarrow> f64 \<Rightarrow> process_matcher option \<Rightarrow> int \<Rightarrow> nat \<Rightarrow> cpu_sample list \<Rightarrow>
     cpu_quick list \<times> cpu_quick list \<Rightarrow> collect_error + (cpu_quick list \<times> cpu_quick list)" where
  "cpu_first_pass ctx_done num_cpu m top_n k [] s = Inr s"
| "cpu_first_pass ctx_done num_cpu m top_n k (p # ps) s =
     (if ctx_done k then Inl Context_Cancelled
      else if cs_percent p = None \<or> cs_name p = [] then cpu_first_pass ctx_done num_cpu m top_n (Suc k) ps s
      else case m of
        None \<Rightarrow> Inl Nil_Matcher
      | Some matcher \<Rightarrow>
          (case cpu_candidate num_cpu matcher p of
             None \<Rightarrow> cpu_first_pass ctx_done num_cpu m top_n (Suc k) ps s
           | Some q \<Rightarrow> cpu_first_pass ctx_done num_cpu m top_n (Suc k) ps (select_step cpu_less cq_watched top_n q s)))"

definition cpu_detail :: "cpu_quick \<Rightarrow> process_cpu" where
  "cpu_detail q =
     \<lparr>pc_pid = cs_pid (cq_proc q), pc_name = cq_name q, pc_username = cs_username (cq_proc q),
      pc_cpu_percent = cq_percent q, pc_create_time = cs_create_time (cq_proc q), pc_watched = cq_watched q\<rparr>"

definition collect_cpu_process ::
  "((cpu_quick \<Rightarrow> cpu_quick \<Rightarrow> bool) \<Rightarrow> cpu_quick list \<Rightarrow> cpu_quick list) \<Rightarrow> cpu_sample list option \<Rightarrow>
     (nat \<Rightarrow> bool) \<Rightarrow> gotime \<Rightarrow> process_collector \<Rightarrow>
     process_collector \<times> (collect_error + metric_data option)" where
  "collect_cpu_process sort_slice procs ctx_done now c =
     (case procs of
        None \<Rightarrow> (c, Inl Probe_Failed)
      | Some ps \<Rightarrow>
          if \<not> pl_warmed_up c then (c\<lparr>pl_warmed_up := True\<rparr>, Inr None)
          else (c, bind_result
            (cpu_first_pass ctx_done (pl_num_cpu c) (pl_matcher c) (pl_top_n c) 0 ps ([], [])) (\<lambda>(ws, h).
              Inr (Some (make_metric c now (P_CPUProcess \<lparr>pcd_processes =
                map cpu_detail (sort_slice (\<lambda>a b. cpu_less b a) ws) @
                map cpu_detail (heap_drain cpu_less h [])\<rparr>))))))"

section \<open>Memory per process\<close>

text \<open>The percentage is a \<open>float32\<close>, kept as the \<open>float64\<close> of the same value.\<close>

definition new_memory_process_collector :: process_collector where
  "new_memory_process_collector =
     \<lparr>co_name = ''MemoryProcess'', co_interval = 10 * second, co_enabled = True, pl_top_n = 10,
      pl_watch_processes = [], pl_matcher = None, pl_num_cpu = f64_of_int 1, pl_warmed_up = True\<rparr>"

definition memory_process_default_config :: "process_collector \<Rightarrow> collector_config" where
  "memory_process_default_config c = (base_default_config c)\<lparr>cc_interval := 30 * second, cc_top_n := 10\<rparr>"

definition configure_memory_process :: "bool \<Rightarrow> collector_config \<Rightarrow> process_collector \<Rightarrow> process_collector" where
  "configure_memory_process windows cfg c =
     (let c1 = configure_base cfg c;
          c2 = (if cc_top_n cfg \<ge> 0 then c1\<lparr>pl_top_n := cc_top_n cfg\<rparr> else c1)
      in c2\<lparr>pl_watch_processes := cc_watch_processes cfg,
            pl_matcher := Some (new_process_matcher windows (cc_watch_processes cfg))\<rparr>)"

record memory_sample =
  mp_pid :: int
  mp_info :: "(64 word \<times> 64 word \<times> 64 word) option"
  mp_percent :: "f64 option"
  mp_name :: string
  mp_username :: string
  mp_create_time :: int

record memory_quick =
  mq_proc :: memory_sample
  mq_percent :: f64
  mq_name :: string
  mq_rss :: "64 word"
  mq_vms :: "64 word"
  mq_swap :: "64 word"
  mq_watched :: bool

definition memory_less :: "memory_quick \<Rightarrow> memory_quick \<Rightarrow> bool" where
  "memory_less a b = f64_less (mq_percent a) (mq_percent b)"

definition memory_candidate :: "process_matcher \<Rightarrow> memory_sample \<Rightarrow> memory_quick option" where
  "memory_candidate m p =
     (case (mp_info p, mp_percent p) of
        (Some (rss, vms, swap), Some pct) \<Rightarrow>
          if mp_name p = [] then None
          else Some \<lparr>mq_proc = p, mq_percent = pct, mq_name = mp_name p, mq_rss = rss, mq_vms = vms,
                     mq_swap = swap, mq_watched = is_watched m (mp_name p)\<rparr>
      | _ \<Rightarrow> None)"

fun memory_first_pass ::
  "(nat \<Rightarrow> bool) \<Rightarrow> process_matcher option \<Rightarrow> int \<Rightarrow> nat \<Rightarrow> memory_sample list \<Rightarrow>
     memory_quick list \<times> memory_quick list \<Rightarrow> collect_error + (memory_quick list \<times> memory_quick list)" where
  "memory_first_pass ctx_done m top_n k [] s = Inr s"
| "memory_first_pass ctx_done m top_n k (p # ps) s =
     (if ctx_done k then Inl Context_Cancelled
      else if mp_info p = None \<or> mp_percent p = None \<or> mp_name p = []
      then memory_first_pass ctx_done m top_n (Suc k) ps s
      else case m of
        None \<Rightarrow> Inl Nil_Matcher
      | Some matcher \<Rightarrow>
          (case memory_candidate matcher p of
             None \<Rightarrow> memory_first_pass ctx_done m top_n (Suc k) ps s
           | Some q \<Rightarrow> memory_first_pass ctx_done m top_n (Suc k) ps (select_step memory_less mq_watched top_n q s)))"

definition memory_detail :: "memory_quick \<Rightarrow> process_memory" where
  "memory_detail q =
     \<lparr>pm_pid = mp_pid (mq_proc q), pm_name = mq_name q, pm_username = mp_username (mq_proc q),
      pm_memory_percent = mq_percent q, pm_rss = mq_rss q, pm_vms = mq_vms q, pm_swap = mq_swap q,
      pm_create_time = mp_create_time (mq_proc q), pm_watched = mq_watched q\<rparr>"

definition collect_memory_process ::
  "((memory_quick \<Rightarrow> memory_quick \<Rightarrow> bool) \<Rightarrow> memory_quick list \<Rightarrow> memory_quick list) \<Rightarrow> memory_sample list option \<Rightarrow>
     (nat \<Rightarrow> bool) \<Rightarrow> gotime \<Rightarrow> process_collector \<Rightarrow> collect_error + metric_data" where
  "collect_memory_process sort_slice procs ctx_done now c =
     (case procs of
        None \<Rightarrow> Inl Probe_Failed
      | Some ps \<Rightarrow>
          bind_result (memory_first_pass ctx_done (pl_matcher c) (pl_top_n c) 0 ps ([], [])) (\<lambda>(ws, h).
            Inr (make_metric c now (P_MemoryProcess \<lparr>pmd_processes =
              map memory_detail (sort_slice (\<lambda>a b. memory_less b a) ws) @
              map memory_detail (heap_drain memory_less h [])\<rparr>))))"

section \<open>Required and forbidden processes\<close>

record watch_collector = base_collector +
  wc_required :: "string list"
  wc_forbidden :: "string list"
  wc_required_matcher :: process_matcher
  wc_forbidden_matcher :: process_matcher

definition new_process_watch_collector :: "bool \<Rightarrow> watch_collector" where
  "new_process_watch_collector windows =
     \<lparr>co_name = ''ProcessWatch'', co_interval = 10 * second, co_enabled = True, wc_required = [], wc_forbidden = [],
      wc_required_matcher = new_process_matcher windows [], wc_forbidden_matcher = new_process_matcher windows []\<rparr>"

definition configure_process_watch :: "bool \<Rightarrow> collector_config \<Rightarrow> watch_collector \<Rightarrow> watch_collector" where
  "configure_process_watch windows cfg c =
     (configure_base cfg c)
       \<lparr>wc_required := cc_required_processes cfg, wc_forbidden := cc_forbidden_processes cfg,
        wc_required_matcher := new_process_matcher windows (cc_required_processes cfg),
        wc_forbidden_matcher := new_process_matcher windows (cc_forbidden_processes cfg)\<rparr>"

record watch_sample =
  ws_pid :: int
  ws_name :: "string option"

text \<open>The loop that fills \<open>pidMap\<close>; a later process of the same name replaces the earlier one.\<close>

fun pid_map_loop ::
  "(nat \<Rightarrow> bool) \<Rightarrow> watch_collector \<Rightarrow> nat \<Rightarrow> watch_sample list \<Rightarrow> (string \<times> int) list \<Rightarrow>
     collect_error + (string \<times> int) list" where
  "pid_map_loop ctx_done c k [] m = Inr m"
| "pid_map_loop ctx_done c k (p # ps) m =
     (if ctx_done k then Inl Context_Cancelled
      else case ws_name p of
        None \<Rightarrow> pid_map_loop ctx_done c (Suc k) ps m
      | Some name \<Rightarrow>
          if name = [] then pid_map_loop ctx_done c (Suc k) ps m
          else if is_watched (wc_required_matcher c) name \<or> is_watched (wc_forbidden_matcher c) name
          then pid_map_loop ctx_done c (Suc k) ps (AList.update name (ws_pid p) m)
          else pid_map_loop ctx_done c (Suc k) ps m)"

definition matches_config_name :: "string \<Rightarrow> string \<Rightarrow> process_matcher \<Rightarrow> bool" where
  "matches_config_name config_name running_name m = same_name (pmt_case_insensitive m) config_name running_name"

text \<open>\<open>findPID\<close>; \<open>pid_map\<close> is listed in the order the iteration visits it.\<close>

definition find_pid :: "(string \<times> int) list \<Rightarrow> string \<Rightarrow> process_matcher \<Rightarrow> int \<times> bool" where
  "find_pid pid_map config_name m =
     (case List.find (\<lambda>(name, pid). is_watched m name \<and> matches_config_name config_name name m) pid_map of
        Some (name, pid) \<Rightarrow> (pid, True)
      | None \<Rightarrow> (0, False))"

definition watch_status :: "(string \<times> int) list \<Rightarrow> process_matcher \<Rightarrow> string \<Rightarrow> string \<Rightarrow> process_watch_status" where
  "watch_status pid_map m typ name =
     (let (pid, running) = find_pid pid_map name m in
      \<lparr>pw_name = name, pw_pid = pid, pw_running = running, pw_type = typ\<rparr>)"

definition collect_process_watch ::
  "((string \<times> int) list \<Rightarrow> (string \<times> int) list) \<Rightarrow> watch_sample list option \<Rightarrow> (nat \<Rightarrow> bool) \<Rightarrow> gotime \<Rightarrow>
     watch_collector \<Rightarrow> collect_error + metric_data option" where
  "collect_process_watch visit procs ctx_done now c =
     (if \<not> has_watch_list (wc_required_matcher c) \<and> \<not> has_watch_list (wc_forbidden_matcher c) then Inr None
      else case procs of
        None \<Rightarrow> Inl Probe_Failed
      | Some ps \<Rightarrow>
          bind_result (pid_map_loop ctx_done c 0 ps []) (\<lambda>m.
            Inr (Some (make_metric c now (P_ProcessWatch \<lparr>pwd_statuses =
              map (watch_status (visit m) (wc_required_matcher c) ''required'') (wc_required c) @
              map (watch_status (visit m) (wc_forbidden_matcher c) ''forbidden'') (wc_forbidden c)\<rparr>)))))"

section \<open>The comparisons\<close>

interpretation cpu_order: strict_weak cpu_less "\<lambda>q. cq_percent q \<noteq> F64_NaN"
  by unfold_locales (auto simp: cpu_less_def intro: f64_less_trans dest: f64_less_cotrans)

interpretation memory_order: strict_weak memory_less "\<lambda>q. mq_percent q \<noteq> F64_NaN"
  by unfold_locales (auto simp: memory_less_def intro: f64_less_trans dest: f64_less_cotrans)

section \<open>The first pass as a selection\<close>

definition cpu_candidates :: "f64 \<Rightarrow> process_matcher \<Rightarrow> cpu_sample list \<Rightarrow> cpu_quick list" where
  "cpu_candidates num_cpu m ps = List.map_filter (cpu_candidate num_cpu m) ps"

lemma cpu_first_pass_fold:
  "\<forall>k. \<not> ctx_done k \<Longrightarrow> cpu_first_pass ctx_done num_cpu (Some m) n k ps s =
     Inr (fold (select_step cpu_less cq_watched n) (cpu_candidates num_cpu m ps) s)"
proof (induction ps arbitrary: k s)
  case Nil
  then show ?case by (simp add: cpu_candidates_def)
next
  case (Cons p ps)
  then show ?case
    by (cases "cs_percent p") (auto simp: cpu_candidates_def cpu_candidate_def map_filter_simps)
qed

definition memory_candidates :: "process_matcher \<Rightarrow> memory_sample list \<Rightarrow> memory_quick list" where
  "memory_candidates m ps = List.map_filter (memory_candidate m) ps"

lemma memory_first_pass_fold:
  "\<forall>k. \<not> ctx_done k \<Longrightarrow> memory_first_pass ctx_done (Some m) n k ps s =
     Inr (fold (select_step memory_less mq_watched n) (memory_candidates m ps) s)"
proof (induction ps arbitrary: k s)
  case Nil
  then show ?case by (simp add: memory_candidates_def)
next
  case (Cons p ps)
  note ih = Cons.IH [OF Cons.prems, unfolded memory_candidates_def]
  have "\<not> ctx_done k" using Cons.prems by blast
  then show ?case
    by (cases "mp_info p"; cases "mp_percent p")
      (auto simp: ih memory_candidates_def memory_candidate_def map_filter_simps split: prod.splits)
qed

section \<open>What runs\<close>

definition running_names :: "watch_sample list \<Rightarrow> string set" where
  "running_names ps = {n. n \<noteq> [] \<and> (\<exists>p \<in> set ps. ws_name p = Some n)}"

lemma running_names_Cons:
  "running_names (p # ps) = (case ws_name p of None \<Rightarrow> {} | Some n \<Rightarrow> if n = [] then {} else {n}) \<union> running_names ps"
  by (auto simp: running_names_def split: option.splits)

definition noticed :: "watch_collector \<Rightarrow> string \<Rightarrow> bool" where
  "noticed c n = (is_watched (wc_required_matcher c) n \<or> is_watched (wc_forbidden_matcher c) n)"

lemma pid_map_loop_names:
  assumes "\<forall>k. \<not> ctx_done k"
  shows "\<exists>m'. pid_map_loop ctx_done c k ps m = Inr m' \<and>
    fst ` set m' = fst ` set m \<union> {n \<in> running_names ps. noticed c n}"
proof (induction ps arbitrary: k m)
  case Nil
  then show ?case by (simp add: running_names_def)
next
  case (Cons p ps)
  have skip: ?case if "pid_map_loop ctx_done c k (p # ps) m = pid_map_loop ctx_done c (Suc k) ps m"
    and "{n \<in> running_names (p # ps). noticed c n} = {n \<in> running_names ps. noticed c n}"
    using Cons.IH [of "Suc k" m] that by simp
  show ?case
  proof (cases "ws_name p")
    case None
    then show ?thesis using assms by (intro skip) (simp_all add: running_names_Cons)
  next
    case (Some n)
    show ?thesis
    proof (cases "n \<noteq> [] \<and> noticed c n")
      case False
      then show ?thesis
        using assms Some by (intro skip) (auto simp: running_names_Cons noticed_def)
    next
      case True
      then have "{x \<in> running_names (p # ps). noticed c x} = insert n {x \<in> running_names ps. noticed c x}"
        using Some by (auto simp: running_names_Cons)
      moreover have "pid_map_loop ctx_done c k (p # ps) m = pid_map_loop ctx_done c (Suc k) ps (AList.update n (ws_pid p) m)"
        using True Some assms by (simp add: noticed_def)
      moreover have "fst ` set (AList.update n (ws_pid p) m) = insert n (fst ` set m)"
        by (simp add: dom_update)
      ultimately show ?thesis using Cons.IH [of "Suc k" "AList.update n (ws_pid p) m"] by simp
    qed
  qed
qed

lemma find_pid_Cons:
  "find_pid ((n, pid) # pm) name m =
     (if is_watched m n \<and> matches_config_name name n m then (pid, True) else find_pid pm name m)"
  by (simp add: find_pid_def)

lemma find_pid_running:
  "snd (find_pid pm name m) \<longleftrightarrow> (\<exists>n \<in> fst ` set pm. is_watched m n \<and> matches_config_name name n m)"
proof (induction pm)
  case Nil
  then show ?case by (simp add: find_pid_def)
next
  case (Cons x pm)
  then show ?case by (cases x) (auto simp: find_pid_Cons)
qed

lemma find_pid_pid:
  "find_pid pm name m = (pid, True) \<Longrightarrow> \<exists>n. (n, pid) \<in> set pm \<and> matches_config_name name n m"
proof (induction pm)
  case Nil
  then show ?case by (simp add: find_pid_def)
next
  case (Cons x pm)
  then show ?case by (cases x) (auto simp: find_pid_Cons split: if_splits)
qed

section \<open>Properties\<close>

text \<open>
  What the property below relies on of \<open>sort.Slice\<close>: the result is a permutation of the argument.
\<close>

definition sorts :: "(('a \<Rightarrow> 'a \<Rightarrow> bool) \<Rightarrow> 'a list \<Rightarrow> 'a list) \<Rightarrow> bool" where
  "sorts sort_slice = (\<forall>lt xs. mset (sort_slice lt xs) = mset xs)"

lemma collect_cpu_process_eq:
  assumes "pl_warmed_up c" and "pl_matcher c = Some m" and "\<forall>k. \<not> ctx_done k"
    and "fold (select_step cpu_less cq_watched (pl_top_n c)) (cpu_candidates (pl_num_cpu c) m ps) ([], []) = (ws, h)"
  shows "collect_cpu_process sort_slice (Some ps) ctx_done now c =
    (c, Inr (Some (make_metric c now (P_CPUProcess \<lparr>pcd_processes =
       map cpu_detail (sort_slice (\<lambda>a b. cpu_less b a) ws) @ map cpu_detail (heap_drain cpu_less h [])\<rparr>))))"
  using cpu_first_pass_fold [OF assms(3), of "pl_num_cpu c" m "pl_top_n c" 0 ps "([], [])"]
  by (simp add: collect_cpu_process_def assms(1,2,4))


definition sample_process :: "int \<Rightarrow> string \<Rightarrow> int \<Rightarrow> cpu_sample" where
  "sample_process pid name pct =
     \<lparr>cs_pid = pid, cs_percent = Some (f64_of_int pct), cs_name = name, cs_username = [], cs_create_time = 0\<rparr>"

definition sample_collector :: "string list \<Rightarrow> int \<Rightarrow> process_collector" where
  "sample_collector names n =
     (configure_cpu_process False (base_default_config (new_cpu_process_collector 1))
       (new_cpu_process_collector 1))\<lparr>pl_top_n := n, pl_warmed_up := True,
         pl_matcher := Some (new_process_matcher False names)\<rparr>"


text \<open>In whatever order the processes are listed, the CPU collector reports every watched process exactly
  once, the others it reports are distinct unwatched processes of the list, and there are at most
  \<open>TopN\<close> of those.\<close>

theorem cpu_watched_always_reported:
  assumes "pl_warmed_up c" and "pl_matcher c = Some m" and "\<forall>k. \<not> ctx_done k" and "sorts sort_slice"
  shows "\<exists>watched others. collect_cpu_process sort_slice (Some ps) ctx_done now c =
      (c, Inr (Some (make_metric c now (P_CPUProcess \<lparr>pcd_processes = map cpu_detail watched @ map cpu_detail others\<rparr>)))) \<and>
    mset watched = mset (filter cq_watched (cpu_candidates (pl_num_cpu c) m ps)) \<and>
    mset others \<subseteq># mset (filter (\<lambda>q. \<not> cq_watched q) (cpu_candidates (pl_num_cpu c) m ps)) \<and>
    int (length others) \<le> max 0 (pl_top_n c)"
proof -
  obtain ws h where sel: "fold (select_step cpu_less cq_watched (pl_top_n c))
      (cpu_candidates (pl_num_cpu c) m ps) ([], []) = (ws, h)" by fastforce
  note gen = select_general [OF sel]
  have drain: "mset (heap_drain cpu_less h []) = mset h" using heap_drain_mset [of cpu_less h "[]"] by simp
  have len: "length (heap_drain cpu_less h []) = length h" by (metis drain size_mset)
  show ?thesis
    using collect_cpu_process_eq [OF assms(1-3) sel, of sort_slice now] gen drain len assms(4)
    by (intro exI [of _ "sort_slice (\<lambda>a b. cpu_less b a) ws"] exI [of _ "heap_drain cpu_less h []"])
      (simp add: sorts_def)
qed

theorem cpu_watched_always_reported_witness:
  "\<exists>watched. mset watched = mset (filter cq_watched (cpu_candidates (pl_num_cpu (sample_collector [''b''] 1))
       (new_process_matcher False [''b'']) [sample_process 1 ''a'' 5, sample_process 2 ''b'' 7]))"
proof -
  let ?c = "sample_collector [''b''] 1"
  have c: "pl_matcher ?c = Some (new_process_matcher False [''b''])" "pl_warmed_up ?c"
    by (simp_all add: sample_collector_def)
  from cpu_watched_always_reported [OF c(2,1), of "\<lambda>k. False" "\<lambda>lt xs. xs"
      "[sample_process 1 ''a'' 5, sample_process 2 ''b'' 7]" "\<lparr>unix_nanos = 0, zone_offset = 0\<rparr>"] show ?thesis
    by (auto simp: sorts_def)
qed

text \<open>The order matters to \<open>TopN\<close>: with \<open>TopN\<close> 1 and one watched process, a list that names it first gives
  one process and the same list the other way round gives two, because the heap is not shrunk when a
  watched process takes a place.\<close>

theorem watched_process_last_exceeds_top_n:
  "map pc_name (case snd (collect_cpu_process (\<lambda>lt xs. xs) (Some [sample_process 2 ''b'' 7, sample_process 1 ''a'' 5])
       (\<lambda>k. False) now (sample_collector [''b''] 1)) of Inr (Some md) \<Rightarrow>
         (case md_data md of P_CPUProcess d \<Rightarrow> pcd_processes d | _ \<Rightarrow> []) | _ \<Rightarrow> []) = [''b''] \<and>
   map pc_name (case snd (collect_cpu_process (\<lambda>lt xs. xs) (Some [sample_process 1 ''a'' 5, sample_process 2 ''b'' 7])
       (\<lambda>k. False) now (sample_collector [''b''] 1)) of Inr (Some md) \<Rightarrow>
         (case md_data md of P_CPUProcess d \<Rightarrow> pcd_processes d | _ \<Rightarrow> []) | _ \<Rightarrow> []) = [''b'', ''a'']"
proof -
  let ?c = "sample_collector [''b''] 1"
  have c: "pl_matcher ?c = Some (new_process_matcher False [''b''])" "pl_warmed_up ?c" "pl_top_n ?c = 1"
    "pl_num_cpu ?c = f64_of_int 1"
    by (simp_all add: sample_collector_def configure_cpu_process_def new_cpu_process_collector_def
        base_default_config_def configure_base_def Let_def)
  show ?thesis
    by (simp add: collect_cpu_process_def c cpu_candidate_def sample_process_def is_watched_iff same_name_def
        select_step_def select_heap_def heap_push_def heap_up.simps heap_drain.simps heap_pop_def
        heap_down.simps swap_at_def make_metric_def cpu_detail_def)
qed

text \<open>When the watched processes come first, or none is watched, the memory collector too reports all
  watched processes and exactly the heaviest of the others in the remaining places of \<open>TopN\<close>, in
  descending order.\<close>

theorem memory_top_processes:
  assumes "pl_matcher c = Some m" and "\<forall>k. \<not> ctx_done k"
    and "memory_candidates m ps = ws @ us"
    and "\<forall>q \<in> set ws. mq_watched q" and "\<forall>q \<in> set us. \<not> mq_watched q \<and> mq_percent q \<noteq> F64_NaN"
  shows "\<exists>top out. collect_memory_process sort_slice (Some ps) ctx_done now c =
      Inr (make_metric c now (P_MemoryProcess \<lparr>pmd_processes =
         map memory_detail (sort_slice (\<lambda>a b. memory_less b a) ws) @ map memory_detail top\<rparr>)) \<and>
    length top = min (nat (pl_top_n c - int (length ws))) (length us) \<and>
    mset us = mset top + mset out \<and>
    sorted_wrt (\<lambda>a b. \<not> memory_less a b) top \<and>
    list_all (\<lambda>a. list_all (\<lambda>b. \<not> memory_less a b) out) top"
proof -
  from memory_order.select_and_drain [OF assms(4,5), of "pl_top_n c"] obtain h out where
    h: "fold (select_step memory_less mq_watched (pl_top_n c)) (ws @ us) ([], []) = (ws, h)" and
    top: "length (heap_drain memory_less h []) = min (nat (pl_top_n c - int (length ws))) (length us) \<and>
      mset us = mset (heap_drain memory_less h []) + mset out \<and>
      sorted_wrt (\<lambda>a b. \<not> memory_less a b) (heap_drain memory_less h []) \<and>
      list_all (\<lambda>a. list_all (\<lambda>b. \<not> memory_less a b) out) (heap_drain memory_less h [])" by blast
  have "collect_memory_process sort_slice (Some ps) ctx_done now c =
      Inr (make_metric c now (P_MemoryProcess \<lparr>pmd_processes =
         map memory_detail (sort_slice (\<lambda>a b. memory_less b a) ws) @ map memory_detail (heap_drain memory_less h [])\<rparr>))"
    using memory_first_pass_fold [OF assms(2), of m "pl_top_n c" 0 ps "([], [])"] h
    by (simp add: collect_memory_process_def assms(1,3))
  then show ?thesis using top by blast
qed

text \<open>C34 The process watch tells the truth: after it is configured with required and forbidden names, a
  collection that is not interrupted gives one status per configured name, required ones first and
  each in the configured order, and a name is reported running exactly when some process of that name
  (ignoring case on Windows) runs.\<close>

theorem process_watch_exact:
  assumes "c = configure_process_watch windows cfg c0" and "\<forall>k. \<not> ctx_done k"
    and "\<forall>m. set (visit m) = set m"
    and "cc_required_processes cfg \<noteq> [] \<or> cc_forbidden_processes cfg \<noteq> []"
  shows "\<exists>statuses. collect_process_watch visit (Some ps) ctx_done now c =
      Inr (Some (make_metric c now (P_ProcessWatch \<lparr>pwd_statuses = statuses\<rparr>))) \<and>
    map (\<lambda>s. (pw_type s, pw_name s, pw_running s)) statuses =
      map (\<lambda>n. (''required'', n, \<exists>r \<in> running_names ps. same_name windows n r)) (cc_required_processes cfg) @
      map (\<lambda>n. (''forbidden'', n, \<exists>r \<in> running_names ps. same_name windows n r)) (cc_forbidden_processes cfg)"
proof -
  obtain pm where pm: "pid_map_loop ctx_done c 0 ps [] = Inr pm"
      "fst ` set pm = {n \<in> running_names ps. noticed c n}"
    using pid_map_loop_names [OF assms(2), of c 0 ps "[]"] by auto
  have fields: "wc_required c = cc_required_processes cfg" "wc_forbidden c = cc_forbidden_processes cfg"
    "wc_required_matcher c = new_process_matcher windows (cc_required_processes cfg)"
    "wc_forbidden_matcher c = new_process_matcher windows (cc_forbidden_processes cfg)"
    by (simp_all add: assms(1) configure_process_watch_def)
  have run: "snd (find_pid (visit pm) n (new_process_matcher windows names)) \<longleftrightarrow>
      (\<exists>r \<in> running_names ps. same_name windows n r)"
    if "n \<in> set names" "names = cc_required_processes cfg \<or> names = cc_forbidden_processes cfg" for n names
  proof -
    have ci: "pmt_case_insensitive (new_process_matcher windows names) = windows"
      by (simp add: new_process_matcher_def)
    have "fst ` set (visit pm) = {n \<in> running_names ps. noticed c n}" using assms(3) pm(2) by simp
    then have "snd (find_pid (visit pm) n (new_process_matcher windows names)) \<longleftrightarrow>
        (\<exists>r \<in> running_names ps. noticed c r \<and> is_watched (new_process_matcher windows names) r \<and> same_name windows n r)"
      unfolding find_pid_running matches_config_name_def ci by auto
    moreover have "is_watched (new_process_matcher windows names) r \<and> noticed c r" if "same_name windows n r" for r
      using that \<open>n \<in> set names\<close> \<open>names = _ \<or> _\<close> by (auto simp: noticed_def fields is_watched_iff)
    ultimately show ?thesis by blast
  qed
  have "has_watch_list (wc_required_matcher c) \<or> has_watch_list (wc_forbidden_matcher c)"
    using assms(4) by (simp add: fields has_watch_list_iff)
  then have "collect_process_watch visit (Some ps) ctx_done now c =
      Inr (Some (make_metric c now (P_ProcessWatch \<lparr>pwd_statuses =
        map (watch_status (visit pm) (wc_required_matcher c) ''required'') (wc_required c) @
        map (watch_status (visit pm) (wc_forbidden_matcher c) ''forbidden'') (wc_forbidden c)\<rparr>)))"
    using pm(1) by (auto simp: collect_process_watch_def)
  then show ?thesis using run by (auto simp: fields watch_status_def split_def Let_def)
qed

definition sample_watch_config :: collector_config where
  "sample_watch_config =
     \<lparr>cc_enabled = True, cc_interval = 0, cc_top_n = 0, cc_disks = [], cc_interfaces = [], cc_include_zones = [],
      cc_watch_processes = [], cc_required_processes = [''Edge''], cc_forbidden_processes = [''x'']\<rparr>"

theorem process_watch_exact_witness:
  "\<exists>md. collect_process_watch (\<lambda>m. m) (Some [\<lparr>ws_pid = 4, ws_name = Some ''EDGE''\<rparr>]) (\<lambda>k. False) \<lparr>unix_nanos = 0, zone_offset = 0\<rparr>
       (configure_process_watch True sample_watch_config (new_process_watch_collector True)) = Inr (Some md) \<and>
     (case md_data md of P_ProcessWatch d \<Rightarrow> map pw_running (pwd_statuses d) | _ \<Rightarrow> []) = [True, False]"
proof -
  let ?ps = "[\<lparr>ws_pid = 4, ws_name = Some ''EDGE''\<rparr>]"
  have names: "running_names ?ps = {''EDGE''}" by (auto simp: running_names_def)
  have same: "same_name True ''Edge'' ''EDGE''" "\<not> same_name True ''x'' ''EDGE''"
    by code_simp+
  obtain ss where ss: "collect_process_watch (\<lambda>m. m) (Some ?ps) (\<lambda>k. False) \<lparr>unix_nanos = 0, zone_offset = 0\<rparr>
        (configure_process_watch True sample_watch_config (new_process_watch_collector True)) =
      Inr (Some (make_metric (configure_process_watch True sample_watch_config (new_process_watch_collector True)) \<lparr>unix_nanos = 0, zone_offset = 0\<rparr>
        (P_ProcessWatch \<lparr>pwd_statuses = ss\<rparr>)))"
      "map (\<lambda>s. (pw_type s, pw_name s, pw_running s)) ss = [(''required'', ''Edge'', True), (''forbidden'', ''x'', False)]"
    using process_watch_exact [OF refl, of "\<lambda>k. False" "\<lambda>m. m" sample_watch_config ?ps "\<lparr>unix_nanos = 0, zone_offset = 0\<rparr>" True
        "new_process_watch_collector True"]
    by (auto simp: names same sample_watch_config_def)
  have "map pw_running ss = map (snd \<circ> snd) (map (\<lambda>s. (pw_type s, pw_name s, pw_running s)) ss)"
    by (simp add: comp_def)
  then have "map pw_running ss = [True, False]" unfolding ss(2) by simp
  with ss(1) show ?thesis by (simp add: make_metric_def)
qed

end
