(* ===== verification/FloatFormat.thy ===== *)
theory FloatFormat
  imports Float64
begin

text \<open>
  \<open>strconv.FormatFloat(v, 'f', -1, 64)\<close>: the shortest decimal that reads back as the same
  float64, written without an exponent.  The search follows the definition of the Go function:
  for one digit, two digits, and so on, the decimals just below and just above the value are
  tried, and the nearer one is taken when both read back.  Main fact: reading the text gives the
  value again (\<open>f64_parse_format\<close>), for every value float64 arithmetic can produce.
\<close>

section \<open>Definitions\<close>

text \<open>The number of digits before the decimal point, zero or negative below one.\<close>

fun frac_exp :: "nat \<Rightarrow> rat \<Rightarrow> int" where
  "frac_exp 0 m = 0"
| "frac_exp (Suc f) m = (if 1 / 10 \<le> m then 0 else frac_exp f (10 * m) - 1)"

definition dec_exp :: "rat \<Rightarrow> int" where
  "dec_exp m = (if 1 \<le> m then int (length (dec_digits \<lfloor>m\<rfloor>)) else frac_exp 400 m)"

text \<open>The digits \<open>d\<close> and the exponent \<open>p\<close> of the shortest decimal \<open>d * 10 ^ p\<close>.\<close>

definition carry_digit :: "int \<Rightarrow> int \<Rightarrow> int \<times> int" where
  "carry_digit hi p = (if hi = 10 then (1, p + 1) else (hi, p))"

fun shortest_dec :: "nat \<Rightarrow> rat \<Rightarrow> int \<Rightarrow> int \<times> int" where
  "shortest_dec 0 m p = (\<lfloor>m / 10 powi p\<rfloor>, p)"
| "shortest_dec (Suc f) m p =
     (let x = m / 10 powi p; lo = \<lfloor>x\<rfloor>; d = x - of_int lo;
          down = (f64_round_mag (of_int lo * 10 powi p) = m);
          up = (f64_round_mag (of_int (lo + 1) * 10 powi p) = m)
      in if down \<and> (\<not> up \<or> d < 1 / 2 \<or> (d = 1 / 2 \<and> even lo)) then (lo, p)
         else if up then carry_digit (lo + 1) p
         else shortest_dec f m (p - 1))"

definition dec_string :: "int \<Rightarrow> int \<Rightarrow> string" where
  "dec_string d p =
     (if 0 \<le> p then dec_digits d @ replicate (nat p) CHR ''0''
      else let n = nat (- p); ds = dec_digits d;
               ps = replicate (n + 1 - length ds) CHR ''0'' @ ds
           in take (length ps - n) ps @ CHR ''.'' # drop (length ps - n) ps)"

definition mag_string :: "rat \<Rightarrow> string" where
  "mag_string m =
     (if m = 0 then ''0''
      else let (d, p) = shortest_dec 1500 m (dec_exp m - 1) in dec_string d p)"

fun f64_format :: "f64 \<Rightarrow> string" where
  "f64_format F64_NaN = ''NaN''"
| "f64_format (F64_Inf s) = (if s then ''-Inf'' else ''+Inf'')"
| "f64_format (F64 s m) = (if s then ''-'' else '''') @ mag_string m"

text \<open>The reading the round trip is stated with.\<close>

definition parse_dec :: "string \<Rightarrow> rat" where
  "parse_dec s =
     (case split_on CHR ''.'' s of
        [a, b] \<Rightarrow> of_int (digits_value (a @ b)) / 10 ^ length b
      | _ \<Rightarrow> of_int (digits_value s))"

definition f64_parse :: "string \<Rightarrow> f64" where
  "f64_parse s =
     (if s = ''NaN'' then F64_NaN
      else if s = ''+Inf'' then F64_Inf False
      else if s = ''-Inf'' then F64_Inf True
      else if take 1 s = ''-'' then f64_of_mag True (parse_dec (drop 1 s))
      else f64_of_mag False (parse_dec s))"

section \<open>The values float64 can hold\<close>

definition f64_exact :: "rat \<Rightarrow> bool" where
  "f64_exact m \<longleftrightarrow> m < f64_limit \<and>
     (\<exists>n q. 0 \<le> n \<and> n \<le> 2 ^ 53 \<and> - 1074 \<le> q \<and> m = of_int n * 2 powi q)"

definition f64_ok :: "f64 \<Rightarrow> bool" where
  "f64_ok v = (case v of F64 s m \<Rightarrow> f64_exact m | _ \<Rightarrow> True)"

lemma f64_exact_nonneg: "f64_exact m \<Longrightarrow> 0 \<le> m"
  by (auto simp: f64_exact_def)

lemma f64_exact_round: "f64_exact m \<Longrightarrow> f64_round_mag m = m"
  by (auto simp: f64_exact_def f64_round_mag_exact)

lemma round_even_bounds: "of_int (round_even x) \<le> x + 1 / 2" and "x - 1 / 2 \<le> of_int (round_even x)"
proof -
  define f where "f = \<lfloor>x\<rfloor>"
  have "of_int f \<le> x" and "x < of_int f + 1"
    using floor_correct [of x] by (auto simp: f_def)
  then show "of_int (round_even x) \<le> x + 1 / 2" and "x - 1 / 2 \<le> of_int (round_even x)"
    by (auto simp: round_even_def Let_def simp flip: f_def)
qed

lemma round_even_nonneg: "0 \<le> x \<Longrightarrow> 0 \<le> round_even x"
  by (auto simp: round_even_def Let_def)

lemma f64_round_mag_form:
  assumes "0 \<le> m"
  shows "\<exists>n q. 0 \<le> n \<and> n \<le> 2 ^ 53 \<and> - 1074 \<le> q \<and> f64_round_mag m = of_int n * 2 powi q"
proof (cases "m = 0")
  case True
  then show ?thesis by (intro exI [of _ 0]) (auto simp: f64_round_mag_def)
next
  case False
  with assms have m: "0 < m" by simp
  let ?q = "f64_quantum m"
  have q: "- 1074 \<le> ?q" and e: "ilog2 m + 1 \<le> ?q + 53" by (auto simp: f64_quantum_def)
  have "m < 2 powi (ilog2 m + 1)" by (rule ilog2_bounds(2) [OF m])
  also have "\<dots> \<le> 2 powi (?q + 53)" by (rule power_int_increasing [OF e]) simp_all
  also have "\<dots> = 2 powi ?q * 2 powi 53" by (rule power_int_add) simp
  finally have "m / 2 powi ?q < 2 ^ 53" by (simp add: field_simps)
  then have "(of_int (round_even (m / 2 powi ?q)) :: rat) < of_int (2 ^ 53 + 1)"
    using round_even_bounds(1) [of "m / 2 powi ?q"] by simp
  then have "round_even (m / 2 powi ?q) \<le> 2 ^ 53" by (simp only: of_int_less_iff)
  moreover have "0 \<le> round_even (m / 2 powi ?q)"
    by (rule round_even_nonneg) (use m in simp)
  moreover have "f64_round_mag m = of_int (round_even (m / 2 powi ?q)) * 2 powi ?q"
    using False by (simp add: f64_round_mag_def Let_def)
  ultimately show ?thesis using q by blast
qed

lemma f64_ok_of_mag [simp]: "0 \<le> m \<Longrightarrow> f64_ok (f64_of_mag s m)"
  using f64_round_mag_form [of m] by (auto simp: f64_of_mag_def f64_ok_def f64_exact_def Let_def)

lemma f64_ok_of_rat [simp]: "f64_ok (f64_of_rat s x)"
proof (cases "x = 0")
  case True
  have "f64_exact 0"
    by (auto simp: f64_exact_def f64_limit_def intro!: exI [of _ 0])
  with True show ?thesis by (simp add: f64_of_rat_def f64_ok_def)
qed (simp add: f64_of_rat_def)

lemma f64_ok_of_int [simp]: "f64_ok (f64_of_int i)"
  by (simp add: f64_of_int_def)

lemma f64_ok_add [simp]: "f64_ok a \<Longrightarrow> f64_ok b \<Longrightarrow> f64_ok (f64_add a b)"
  by (cases "(a, b)" rule: f64_add.cases) (auto simp: f64_ok_def [of F64_NaN] f64_ok_def [of "F64_Inf _"])

lemma f64_ok_uminus [simp]: "f64_ok (f64_uminus a) = f64_ok a"
  by (cases a) (auto simp: f64_ok_def)

lemma f64_ok_sub [simp]: "f64_ok a \<Longrightarrow> f64_ok b \<Longrightarrow> f64_ok (f64_sub a b)"
  by (simp add: f64_sub_def)

section \<open>Decimal texts read back\<close>

lemma split_on_digits: "list_all is_digit s \<Longrightarrow> split_on CHR ''.'' s = [s]"
  by (rule split_on_no_sep) (auto simp: list_all_iff)

lemma parse_dec_string:
  assumes "0 \<le> d"
  shows "parse_dec (dec_string d p) = of_int d * 10 powi p"
proof (cases "0 \<le> p")
  case True
  then have "split_on CHR ''.'' (dec_string d p) = [dec_string d p]"
    by (intro split_on_digits) (use assms in \<open>auto simp: dec_string_def list_all_iff
        dest: dec_digits_set\<close>)
  with True assms show ?thesis
    by (simp add: parse_dec_def dec_string_def digits_value_app power_int_def)
next
  case False
  define n ds where "n = nat (- p)" and "ds = dec_digits d"
  define ps where "ps = replicate (n + 1 - length ds) CHR ''0'' @ ds"
  let ?a = "take (length ps - n) ps" and ?b = "drop (length ps - n) ps"
  have ds: "dec_string d p = ?a @ CHR ''.'' # ?b"
    using False by (simp add: dec_string_def n_def ds_def ps_def Let_def)
  have dig: "CHR ''.'' \<notin> set ps"
    using assms by (auto simp: ps_def ds_def dest: dec_digits_set)
  then have ab: "CHR ''.'' \<notin> set ?a" "CHR ''.'' \<notin> set ?b"
    by (meson in_set_takeD in_set_dropD)+
  have "split_on CHR ''.'' (dec_string d p) = [?a, ?b]"
    unfolding ds using ab by (simp add: split_on_append split_on_no_sep)
  then have "parse_dec (dec_string d p) = of_int (digits_value ps) / 10 ^ length ?b"
    by (simp add: parse_dec_def)
  also have "digits_value ps = d"
    using assms by (simp add: ps_def ds_def digits_value_app)
  also have "length ?b = n"
    by (auto simp: ps_def)
  finally show ?thesis
    using False by (simp add: n_def power_int_def field_simps)
qed

lemma dec_string_nonempty [simp]: "dec_string d p \<noteq> []"
  by (auto simp: dec_string_def Let_def)

lemma dec_string_chars: "c \<in> set (dec_string d p) \<Longrightarrow> is_digit c \<or> c = CHR ''.''"
  by (auto simp: dec_string_def Let_def dest!: in_set_takeD in_set_dropD dec_digits_set
      split: if_splits)

section \<open>The shortest decimal reads back\<close>

text \<open>
  If some \<open>k\<close> digits further down the value is a whole multiple of the power of ten, the search
  ends there at the latest, and whatever it returns reads back as the value.
\<close>

lemma shortest_dec_reads_back:
  assumes "f64_round_mag m = m" and "0 \<le> m" and "k \<le> f"
    and "m = of_int z * 10 powi (p - int k)"
  shows "f64_round_mag (of_int (fst (shortest_dec f m p)) * 10 powi snd (shortest_dec f m p)) = m"
  using assms(3,4)
proof (induction f arbitrary: p k)
  case 0
  then have "m / 10 powi p = of_int z" by simp
  moreover from this have "0 \<le> z"
    using assms(2) by (metis divide_nonneg_pos of_int_0_le_iff zero_less_numeral zero_less_power_int)
  ultimately show ?case using assms(1) 0 by simp
next
  case (Suc f)
  let ?x = "m / 10 powi p"
  let ?lo = "\<lfloor>?x\<rfloor>"
  let ?down = "f64_round_mag (of_int ?lo * 10 powi p) = m"
  let ?up = "f64_round_mag (of_int (?lo + 1) * 10 powi p) = m"
  have x0: "0 \<le> ?x" using assms(2) by simp
  then have lo0: "0 \<le> ?lo" by simp
  show ?case
  proof (cases "?down \<or> ?up")
    case True
    have carry: "of_int (fst (carry_digit (?lo + 1) p)) * (10::rat) powi snd (carry_digit (?lo + 1) p)
        = of_int (?lo + 1) * 10 powi p"
      using lo0 by (auto simp: carry_digit_def power_int_add)
    show ?thesis
      using True lo0 carry by (auto simp: Let_def)
  next
    case False
    have "k \<noteq> 0"
    proof
      assume "k = 0"
      with Suc.prems have "?x = of_int z" by simp
      with False Suc.prems \<open>k = 0\<close> assms(1) show False by simp
    qed
    then obtain k' where k': "k = Suc k'" by (cases k) auto
    have "f64_round_mag (of_int (fst (shortest_dec f m (p - 1))) * 10 powi snd (shortest_dec f m (p - 1))) = m"
      by (rule Suc.IH [of k']) (use Suc.prems k' in \<open>auto simp: algebra_simps\<close>)
    with False show ?thesis by (simp add: Let_def)
  qed
qed

lemma int_multiple_of_power_ten:
  assumes "0 \<le> n" and "j \<le> q" and "j \<le> 0"
  shows "\<exists>z. of_int n * (2::rat) powi q = of_int z * 10 powi j"
proof -
  have ten: "(10::rat) powi j = 2 powi j * 5 powi j"
    by (simp flip: power_int_mult_distrib)
  have five: "(5::rat) powi (- j) * 5 powi j = 1"
    by (simp flip: power_int_add)
  have two: "(2::rat) powi (q - j) * 2 powi j = 2 powi q"
    by (simp flip: power_int_add)
  have "of_int (n * 2 ^ nat (q - j) * 5 ^ nat (- j)) = of_int n * (2::rat) powi (q - j) * 5 powi (- j)"
    using assms by (simp add: power_int_def)
  then have "of_int (n * 2 ^ nat (q - j) * 5 ^ nat (- j)) * (10::rat) powi j
      = of_int n * (2 powi (q - j) * 2 powi j) * (5 powi (- j) * 5 powi j)"
    by (simp only: ten mult_ac)
  also have "\<dots> = of_int n * 2 powi q"
    by (simp only: two five mult_1_right)
  finally show ?thesis by metis
qed

lemma frac_exp_nonpos: "frac_exp f m \<le> 0"
proof (induction f arbitrary: m)
  case (Suc f)
  show ?case using Suc.IH [of "10 * m"] by simp
qed simp

lemma dec_exp_le: "m < f64_limit \<Longrightarrow> dec_exp m \<le> 309"
proof (cases "1 \<le> m")
  case True
  assume "m < f64_limit"
  then have "m < of_int (2 ^ 1024)" by (simp add: f64_limit_def)
  then have "\<lfloor>m\<rfloor> < 2 ^ 1024" by (simp only: floor_less_iff)
  also have "(2::int) ^ 1024 < 10 ^ 309" by simp
  finally have "\<lfloor>m\<rfloor> < 10 ^ 309" .
  then have "length (dec_digits \<lfloor>m\<rfloor>) \<le> 309" by (rule length_dec_digits) simp
  with True show ?thesis by (simp add: dec_exp_def)
next
  case False
  then show ?thesis using frac_exp_nonpos [of 400 m] by (simp add: dec_exp_def)
qed

lemma shortest_dec_nonneg: "0 \<le> m \<Longrightarrow> 0 \<le> fst (shortest_dec f m p)"
  by (induction f arbitrary: p) (auto simp: Let_def carry_digit_def add_nonneg_nonneg)

lemma mag_string_reads_back:
  assumes "f64_exact m"
  shows "f64_round_mag (parse_dec (mag_string m)) = m"
proof (cases "m = 0")
  case True
  then show ?thesis
    by (simp add: mag_string_def parse_dec_def digits_value_def f64_round_mag_def)
next
  case False
  from assms obtain n q where nq: "0 \<le> n" "- 1074 \<le> q" "m = of_int n * 2 powi q"
    by (auto simp: f64_exact_def)
  define p where "p = dec_exp m - 1"
  define j where "j = min p (min q 0)"
  define k where "k = nat (p - j)"
  have p: "p \<le> 308" using assms dec_exp_le [of m] by (simp add: p_def f64_exact_def)
  have k: "k \<le> 1500" and pk: "p - int k = j"
    using p nq(2) by (auto simp: k_def j_def)
  have "j \<le> q" and "j \<le> 0" by (simp_all add: j_def)
  then obtain z where "m = of_int z * 10 powi j"
    using int_multiple_of_power_ten [OF nq(1)] nq(3) by blast
  then have "f64_round_mag (of_int (fst (shortest_dec 1500 m p)) * 10 powi snd (shortest_dec 1500 m p)) = m"
    using assms k by (intro shortest_dec_reads_back [where k = k and z = z])
      (simp_all add: f64_exact_round f64_exact_nonneg pk)
  with False show ?thesis
    using assms by (simp add: mag_string_def parse_dec_string split_beta shortest_dec_nonneg
        f64_exact_nonneg flip: p_def)
qed

lemma mag_string_chars: "c \<in> set (mag_string m) \<Longrightarrow> is_digit c \<or> c = CHR ''.''"
  by (auto simp: mag_string_def split_beta dest!: dec_string_chars split: if_splits)

lemma mag_string_nonempty [simp]: "mag_string m \<noteq> []"
  by (simp add: mag_string_def split_beta)

text \<open>No formatted magnitude starts like a sign or a special value.\<close>

lemma mag_string_first: "hd (mag_string m) \<noteq> CHR ''-'' \<and> hd (mag_string m) \<noteq> CHR ''+''
    \<and> hd (mag_string m) \<noteq> CHR ''N''"
  using mag_string_chars [OF hd_in_set [OF mag_string_nonempty, of m]]
  by (auto simp: is_digit_def)

lemma f64_parse_format:
  assumes "f64_ok v"
  shows "f64_parse (f64_format v) = v"
proof (cases v)
  case (F64 s m)
  then have ex: "f64_exact m" using assms by (simp add: f64_ok_def)
  obtain c cs where c: "mag_string m = c # cs"
    by (meson list.exhaust mag_string_nonempty)
  have first: "c \<noteq> CHR ''-''" "c \<noteq> CHR ''+''" "c \<noteq> CHR ''N''"
    using mag_string_first [of m] by (simp_all add: c)
  have "c \<noteq> CHR ''I''"
    using mag_string_chars [of c m] by (auto simp: c is_digit_def)
  moreover have "f64_of_mag s (parse_dec (mag_string m)) = F64 s m"
    using ex by (simp add: f64_of_mag_def Let_def mag_string_reads_back f64_exact_def)
  ultimately show ?thesis
    using first by (auto simp: F64 f64_parse_def c)
qed (auto simp: f64_parse_def)

lemma f64_format_chars:
  "c \<in> set (f64_format v) \<Longrightarrow> is_digit c \<or> c \<in> set ''-+.NaInf''"
  by (cases v) (auto dest!: mag_string_chars split: if_splits)

lemma f64_format_no_comma [simp]: "CHR '','' \<notin> set (f64_format v)"
  by (auto dest!: f64_format_chars simp: is_digit_def)

end
