(* ===== verification/Ears.thy ===== *)
theory Ears
  imports Types Sanitize FloatFormat StorageHealth
begin

text \<open>
  \<open>internal/sender/grokformat.go\<close>: a \<open>MetricData\<close> is turned into EARS rows, one per measurement, and a
  row into the plain text of the Grok pipeline or the \<open>ParsedDataList\<close> of the JSON pipeline.
  The decoders of \<open>json_decoders\<close> stand for the reflective round trip through \<open>encoding/json\<close> that
  \<open>unmarshalData\<close> falls back to when the dynamic type of the payload is another one.
\<close>

section \<open>Rows\<close>

record ears_row =
  er_timestamp :: gotime
  er_category :: string
  er_pid :: int
  er_proc_name :: string
  er_metric :: string
  er_value :: f64

definition to_grok_string :: "ears_row \<Rightarrow> string" where
  "to_grok_string r =
     format_grok_timestamp (er_timestamp r) @
     '' category:'' @ er_category r @
     '',pid:'' @ itoa (er_pid r) @
     '',proc:'' @ sanitize_name (er_proc_name r) @
     '',metric:'' @ sanitize_name (er_metric r) @
     '',value:'' @ f64_format (er_value r)"

record parsed_data =
  pd_field :: string
  pd_value :: string
  pd_data_format :: string

record parsed_data_list =
  pdl_iso_timestamp :: string
  pdl_parsed :: "parsed_data list"

definition to_parsed_data :: "ears_row \<Rightarrow> string \<Rightarrow> parsed_data_list" where
  "to_parsed_data r process =
     \<lparr>pdl_iso_timestamp = format_json_timestamp (er_timestamp r),
      pdl_parsed =
       [\<lparr>pd_field = ''EARS_PROCESS'', pd_value = process, pd_data_format = ''String''\<rparr>,
        \<lparr>pd_field = ''EARS_CATEGORY'', pd_value = er_category r, pd_data_format = ''String''\<rparr>,
        \<lparr>pd_field = ''EARS_PID'', pd_value = itoa (er_pid r), pd_data_format = ''Integer''\<rparr>,
        \<lparr>pd_field = ''EARS_PROCNAME'', pd_value = sanitize_name (er_proc_name r), pd_data_format = ''String''\<rparr>,
        \<lparr>pd_field = ''EARS_METRIC'', pd_value = sanitize_name (er_metric r), pd_data_format = ''String''\<rparr>,
        \<lparr>pd_field = ''EARS_VALUE'', pd_value = f64_format (er_value r), pd_data_format = ''Double''\<rparr>]\<rparr>"

definition system_row :: "gotime \<Rightarrow> string \<Rightarrow> string \<Rightarrow> f64 \<Rightarrow> ears_row" where
  "system_row ts category metric v =
     \<lparr>er_timestamp = ts, er_category = category, er_pid = 0, er_proc_name = ''@system'',
      er_metric = metric, er_value = v\<rparr>"

section \<open>Payload access\<close>

record json_decoders =
  jd_cpu :: "payload \<Rightarrow> cpu_data option"
  jd_memory :: "payload \<Rightarrow> memory_data option"
  jd_disk :: "payload \<Rightarrow> disk_data option"
  jd_network :: "payload \<Rightarrow> network_data option"
  jd_cpu_process :: "payload \<Rightarrow> process_cpu_data option"
  jd_memory_process :: "payload \<Rightarrow> process_memory_data option"
  jd_temperature :: "payload \<Rightarrow> temperature_data option"
  jd_gpu :: "payload \<Rightarrow> gpu_data option"
  jd_fan :: "payload \<Rightarrow> fan_data option"
  jd_voltage :: "payload \<Rightarrow> voltage_data option"
  jd_motherboard_temp :: "payload \<Rightarrow> motherboard_temp_data option"
  jd_storage_smart :: "payload \<Rightarrow> storage_smart_data option"
  jd_storage_health :: "payload \<Rightarrow> storage_health_data option"
  jd_uptime :: "payload \<Rightarrow> uptime_data option"
  jd_process_watch :: "payload \<Rightarrow> process_watch_data option"
  jd_self_metrics :: "payload \<Rightarrow> self_metrics_data option"

text \<open>\<open>unmarshalData\<close>: the type assertion (by pointer or by value), else the JSON round trip.\<close>

definition unmarshal_data :: "(payload \<Rightarrow> 'a option) \<Rightarrow> (payload \<Rightarrow> 'a option) \<Rightarrow> payload \<Rightarrow> 'a option" where
  "unmarshal_data assertion via_json data =
     (case assertion data of Some v \<Rightarrow> Some v | None \<Rightarrow> via_json data)"

definition rows_of :: "(payload \<Rightarrow> 'a option) \<Rightarrow> (payload \<Rightarrow> 'a option) \<Rightarrow> payload \<Rightarrow>
    ('a \<Rightarrow> ears_row list) \<Rightarrow> ears_row list" where
  "rows_of assertion via_json data f =
     (case unmarshal_data assertion via_json data of None \<Rightarrow> [] | Some d \<Rightarrow> f d)"

definition f64_of_u64 :: "64 word \<Rightarrow> f64" where
  "f64_of_u64 w = f64_of_int (uint w)"

definition f64_of_u32 :: "32 word \<Rightarrow> f64" where
  "f64_of_u32 w = f64_of_int (uint w)"

section \<open>One conversion per metric type\<close>

definition convert_cpu :: "json_decoders \<Rightarrow> metric_data \<Rightarrow> ears_row list" where
  "convert_cpu jd data =
     rows_of (\<lambda>p. case p of P_CPU d \<Rightarrow> Some d | _ \<Rightarrow> None) (jd_cpu jd) (md_data data) (\<lambda>d.
       system_row (md_timestamp data) ''cpu'' ''total_used_pct'' (cpu_usage_percent d) #
       map (\<lambda>(i, pct). system_row (md_timestamp data) ''cpu'' (''core_'' @ itoa (int i) @ ''_used_pct'') pct)
         (enumerate 0 (cpu_per_core d)))"

definition convert_memory :: "json_decoders \<Rightarrow> metric_data \<Rightarrow> ears_row list" where
  "convert_memory jd data =
     rows_of (\<lambda>p. case p of P_Memory d \<Rightarrow> Some d | _ \<Rightarrow> None) (jd_memory jd) (md_data data) (\<lambda>d.
       [system_row (md_timestamp data) ''memory'' ''total_used_pct'' (mem_usage_percent d),
        system_row (md_timestamp data) ''memory'' ''total_free_pct''
          (f64_sub (f64_of_int 100) (mem_usage_percent d)),
        system_row (md_timestamp data) ''memory'' ''total_used_size'' (f64_of_u64 (mem_used_bytes d))])"

definition convert_disk :: "json_decoders \<Rightarrow> metric_data \<Rightarrow> ears_row list" where
  "convert_disk jd data =
     rows_of (\<lambda>p. case p of P_Disk d \<Rightarrow> Some d | _ \<Rightarrow> None) (jd_disk jd) (md_data data) (\<lambda>d.
       map (\<lambda>p. system_row (md_timestamp data) ''disk'' (dp_mountpoint p) (dp_usage_percent p))
         (disk_partitions d))"

definition convert_network :: "json_decoders \<Rightarrow> metric_data \<Rightarrow> ears_row list" where
  "convert_network jd data =
     rows_of (\<lambda>p. case p of P_Network d \<Rightarrow> Some d | _ \<Rightarrow> None) (jd_network jd) (md_data data) (\<lambda>d.
       [system_row (md_timestamp data) ''network'' ''all_inbound'' (f64_of_int (net_tcp_inbound_count d)),
        system_row (md_timestamp data) ''network'' ''all_outbound'' (f64_of_int (net_tcp_outbound_count d))] @
       concat (map (\<lambda>i.
         [\<lparr>er_timestamp = md_timestamp data, er_category = ''network'', er_pid = 0,
           er_proc_name = ni_name i, er_metric = ''recv_rate'', er_value = ni_bytes_recv_rate i\<rparr>,
          \<lparr>er_timestamp = md_timestamp data, er_category = ''network'', er_pid = 0,
           er_proc_name = ni_name i, er_metric = ''sent_rate'', er_value = ni_bytes_sent_rate i\<rparr>])
         (net_interfaces d)))"

definition convert_cpu_process :: "json_decoders \<Rightarrow> metric_data \<Rightarrow> ears_row list" where
  "convert_cpu_process jd data =
     rows_of (\<lambda>p. case p of P_CPUProcess d \<Rightarrow> Some d | _ \<Rightarrow> None) (jd_cpu_process jd) (md_data data) (\<lambda>d.
       map (\<lambda>p. \<lparr>er_timestamp = md_timestamp data, er_category = ''cpu'', er_pid = pc_pid p,
           er_proc_name = pc_name p, er_metric = ''used_pct'', er_value = pc_cpu_percent p\<rparr>)
         (pcd_processes d))"

definition convert_memory_process :: "json_decoders \<Rightarrow> metric_data \<Rightarrow> ears_row list" where
  "convert_memory_process jd data =
     rows_of (\<lambda>p. case p of P_MemoryProcess d \<Rightarrow> Some d | _ \<Rightarrow> None) (jd_memory_process jd) (md_data data) (\<lambda>d.
       concat (map (\<lambda>p.
         [\<lparr>er_timestamp = md_timestamp data, er_category = ''memory'', er_pid = pm_pid p,
           er_proc_name = pm_name p, er_metric = ''used'', er_value = f64_of_u64 (pm_rss p)\<rparr>,
          \<lparr>er_timestamp = md_timestamp data, er_category = ''memory'', er_pid = pm_pid p,
           er_proc_name = pm_name p, er_metric = ''used_pct'', er_value = pm_memory_percent p\<rparr>])
         (pmd_processes d)))"

definition convert_temperature :: "json_decoders \<Rightarrow> metric_data \<Rightarrow> ears_row list" where
  "convert_temperature jd data =
     rows_of (\<lambda>p. case p of P_Temperature d \<Rightarrow> Some d | _ \<Rightarrow> None) (jd_temperature jd) (md_data data) (\<lambda>d.
       map (\<lambda>s. system_row (md_timestamp data) ''temperature'' (ts_name s) (ts_temperature s))
         (temp_sensors d))"

text \<open>A row for a measurement behind a pointer, none when the pointer is nil.\<close>

definition opt_row :: "gotime \<Rightarrow> string \<Rightarrow> string \<Rightarrow> f64 option \<Rightarrow> ears_row list" where
  "opt_row ts category metric v =
     (case v of None \<Rightarrow> [] | Some x \<Rightarrow> [system_row ts category metric x])"

definition convert_gpu :: "json_decoders \<Rightarrow> metric_data \<Rightarrow> ears_row list" where
  "convert_gpu jd data =
     rows_of (\<lambda>p. case p of P_GPU d \<Rightarrow> Some d | _ \<Rightarrow> None) (jd_gpu jd) (md_data data) (\<lambda>d.
       concat (map (\<lambda>g.
         opt_row (md_timestamp data) ''gpu'' (gs_name g @ ''_temperature'') (gs_temperature g) @
         opt_row (md_timestamp data) ''gpu'' (gs_name g @ ''_core_load'') (gs_core_load g) @
         opt_row (md_timestamp data) ''gpu'' (gs_name g @ ''_memory_load'') (gs_memory_load g) @
         opt_row (md_timestamp data) ''gpu'' (gs_name g @ ''_fan_speed'') (gs_fan_speed g) @
         opt_row (md_timestamp data) ''gpu'' (gs_name g @ ''_power'') (gs_power g) @
         opt_row (md_timestamp data) ''gpu'' (gs_name g @ ''_core_clock'') (gs_core_clock g) @
         opt_row (md_timestamp data) ''gpu'' (gs_name g @ ''_memory_clock'') (gs_memory_clock g))
         (gpu_gpus d)))"

definition convert_fan :: "json_decoders \<Rightarrow> metric_data \<Rightarrow> ears_row list" where
  "convert_fan jd data =
     rows_of (\<lambda>p. case p of P_Fan d \<Rightarrow> Some d | _ \<Rightarrow> None) (jd_fan jd) (md_data data) (\<lambda>d.
       map (\<lambda>s. system_row (md_timestamp data) ''fan'' (fs_name s) (fs_rpm s)) (fan_sensors d))"

definition convert_voltage :: "json_decoders \<Rightarrow> metric_data \<Rightarrow> ears_row list" where
  "convert_voltage jd data =
     rows_of (\<lambda>p. case p of P_Voltage d \<Rightarrow> Some d | _ \<Rightarrow> None) (jd_voltage jd) (md_data data) (\<lambda>d.
       map (\<lambda>s. system_row (md_timestamp data) ''voltage'' (vs_name s) (vs_voltage s)) (volt_sensors d))"

definition convert_motherboard_temp :: "json_decoders \<Rightarrow> metric_data \<Rightarrow> ears_row list" where
  "convert_motherboard_temp jd data =
     rows_of (\<lambda>p. case p of P_MotherboardTemp d \<Rightarrow> Some d | _ \<Rightarrow> None) (jd_motherboard_temp jd) (md_data data) (\<lambda>d.
       map (\<lambda>s. system_row (md_timestamp data) ''motherboard_temp'' (ms_name s) (ms_temperature s))
         (mbt_sensors d))"

definition convert_storage_smart :: "json_decoders \<Rightarrow> metric_data \<Rightarrow> ears_row list" where
  "convert_storage_smart jd data =
     rows_of (\<lambda>p. case p of P_StorageSmart d \<Rightarrow> Some d | _ \<Rightarrow> None) (jd_storage_smart jd) (md_data data) (\<lambda>d.
       concat (map (\<lambda>s.
         opt_row (md_timestamp data) ''storage_smart'' (ss_name s @ ''_temperature'') (ss_temperature s) @
         opt_row (md_timestamp data) ''storage_smart'' (ss_name s @ ''_remaining_life'') (ss_remaining_life s) @
         opt_row (md_timestamp data) ''storage_smart'' (ss_name s @ ''_media_errors'')
           (map_option f64_of_int (ss_media_errors s)) @
         opt_row (md_timestamp data) ''storage_smart'' (ss_name s @ ''_power_cycles'')
           (map_option f64_of_int (ss_power_cycles s)) @
         opt_row (md_timestamp data) ''storage_smart'' (ss_name s @ ''_unsafe_shutdowns'')
           (map_option f64_of_int (ss_unsafe_shutdowns s)) @
         opt_row (md_timestamp data) ''storage_smart'' (ss_name s @ ''_power_on_hours'')
           (map_option f64_of_int (ss_power_on_hours s)) @
         opt_row (md_timestamp data) ''storage_smart'' (ss_name s @ ''_total_bytes_written'')
           (map_option f64_of_int (ss_total_bytes_written s)))
         (smart_storages d)))"

text \<open>
  The metric of a watched process carries \<open>_alert\<close> when its state is the wrong one: a required
  process that does not run, a forbidden one that does.
\<close>

definition process_watch_metric :: "string \<Rightarrow> bool \<Rightarrow> string" where
  "process_watch_metric typ running =
     (if (typ = ''required'' \<and> \<not> running) \<or> (typ = ''forbidden'' \<and> running)
      then typ @ ''_alert'' else typ)"

definition convert_process_watch :: "json_decoders \<Rightarrow> metric_data \<Rightarrow> ears_row list" where
  "convert_process_watch jd data =
     rows_of (\<lambda>p. case p of P_ProcessWatch d \<Rightarrow> Some d | _ \<Rightarrow> None) (jd_process_watch jd) (md_data data) (\<lambda>d.
       map (\<lambda>s. \<lparr>er_timestamp = md_timestamp data, er_category = ''process_watch'', er_pid = pw_pid s,
           er_proc_name = pw_name s, er_metric = process_watch_metric (pw_type s) (pw_running s),
           er_value = (if pw_running s then f64_of_int 1 else f64_of_int 0)\<rparr>)
         (pwd_statuses d))"

definition convert_uptime :: "json_decoders \<Rightarrow> metric_data \<Rightarrow> ears_row list" where
  "convert_uptime jd data =
     rows_of (\<lambda>p. case p of P_Uptime d \<Rightarrow> Some d | _ \<Rightarrow> None) (jd_uptime jd) (md_data data) (\<lambda>d.
       [system_row (md_timestamp data) ''uptime'' ''boot_time_unix'' (f64_of_int (up_boot_time_unix d)),
        system_row (md_timestamp data) ''uptime'' ''uptime_minutes'' (up_uptime_minutes d)])"

definition convert_storage_health :: "json_decoders \<Rightarrow> metric_data \<Rightarrow> ears_row list" where
  "convert_storage_health jd data =
     rows_of (\<lambda>p. case p of P_StorageHealth d \<Rightarrow> Some d | _ \<Rightarrow> None) (jd_storage_health jd) (md_data data) (\<lambda>d.
       map (\<lambda>disk. system_row (md_timestamp data) ''storage_health'' (shd_name disk @ ''_status'')
           (health_status_value (shd_status disk)))
         (sh_disks d))"

definition convert_self_metrics :: "json_decoders \<Rightarrow> metric_data \<Rightarrow> ears_row list" where
  "convert_self_metrics jd data =
     rows_of (\<lambda>p. case p of P_SelfMetrics d \<Rightarrow> Some d | _ \<Rightarrow> None) (jd_self_metrics jd) (md_data data) (\<lambda>d.
       [system_row (md_timestamp data) ''agent'' ''goroutine_count'' (f64_of_int (sm_goroutine_count d)),
        system_row (md_timestamp data) ''agent'' ''rss_bytes'' (f64_of_u64 (sm_rss_bytes d)),
        system_row (md_timestamp data) ''agent'' ''heap_alloc_bytes'' (f64_of_u64 (sm_heap_alloc_bytes d)),
        system_row (md_timestamp data) ''agent'' ''heap_sys_bytes'' (f64_of_u64 (sm_heap_sys_bytes d)),
        system_row (md_timestamp data) ''agent'' ''handle_count'' (f64_of_u32 (sm_handle_count d)),
        system_row (md_timestamp data) ''agent'' ''buffer_count'' (f64_of_int (sm_buffer_count d)),
        system_row (md_timestamp data) ''agent'' ''buffer_dropped_total'' (f64_of_int (sm_buffer_dropped_total d))])"

definition convert_to_ears_rows :: "json_decoders \<Rightarrow> metric_data \<Rightarrow> ears_row list" where
  "convert_to_ears_rows jd data =
     (let t = md_type data in
      if t = ''CPU'' then convert_cpu jd data
      else if t = ''Memory'' then convert_memory jd data
      else if t = ''Disk'' then convert_disk jd data
      else if t = ''Network'' then convert_network jd data
      else if t = ''CPUProcess'' then convert_cpu_process jd data
      else if t = ''MemoryProcess'' then convert_memory_process jd data
      else if t = ''Temperature'' then convert_temperature jd data
      else if t = ''GPU'' then convert_gpu jd data
      else if t = ''Fan'' then convert_fan jd data
      else if t = ''Voltage'' then convert_voltage jd data
      else if t = ''MotherboardTemp'' then convert_motherboard_temp jd data
      else if t = ''StorageSmart'' then convert_storage_smart jd data
      else if t = ''StorageHealth'' then convert_storage_health jd data
      else if t = ''Uptime'' then convert_uptime jd data
      else if t = ''ProcessWatch'' then convert_process_watch jd data
      else if t = ''SelfMetrics'' then convert_self_metrics jd data
      else [])"

lemmas convert_defs = convert_cpu_def convert_memory_def convert_disk_def convert_network_def
  convert_cpu_process_def convert_memory_process_def convert_temperature_def convert_gpu_def
  convert_fan_def convert_voltage_def convert_motherboard_temp_def convert_storage_smart_def
  convert_storage_health_def convert_uptime_def convert_process_watch_def convert_self_metrics_def

section \<open>Every row names its source\<close>

definition ears_categories :: "string list" where
  "ears_categories =
     [''cpu'', ''memory'', ''disk'', ''network'', ''temperature'', ''gpu'', ''fan'', ''voltage'',
      ''motherboard_temp'', ''storage_smart'', ''storage_health'', ''uptime'', ''process_watch'', ''agent'']"

definition row_from :: "metric_data \<Rightarrow> ears_row \<Rightarrow> bool" where
  "row_from data r = (er_timestamp r = md_timestamp data \<and> er_category r \<in> set ears_categories)"

lemma rows_of_all:
  "(\<And>d. list_all P (f d)) \<Longrightarrow> list_all P (rows_of a v data f)"
  by (simp add: rows_of_def split: option.splits)

lemma list_all_concat_map: "(\<And>x. list_all P (f x)) \<Longrightarrow> list_all P (concat (map f xs))"
  by (induction xs) auto

lemma opt_row_from: "c \<in> set ears_categories \<Longrightarrow> list_all (row_from data) (opt_row (md_timestamp data) c m v)"
  by (simp add: opt_row_def row_from_def system_row_def split: option.splits)

lemma convert_row_from: "list_all (row_from data) (convert_to_ears_rows jd data)"
proof -
  have "list_all (row_from data) (f jd data)"
    if "f \<in> {convert_cpu, convert_memory, convert_disk, convert_network, convert_cpu_process,
      convert_memory_process, convert_temperature, convert_fan, convert_voltage,
      convert_motherboard_temp, convert_storage_health, convert_uptime, convert_process_watch,
      convert_self_metrics}" for f
    using that
    by (auto simp: convert_defs intro!: rows_of_all list_all_concat_map)
      (auto simp: row_from_def system_row_def ears_categories_def list_all_iff)
  moreover have "list_all (row_from data) (f jd data)"
    if "f \<in> {convert_gpu, convert_storage_smart}" for f
    using that
    by (auto simp: convert_defs list_all_append intro!: rows_of_all list_all_concat_map opt_row_from)
      (auto simp: ears_categories_def)
  ultimately show ?thesis
    by (simp add: convert_to_ears_rows_def Let_def)
qed

lemma ears_category_no_comma: "c \<in> set ears_categories \<Longrightarrow> CHR '','' \<notin> set c"
  by (auto simp: ears_categories_def)

section \<open>No measurement is lost or duplicated\<close>

text \<open>
  The number of measurements a payload of each type carries, counted from the data alone, and the
  type tag under which a collector sends it.  A nil pointer is no measurement.
\<close>

definition present :: "'a option list \<Rightarrow> nat" where
  "present xs = length (filter (\<lambda>x. x \<noteq> None) xs)"

definition gpu_values :: "gpu_sensor \<Rightarrow> f64 option list" where
  "gpu_values g = [gs_temperature g, gs_core_load g, gs_memory_load g, gs_fan_speed g, gs_power g,
     gs_core_clock g, gs_memory_clock g]"

definition smart_counters :: "storage_smart_sensor \<Rightarrow> int option list" where
  "smart_counters s = [ss_media_errors s, ss_power_cycles s, ss_unsafe_shutdowns s, ss_power_on_hours s,
     ss_total_bytes_written s]"

definition smart_gauges :: "storage_smart_sensor \<Rightarrow> f64 option list" where
  "smart_gauges s = [ss_temperature s, ss_remaining_life s]"

primrec payload_type :: "payload \<Rightarrow> string" where
  "payload_type (P_CPU d) = ''CPU''"
| "payload_type (P_Memory d) = ''Memory''"
| "payload_type (P_Disk d) = ''Disk''"
| "payload_type (P_Network d) = ''Network''"
| "payload_type (P_CPUProcess d) = ''CPUProcess''"
| "payload_type (P_MemoryProcess d) = ''MemoryProcess''"
| "payload_type (P_Temperature d) = ''Temperature''"
| "payload_type (P_GPU d) = ''GPU''"
| "payload_type (P_Fan d) = ''Fan''"
| "payload_type (P_Voltage d) = ''Voltage''"
| "payload_type (P_MotherboardTemp d) = ''MotherboardTemp''"
| "payload_type (P_StorageSmart d) = ''StorageSmart''"
| "payload_type (P_StorageHealth d) = ''StorageHealth''"
| "payload_type (P_Uptime d) = ''Uptime''"
| "payload_type (P_ProcessWatch d) = ''ProcessWatch''"
| "payload_type (P_SelfMetrics d) = ''SelfMetrics''"
| "payload_type (P_Other s) = []"

primrec measurements :: "payload \<Rightarrow> nat" where
  "measurements (P_CPU d) = 1 + length (cpu_per_core d)"
| "measurements (P_Memory d) = 3"
| "measurements (P_Disk d) = length (disk_partitions d)"
| "measurements (P_Network d) = 2 + 2 * length (net_interfaces d)"
| "measurements (P_CPUProcess d) = length (pcd_processes d)"
| "measurements (P_MemoryProcess d) = 2 * length (pmd_processes d)"
| "measurements (P_Temperature d) = length (temp_sensors d)"
| "measurements (P_GPU d) = sum_list (map (\<lambda>g. present (gpu_values g)) (gpu_gpus d))"
| "measurements (P_Fan d) = length (fan_sensors d)"
| "measurements (P_Voltage d) = length (volt_sensors d)"
| "measurements (P_MotherboardTemp d) = length (mbt_sensors d)"
| "measurements (P_StorageSmart d) =
     sum_list (map (\<lambda>s. present (smart_gauges s) + present (smart_counters s)) (smart_storages d))"
| "measurements (P_StorageHealth d) = length (sh_disks d)"
| "measurements (P_Uptime d) = 2"
| "measurements (P_ProcessWatch d) = length (pwd_statuses d)"
| "measurements (P_SelfMetrics d) = 7"
| "measurements (P_Other s) = 0"

lemma length_opt_row: "length (opt_row ts c m v) = (if v = None then 0 else 1)"
  by (simp add: opt_row_def split: option.splits)

lemma length_concat_pairs: "length (concat (map (\<lambda>x. [f x, g x]) xs)) = 2 * length xs"
  by (induction xs) auto

lemmas count_simps = length_opt_row length_concat_pairs present_def gpu_values_def smart_gauges_def
  smart_counters_def rows_of_def unmarshal_data_def convert_to_ears_rows_def convert_defs

lemma length_concat_gpu:
  "length (concat (map (\<lambda>g.
     opt_row ts c (m1 g) (gs_temperature g) @ opt_row ts c (m2 g) (gs_core_load g) @
     opt_row ts c (m3 g) (gs_memory_load g) @ opt_row ts c (m4 g) (gs_fan_speed g) @
     opt_row ts c (m5 g) (gs_power g) @ opt_row ts c (m6 g) (gs_core_clock g) @
     opt_row ts c (m7 g) (gs_memory_clock g)) gs)) = sum_list (map (\<lambda>g. present (gpu_values g)) gs)"
  by (induction gs) (simp_all add: length_opt_row present_def gpu_values_def)

lemma length_concat_smart:
  "length (concat (map (\<lambda>s.
     opt_row ts c (m1 s) (ss_temperature s) @ opt_row ts c (m2 s) (ss_remaining_life s) @
     opt_row ts c (m3 s) (map_option f64_of_int (ss_media_errors s)) @
     opt_row ts c (m4 s) (map_option f64_of_int (ss_power_cycles s)) @
     opt_row ts c (m5 s) (map_option f64_of_int (ss_unsafe_shutdowns s)) @
     opt_row ts c (m6 s) (map_option f64_of_int (ss_power_on_hours s)) @
     opt_row ts c (m7 s) (map_option f64_of_int (ss_total_bytes_written s))) ss)) =
   sum_list (map (\<lambda>s. present (smart_gauges s) + present (smart_counters s)) ss)"
  by (induction ss) (simp_all add: length_opt_row present_def smart_gauges_def smart_counters_def)

text \<open>A payload sent under its own tag gives one row per measurement it carries.\<close>

lemma convert_row_count:
  assumes "md_type data = payload_type (md_data data)"
  shows "length (convert_to_ears_rows jd data) = measurements (md_data data)"
  using assms
  by (cases "md_data data")
    (simp_all add: convert_to_ears_rows_def convert_defs rows_of_def unmarshal_data_def
      length_concat_pairs length_concat_gpu length_concat_smart)

section \<open>Reading a Grok line\<close>

text \<open>
  What the Grok pattern downstream extracts from a line: the time stamp is the first 23 characters,
  the rest is split at commas and every part loses its label.
\<close>

record grok_fields =
  gf_stamp :: string
  gf_category :: string
  gf_pid :: int
  gf_proc :: string
  gf_metric :: string
  gf_value :: f64

definition strip_label :: "string \<Rightarrow> string \<Rightarrow> string option" where
  "strip_label l s = (if has_prefix s l then Some (drop (length l) s) else None)"

definition read_grok :: "string \<Rightarrow> grok_fields option" where
  "read_grok line =
     (case map2 strip_label ['' category:'', ''pid:'', ''proc:'', ''metric:'', ''value:'']
             (split_on CHR '','' (drop 23 line)) of
        [Some c, Some p, Some n, Some m, Some v] \<Rightarrow>
          (case parse_int p of
             Some pid \<Rightarrow> Some \<lparr>gf_stamp = take 23 line, gf_category = c, gf_pid = pid, gf_proc = n,
                gf_metric = m, gf_value = f64_parse v\<rparr>
           | None \<Rightarrow> None)
      | _ \<Rightarrow> None)"

lemma strip_label_append [simp]: "strip_label l (l @ s) = Some s"
  by (simp add: strip_label_def)

lemma to_grok_string_join:
  "to_grok_string r = format_grok_timestamp (er_timestamp r) @
     join_with CHR '','' ['' category:'' @ er_category r, ''pid:'' @ itoa (er_pid r),
       ''proc:'' @ sanitize_name (er_proc_name r), ''metric:'' @ sanitize_name (er_metric r),
       ''value:'' @ f64_format (er_value r)]"
  by (simp add: to_grok_string_def)

lemma read_grok_line:
  assumes stamp: "length (format_grok_timestamp (er_timestamp r)) = 23"
    and cat: "CHR '','' \<notin> set (er_category r)"
    and val: "f64_ok (er_value r)"
  shows "read_grok (to_grok_string r) =
     Some \<lparr>gf_stamp = format_grok_timestamp (er_timestamp r), gf_category = er_category r,
       gf_pid = er_pid r, gf_proc = sanitize_name (er_proc_name r),
       gf_metric = sanitize_name (er_metric r), gf_value = er_value r\<rparr>"
proof -
  let ?parts = "['' category:'' @ er_category r, ''pid:'' @ itoa (er_pid r),
       ''proc:'' @ sanitize_name (er_proc_name r), ''metric:'' @ sanitize_name (er_metric r),
       ''value:'' @ f64_format (er_value r)]"
  have "split_on CHR '','' (join_with CHR '','' ?parts) = ?parts"
    by (rule split_join) (use cat in simp_all)
  then have "split_on CHR '','' (drop 23 (to_grok_string r)) = ?parts"
    unfolding to_grok_string_join using stamp by simp
  moreover have "take 23 (to_grok_string r) = format_grok_timestamp (er_timestamp r)"
    unfolding to_grok_string_join using stamp by simp
  ultimately show ?thesis
    using val unfolding read_grok_def
    by (simp add: strip_label_def has_prefix_def f64_parse_format)
qed

section \<open>Properties\<close>


text \<open>No payload is decoded by the JSON fallback: the decoders at which the properties are applied.\<close>

definition no_decoders :: json_decoders where
  "no_decoders =
     \<lparr>jd_cpu = \<lambda>p. None, jd_memory = \<lambda>p. None, jd_disk = \<lambda>p. None, jd_network = \<lambda>p. None,
      jd_cpu_process = \<lambda>p. None, jd_memory_process = \<lambda>p. None, jd_temperature = \<lambda>p. None,
      jd_gpu = \<lambda>p. None, jd_fan = \<lambda>p. None, jd_voltage = \<lambda>p. None, jd_motherboard_temp = \<lambda>p. None,
      jd_storage_smart = \<lambda>p. None, jd_storage_health = \<lambda>p. None, jd_uptime = \<lambda>p. None,
      jd_process_watch = \<lambda>p. None, jd_self_metrics = \<lambda>p. None\<rparr>"


end
