(* ===== verification/Network.thy ===== *)
theory Network
  imports Collector Ears
begin

text \<open>
  \<open>internal/collector/network.go\<close>: the rates of each interface from the counters of two collections,
  and the classification of TCP connections.  The counters are \<open>uint64\<close>, so a difference wraps.
\<close>

section \<open>State\<close>

record io_stat =
  is_name :: string
  is_bytes_sent :: "64 word"
  is_bytes_recv :: "64 word"
  is_packets_sent :: "64 word"
  is_packets_recv :: "64 word"
  is_errin :: "64 word"
  is_errout :: "64 word"
  is_dropin :: "64 word"
  is_dropout :: "64 word"

record network_collector = base_collector +
  nc_interfaces :: "string list"
  nc_last_stats :: "(string \<times> io_stat) list"
  nc_last_collect :: "gotime option"

text \<open>\<open>lastCollect\<close> is \<open>None\<close> for the zero time, whose Unix time is negative.\<close>

definition new_network_collector :: network_collector where
  "new_network_collector =
     \<lparr>co_name = ''Network'', co_interval = 10 * second, co_enabled = True, nc_interfaces = [],
      nc_last_stats = [], nc_last_collect = None\<rparr>"

definition configure_network :: "collector_config \<Rightarrow> network_collector \<Rightarrow> network_collector" where
  "configure_network cfg c = (configure_base cfg c)\<lparr>nc_interfaces := cc_interfaces cfg\<rparr>"

definition net_should_include :: "network_collector \<Rightarrow> string \<Rightarrow> bool" where
  "net_should_include c name = list_ex (\<lambda>i. i = name) (nc_interfaces c)"

definition skip_prefixes :: "string list" where
  "skip_prefixes = [''veth'', ''docker'', ''br-'', ''virbr'', ''vbox'', ''vmnet'', ''flannel'', ''cni'', ''calico'', ''weave'']"

definition net_should_skip :: "string \<Rightarrow> bool" where
  "net_should_skip name =
     (let l = to_lower name in
      l = ''lo'' \<or> l = ''loopback'' \<or> list_ex (\<lambda>p. has_prefix l p) skip_prefixes)"

section \<open>Rates\<close>

text \<open>The seconds since the last collection, 1 when they are not positive; from the zero time on the clamped maximum.\<close>

definition elapsed_seconds :: "gotime \<Rightarrow> gotime option \<Rightarrow> f64" where
  "elapsed_seconds now prev =
     (let e = duration_seconds (case prev of Some p \<Rightarrow> sub_time now p | None \<Rightarrow> 2 ^ 63 - 1)
      in if f64_le e f64_zero then f64_of_int 1 else e)"

definition unix_seconds :: "gotime \<Rightarrow> int" where
  "unix_seconds t = unix_nanos t div 1000000000"

text \<open>\<open>float64(cur - prev)\<close>: the subtraction is the one of \<open>uint64\<close>.\<close>

definition counter_diff :: "64 word \<Rightarrow> 64 word \<Rightarrow> f64" where
  "counter_diff cur prev = f64_of_u64 (cur - prev)"

definition counter_rate :: "64 word \<Rightarrow> 64 word \<Rightarrow> f64 \<Rightarrow> f64" where
  "counter_rate cur prev elapsed =
     (if f64_le f64_zero (counter_diff cur prev) then f64_div (counter_diff cur prev) elapsed else f64_zero)"

definition make_interface :: "network_collector \<Rightarrow> f64 \<Rightarrow> io_stat \<Rightarrow> network_interface" where
  "make_interface c elapsed s =
     (let i = \<lparr>ni_name = is_name s, ni_bytes_sent = is_bytes_sent s, ni_bytes_recv = is_bytes_recv s,
            ni_packets_sent = is_packets_sent s, ni_packets_recv = is_packets_recv s,
            ni_errors_in = is_errin s, ni_errors_out = is_errout s, ni_drops_in = is_dropin s,
            ni_drops_out = is_dropout s, ni_bytes_sent_rate = f64_zero, ni_bytes_recv_rate = f64_zero\<rparr>
      in case (map_of (nc_last_stats c) (is_name s), nc_last_collect c) of
           (Some prev, Some t) \<Rightarrow>
             if unix_seconds t > 0 then
               i\<lparr>ni_bytes_sent_rate := counter_rate (is_bytes_sent s) (is_bytes_sent prev) elapsed,
                 ni_bytes_recv_rate := counter_rate (is_bytes_recv s) (is_bytes_recv prev) elapsed\<rparr>
             else i
         | _ \<Rightarrow> i)"

definition wanted :: "network_collector \<Rightarrow> string \<Rightarrow> bool" where
  "wanted c name = (\<not> (nc_interfaces c \<noteq> [] \<and> \<not> net_should_include c name) \<and> \<not> net_should_skip name)"

section \<open>Connections\<close>

record connection_stat =
  cn_status :: string
  cn_local_port :: "32 word"

text \<open>\<open>classifyTCPConnections\<close>: the listening ports, then a count on either side.\<close>

definition listen_ports :: "connection_stat list \<Rightarrow> 32 word list" where
  "listen_ports conns = fold (\<lambda>c ps. if cn_status c = ''LISTEN'' then List.insert (cn_local_port c) ps else ps) conns []"

fun classify_loop :: "32 word list \<Rightarrow> connection_stat list \<Rightarrow> int \<Rightarrow> int \<Rightarrow> int \<times> int" where
  "classify_loop ports [] i out = (i, out)"
| "classify_loop ports (c # cs) i out =
     (if cn_status c = ''LISTEN'' then classify_loop ports cs i out
      else if cn_local_port c \<in> set ports then classify_loop ports cs (i + 1) out
      else classify_loop ports cs i (out + 1))"

definition classify_tcp_connections :: "connection_stat list \<Rightarrow> int \<times> int" where
  "classify_tcp_connections conns = classify_loop (listen_ports conns) conns 0 0"

section \<open>Collection\<close>

definition collect_network ::
  "io_stat list option \<Rightarrow> connection_stat list option \<Rightarrow> gotime \<Rightarrow> network_collector \<Rightarrow>
     network_collector \<times> (collect_error + metric_data)" where
  "collect_network counters conns now c =
     (case counters of
        None \<Rightarrow> (c, Inl Probe_Failed)
      | Some cs \<Rightarrow>
          (let elapsed = elapsed_seconds now (nc_last_collect c);
               kept = filter (\<lambda>s. wanted c (is_name s)) cs;
               (i, out) = classify_tcp_connections (case conns of None \<Rightarrow> [] | Some x \<Rightarrow> x)
           in (c\<lparr>nc_last_stats := fold (\<lambda>s m. AList.update (is_name s) s m) kept [], nc_last_collect := Some now\<rparr>,
               Inr (make_metric c now (P_Network
                 \<lparr>net_interfaces = map (make_interface c elapsed) kept, net_tcp_inbound_count = i,
                  net_tcp_outbound_count = out\<rparr>)))))"

section \<open>Facts\<close>

lemma listen_ports_set: "set (listen_ports conns) = cn_local_port ` {c \<in> set conns. cn_status c = ''LISTEN''}"
proof -
  have "set (fold (\<lambda>c ps. if cn_status c = ''LISTEN'' then List.insert (cn_local_port c) ps else ps) conns acc)
      = cn_local_port ` {c \<in> set conns. cn_status c = ''LISTEN''} \<union> set acc" for acc
    by (induction conns arbitrary: acc) auto
  then show ?thesis by (simp add: listen_ports_def)
qed

lemma classify_loop_counts:
  "classify_loop ports cs i out =
     (i + int (length (filter (\<lambda>c. cn_status c \<noteq> ''LISTEN'' \<and> cn_local_port c \<in> set ports) cs)),
      out + int (length (filter (\<lambda>c. cn_status c \<noteq> ''LISTEN'' \<and> cn_local_port c \<notin> set ports) cs)))"
  by (induction ports cs i out rule: classify_loop.induct) auto

text \<open>The guard of the rate holds for every pair of counters.\<close>

lemma counter_diff_nonneg: "f64_le f64_zero (counter_diff cur prev)"
proof -
  define r where "r = f64_round_mag (of_int \<bar>uint (cur - prev)\<bar>)"
  have eq: "counter_diff cur prev = (if f64_limit \<le> r then F64_Inf False else F64 False r)"
    by (simp add: counter_diff_def f64_of_u64_def f64_of_int_def f64_of_mag_def Let_def r_def)
  show ?thesis
  proof (cases "f64_limit \<le> r")
    case True
    then show ?thesis by (simp add: eq f64_le_def f64_zero_def)
  next
    case False
    then have "f64_ok (F64 False r)"
      using eq f64_ok_of_int [of "uint (cur - prev)"] by (simp add: counter_diff_def f64_of_u64_def)
    then have "0 \<le> r" by (auto simp: f64_ok_def dest: f64_exact_nonneg)
    then show ?thesis using False by (simp add: eq f64_le_def f64_zero_def f64_val_def)
  qed
qed

lemma counter_rate_eq: "counter_rate cur prev e = f64_div (f64_of_int (uint (cur - prev))) e"
  using counter_diff_nonneg by (simp add: counter_rate_def, simp add: counter_diff_def f64_of_u64_def)

section \<open>Properties\<close>

lemma remember_other:
  "n \<notin> is_name ` set ss \<Longrightarrow> map_of (fold (\<lambda>s m. AList.update (is_name s) s m) ss m) n = map_of m n"
  by (induction ss arbitrary: m) (auto simp: update_conv')

lemma remember_stats:
  "distinct (map is_name ss) \<Longrightarrow> s \<in> set ss \<Longrightarrow>
     map_of (fold (\<lambda>s m. AList.update (is_name s) s m) ss m) (is_name s) = Some s"
proof (induction ss arbitrary: m)
  case (Cons x xs)
  then show ?case
  proof (cases "s = x")
    case True
    then have "is_name s \<notin> is_name ` set xs" using Cons.prems by simp
    then show ?thesis using True by (simp add: remember_other update_conv')
  qed auto
qed simp

text \<open>C35 The rates of an interface are those between two collections: for an interface that is not excluded
  and that both see, the second collection reports the growth of the byte counters, modulo the wrap of
  the 64-bit counters, divided by the seconds between the two (1 when the clock did not advance).\<close>

theorem network_rates_between_collections:
  assumes "collect_network (Some before) conns t1 c = (c1, r1)" and "0 < unix_seconds t1"
    and "distinct (map is_name before)" and "s1 \<in> set before" and "s2 \<in> set now"
    and "is_name s1 = is_name s2" and "wanted c (is_name s2)"
  shows "\<exists>md d i. snd (collect_network (Some now) conns' t2 c1) = Inr md \<and> md_data md = P_Network d \<and>
    i \<in> set (net_interfaces d) \<and> ni_name i = is_name s2 \<and>
    ni_bytes_recv_rate i =
      f64_div (f64_of_int (uint (is_bytes_recv s2 - is_bytes_recv s1))) (elapsed_seconds t2 (Some t1)) \<and>
    ni_bytes_sent_rate i =
      f64_div (f64_of_int (uint (is_bytes_sent s2 - is_bytes_sent s1))) (elapsed_seconds t2 (Some t1))"
proof -
  let ?kept = "filter (\<lambda>s. wanted c (is_name s)) before"
  have c1: "c1 = c\<lparr>nc_last_stats := fold (\<lambda>s m. AList.update (is_name s) s m) ?kept [], nc_last_collect := Some t1\<rparr>"
    using assms(1) by (simp add: collect_network_def Let_def split: prod.splits)
  have kept: "distinct (map is_name ?kept)" "s1 \<in> set ?kept"
    using assms(3-7) by (auto simp: distinct_map inj_on_def)
  have prev: "map_of (nc_last_stats c1) (is_name s2) = Some s1"
    using remember_stats [OF kept, of "[]"] by (simp add: c1 assms(6))
  have last: "nc_last_collect c1 = Some t1" by (simp add: c1)
  have w: "wanted c1 = wanted c" by (rule ext) (simp add: wanted_def net_should_include_def c1)
  let ?i = "make_interface c1 (elapsed_seconds t2 (Some t1)) s2"
  obtain md d where md: "snd (collect_network (Some now) conns' t2 c1) = Inr md" "md_data md = P_Network d"
    "net_interfaces d = map (make_interface c1 (elapsed_seconds t2 (Some t1))) (filter (\<lambda>s. wanted c (is_name s)) now)"
    by (simp add: collect_network_def Let_def split_def last w make_metric_def)
  have "?i \<in> set (net_interfaces d)" using md(3) assms(5,7) by simp
  moreover have "ni_name ?i = is_name s2"
    "ni_bytes_recv_rate ?i = f64_div (f64_of_int (uint (is_bytes_recv s2 - is_bytes_recv s1))) (elapsed_seconds t2 (Some t1))"
    "ni_bytes_sent_rate ?i = f64_div (f64_of_int (uint (is_bytes_sent s2 - is_bytes_sent s1))) (elapsed_seconds t2 (Some t1))"
    using assms(2) by (simp_all add: make_interface_def prev last counter_rate_eq Let_def)
  ultimately show ?thesis using md(1,2) by blast
qed

definition sample_stat :: "64 word \<Rightarrow> io_stat" where
  "sample_stat n = \<lparr>is_name = ''eth0'', is_bytes_sent = n, is_bytes_recv = n, is_packets_sent = 0,
     is_packets_recv = 0, is_errin = 0, is_errout = 0, is_dropin = 0, is_dropout = 0\<rparr>"

theorem network_rates_between_collections_witness:
  "\<exists>c1 md d i. c1 = fst (collect_network (Some [sample_stat 5]) None \<lparr>unix_nanos = 1000000000, zone_offset = 0\<rparr> new_network_collector) \<and>
     snd (collect_network (Some [sample_stat 15]) None \<lparr>unix_nanos = 2000000000, zone_offset = 0\<rparr> c1) = Inr md \<and>
     md_data md = P_Network d \<and> i \<in> set (net_interfaces d) \<and> ni_name i = ''eth0''"
proof -
  let ?t = "\<lparr>unix_nanos = 1000000000, zone_offset = 0\<rparr>"
  obtain c1 r1 where c1: "collect_network (Some [sample_stat 5]) None ?t new_network_collector = (c1, r1)" by fastforce
  have "wanted new_network_collector ''eth0''" by code_simp
  then show ?thesis
    using network_rates_between_collections [OF c1, of "sample_stat 5" "sample_stat 15" "[sample_stat 15]"
        None "\<lparr>unix_nanos = 2000000000, zone_offset = 0\<rparr>"] c1
    by (auto simp: unix_seconds_def sample_stat_def)
qed

text \<open>A counter that starts again from a small value is taken for growth: the guard on a negative
  difference never applies, because the difference is computed in unsigned arithmetic, and a counter
  that falls by \<open>k\<close> gives the rate of \<open>2 ^ 64 - k\<close> bytes.\<close>

theorem counter_reset_gives_huge_rate:
  assumes "cur < prev"
  shows "counter_rate cur prev elapsed = f64_div (f64_of_int (2 ^ 64 - (uint prev - uint cur))) elapsed"
proof -
  have lt: "uint cur < uint prev" using assms by (simp add: word_less_def)
  have bounds: "uint prev < 2 ^ 64" "0 \<le> uint cur" using uint_lt2p [of prev] by simp_all
  have "(uint cur - uint prev) mod 2 ^ 64 = (uint cur - uint prev + 2 ^ 64) mod (2 ^ 64 :: int)" by simp
  also have "\<dots> = uint cur - uint prev + 2 ^ 64"
    by (rule mod_pos_pos_trivial) (use lt bounds in linarith)+
  also have "\<dots> = 2 ^ 64 - (uint prev - uint cur)" by simp
  finally show ?thesis by (simp only: counter_rate_eq uint_word_ariths(2) len_of_numeral_defs) simp
qed

theorem counter_reset_gives_huge_rate_witness:
  "counter_rate 0 1 (f64_of_int 1) = f64_div (f64_of_int (2 ^ 64 - 1)) (f64_of_int 1)"
  by (subst counter_reset_gives_huge_rate) simp_all

text \<open>Every connection is counted once: listening sockets on neither side, the others inbound when their
  local port is one on which some socket of the table listens, outbound otherwise.\<close>

theorem tcp_classification_exact:
  "classify_tcp_connections conns =
     (int (length (filter (\<lambda>c. cn_status c \<noteq> ''LISTEN'' \<and>
        (\<exists>l \<in> set conns. cn_status l = ''LISTEN'' \<and> cn_local_port l = cn_local_port c)) conns)),
      int (length (filter (\<lambda>c. cn_status c \<noteq> ''LISTEN'' \<and>
        \<not> (\<exists>l \<in> set conns. cn_status l = ''LISTEN'' \<and> cn_local_port l = cn_local_port c)) conns)))"
proof -
  have "cn_local_port c \<in> set (listen_ports conns) \<longleftrightarrow>
      (\<exists>l \<in> set conns. cn_status l = ''LISTEN'' \<and> cn_local_port l = cn_local_port c)" for c :: connection_stat
    unfolding listen_ports_set by (auto simp: image_iff)
  then show ?thesis by (simp add: classify_tcp_connections_def classify_loop_counts)
qed

end
