(* ===== verification/Loader.thy ===== *)
theory Loader
  imports Config
begin

text \<open>
  \<open>internal/config/loader.go\<close>: from the decoded JSON documents (the \<open>raw\<close> structures, durations still
  text) to the configuration.  \<open>json.Unmarshal\<close> into these structures and \<open>os.ReadFile\<close> are arguments of
  the entry points.
\<close>

section \<open>Raw structures\<close>

record raw_kafka_config =
  rk_broker_port :: int
  rk_compression :: string
  rk_required_acks :: int
  rk_max_retries :: int
  rk_retry_backoff :: string
  rk_flush_frequency :: string
  rk_flush_messages :: int
  rk_batch_size :: int
  rk_timeout :: string
  rk_enable_tls :: bool
  rk_tls_cert_file :: string
  rk_tls_key_file :: string
  rk_tls_ca_file :: string
  rk_sasl_enabled :: bool
  rk_sasl_mechanism :: string
  rk_sasl_user :: string
  rk_sasl_password :: string

record raw_batch_config =
  rb_flush_frequency :: string
  rb_flush_messages :: int
  rb_max_batch_size :: int
  rb_max_retries :: int
  rb_retry_backoff :: string
  rb_max_buffered_records :: int

record raw_config =
  rw_sender_type :: string
  rw_file :: file_config
  rw_kafka :: raw_kafka_config
  rw_batch :: raw_batch_config
  rw_virtual_address_list :: string
  rw_redis :: redis_config
  rw_private_ip_pattern :: string
  rw_socks :: socks_config
  rw_service_discovery_port :: int
  rw_topic :: string
  rw_time_diff_sync_interval :: int
  rw_update_server_interval :: string

record raw_collector_config =
  rl_enabled :: bool
  rl_interval :: string
  rl_top_n :: int
  rl_disks :: "string list"
  rl_interfaces :: "string list"
  rl_include_zones :: "string list"
  rl_watch_processes :: "string list"
  rl_required_processes :: "string list"
  rl_forbidden_processes :: "string list"

record logging_config =
  lc_level :: string
  lc_file_path :: string
  lc_max_size_mb :: int
  lc_max_backups :: int
  lc_max_age_days :: int
  lc_compress :: bool
  lc_console :: bool

datatype load_error =
    Read_File_Failed string
  | Bad_Json
  | Bad_Duration (duration_field: string)

section \<open>Conversion\<close>

text \<open>The recurring step: an empty string leaves the zero duration, anything else has to parse.\<close>

definition duration_field_of :: "string \<Rightarrow> string \<Rightarrow> load_error + int" where
  "duration_field_of field s =
     (if s = [] then Inr 0
      else case parse_duration s of None \<Rightarrow> Inl (Bad_Duration field) | Some d \<Rightarrow> Inr d)"

definition convert_raw_batch :: "raw_batch_config \<Rightarrow> raw_kafka_config option \<Rightarrow> load_error + batch_config" where
  "convert_raw_batch batch fallback =
     (let flush_str = (if rb_flush_frequency batch = [] \<and> fallback \<noteq> None
                       then rk_flush_frequency (the fallback) else rb_flush_frequency batch);
          backoff_str = (if rb_retry_backoff batch = [] \<and> fallback \<noteq> None
                         then rk_retry_backoff (the fallback) else rb_retry_backoff batch) in
      bind_result (duration_field_of ''FlushFrequency'' flush_str) (\<lambda>flush.
      bind_result (duration_field_of ''RetryBackoff'' backoff_str) (\<lambda>backoff.
        Inr \<lparr>bc_flush_frequency = flush,
             bc_flush_messages =
               (if rb_flush_messages batch \<noteq> 0 then rb_flush_messages batch
                else if fallback \<noteq> None \<and> rk_flush_messages (the fallback) \<noteq> 0
                then rk_flush_messages (the fallback) else 0),
             bc_max_batch_size =
               (if rb_max_batch_size batch \<noteq> 0 then rb_max_batch_size batch
                else if fallback \<noteq> None \<and> rk_batch_size (the fallback) \<noteq> 0
                then rk_batch_size (the fallback) else 0),
             bc_max_retries =
               (if rb_max_retries batch \<noteq> 0 then rb_max_retries batch
                else if fallback \<noteq> None \<and> rk_max_retries (the fallback) \<noteq> 0
                then rk_max_retries (the fallback) else 0),
             bc_retry_backoff = backoff,
             bc_max_buffered_records =
               (if rb_max_buffered_records batch \<noteq> 0 then rb_max_buffered_records batch else 0)\<rparr>)))"

definition convert_raw_kafka :: "raw_kafka_config \<Rightarrow> load_error + kafka_config" where
  "convert_raw_kafka raw =
     bind_result (duration_field_of ''Timeout'' (rk_timeout raw)) (\<lambda>timeout.
       Inr \<lparr>kc_broker_port = rk_broker_port raw, kc_compression = rk_compression raw,
            kc_required_acks = rk_required_acks raw, kc_timeout = timeout,
            kc_enable_tls = rk_enable_tls raw, kc_tls_cert_file = rk_tls_cert_file raw,
            kc_tls_key_file = rk_tls_key_file raw, kc_tls_ca_file = rk_tls_ca_file raw,
            kc_sasl_enabled = rk_sasl_enabled raw, kc_sasl_mechanism = rk_sasl_mechanism raw,
            kc_sasl_user = rk_sasl_user raw, kc_sasl_password = rk_sasl_password raw\<rparr>)"

definition convert_raw_config :: "raw_config \<Rightarrow> load_error + config" where
  "convert_raw_config raw =
     bind_result (convert_raw_kafka (rw_kafka raw)) (\<lambda>kafka.
     bind_result (convert_raw_batch (rw_batch raw) (Some (rw_kafka raw))) (\<lambda>batch.
     bind_result (duration_field_of ''UpdateServerAddressInterval'' (rw_update_server_interval raw)) (\<lambda>upd.
       Inr \<lparr>cfg_sender_type = rw_sender_type raw, cfg_kafka = kafka, cfg_batch = batch,
            cfg_file = rw_file raw, cfg_virtual_address_list = rw_virtual_address_list raw,
            cfg_redis = rw_redis raw, cfg_private_ip_pattern = rw_private_ip_pattern raw,
            cfg_socks = rw_socks raw, cfg_service_discovery_port = rw_service_discovery_port raw,
            cfg_topic = rw_topic raw, cfg_time_diff_sync_interval = rw_time_diff_sync_interval raw,
            cfg_update_server_interval = upd, cfg_kafka_rest_address = [], cfg_eqp_info = None\<rparr>)))"

definition convert_raw_collector :: "string \<Rightarrow> raw_collector_config \<Rightarrow> load_error + collector_config" where
  "convert_raw_collector name raw =
     bind_result (duration_field_of (''interval for collector '' @ name) (rl_interval raw)) (\<lambda>d.
       Inr \<lparr>cc_enabled = rl_enabled raw, cc_interval = d, cc_top_n = rl_top_n raw,
            cc_disks = rl_disks raw, cc_interfaces = rl_interfaces raw,
            cc_include_zones = rl_include_zones raw, cc_watch_processes = rl_watch_processes raw,
            cc_required_processes = rl_required_processes raw,
            cc_forbidden_processes = rl_forbidden_processes raw\<rparr>)"

section \<open>Entry points\<close>

definition parse_config :: "('b \<Rightarrow> raw_config option) \<Rightarrow> 'b \<Rightarrow> load_error + config" where
  "parse_config unmarshal data =
     (case unmarshal data of
        None \<Rightarrow> Inl Bad_Json
      | Some raw \<Rightarrow>
          bind_result (convert_raw_config raw) (\<lambda>parsed. Inr (merge_config default_config (Some parsed))))"

definition load_config :: "(string \<Rightarrow> 'b option) \<Rightarrow> ('b \<Rightarrow> raw_config option) \<Rightarrow> string \<Rightarrow> load_error + config" where
  "load_config read_file unmarshal path =
     (case read_file path of None \<Rightarrow> Inl (Read_File_Failed path) | Some data \<Rightarrow> parse_config unmarshal data)"

text \<open>The loop over the raw collectors, which stops at the first bad interval.\<close>

fun convert_collectors ::
  "(string \<times> raw_collector_config) list \<Rightarrow> (string \<times> collector_config) list \<Rightarrow>
     load_error + (string \<times> collector_config) list" where
  "convert_collectors [] acc = Inr acc"
| "convert_collectors ((name, raw) # rest) acc =
     bind_result (convert_raw_collector name raw) (\<lambda>coll. convert_collectors rest (AList.update name coll acc))"

definition parse_monitor ::
  "('b \<Rightarrow> (string \<times> raw_collector_config) list option) \<Rightarrow> 'b \<Rightarrow> load_error + monitor_config" where
  "parse_monitor unmarshal data =
     (case unmarshal data of
        None \<Rightarrow> Inl Bad_Json
      | Some raws \<Rightarrow>
          if length raws > 0 then
            bind_result (convert_collectors raws []) (\<lambda>parsed.
              Inr (merge_monitor default_monitor_config (Some \<lparr>mc_collectors = parsed\<rparr>)))
          else Inr default_monitor_config)"

definition load_monitor ::
  "(string \<Rightarrow> 'b option) \<Rightarrow> ('b \<Rightarrow> (string \<times> raw_collector_config) list option) \<Rightarrow> string \<Rightarrow>
     load_error + monitor_config" where
  "load_monitor read_file unmarshal path =
     (case read_file path of None \<Rightarrow> Inl (Read_File_Failed path) | Some data \<Rightarrow> parse_monitor unmarshal data)"

definition default_logging_config :: logging_config where
  "default_logging_config =
     \<lparr>lc_level = ''info'', lc_file_path = ''logs/agent.log'', lc_max_size_mb = 10, lc_max_backups = 5,
      lc_max_age_days = 30, lc_compress = True, lc_console = False\<rparr>"

text \<open>\<open>convertRawLogging\<close> copies field by field, so the raw structure is the structure itself.\<close>

definition parse_logging :: "('b \<Rightarrow> logging_config option) \<Rightarrow> 'b \<Rightarrow> load_error + logging_config" where
  "parse_logging unmarshal data =
     (case unmarshal data of
        None \<Rightarrow> Inl Bad_Json
      | Some parsed \<Rightarrow>
          (let def = default_logging_config in
           Inr \<lparr>lc_level = set_str (lc_level def) (lc_level parsed),
                lc_file_path = set_str (lc_file_path def) (lc_file_path parsed),
                lc_max_size_mb = set_int (lc_max_size_mb def) (lc_max_size_mb parsed),
                lc_max_backups = set_int (lc_max_backups def) (lc_max_backups parsed),
                lc_max_age_days = set_int (lc_max_age_days def) (lc_max_age_days parsed),
                lc_compress = lc_compress parsed,
                lc_console = lc_console parsed\<rparr>))"

definition load_logging :: "(string \<Rightarrow> 'b option) \<Rightarrow> ('b \<Rightarrow> logging_config option) \<Rightarrow> string \<Rightarrow> load_error + logging_config" where
  "load_logging read_file unmarshal path =
     (case read_file path of None \<Rightarrow> Inl (Read_File_Failed path) | Some data \<Rightarrow> parse_logging unmarshal data)"

definition load_split where
  "load_split read_file um_config um_monitor um_logging config_path monitor_path logging_path =
     bind_result (load_config read_file um_config config_path) (\<lambda>cfg.
     bind_result (load_monitor read_file um_monitor monitor_path) (\<lambda>mc.
     bind_result (load_logging read_file um_logging logging_path) (\<lambda>lc.
       Inr (cfg, mc, lc))))"

definition get_hostname :: "string option \<Rightarrow> string" where
  "get_hostname os_hostname = (case os_hostname of None \<Rightarrow> ''unknown'' | Some h \<Rightarrow> h)"

definition get_agent_id :: "string option \<Rightarrow> config \<Rightarrow> string" where
  "get_agent_id os_hostname cfg =
     (case cfg_eqp_info cfg of
        Some e \<Rightarrow> if eq_id e \<noteq> [] then eq_id e else get_hostname os_hostname
      | None \<Rightarrow> get_hostname os_hostname)"

section \<open>When loading succeeds\<close>

definition duration_ok :: "string \<Rightarrow> bool" where
  "duration_ok s = (s = [] \<or> parse_duration s \<noteq> None)"

lemma duration_field_ok: "is_ok (duration_field_of f s) \<longleftrightarrow> duration_ok s"
  by (simp add: duration_field_of_def duration_ok_def split: option.splits)

lemma is_ok_bind: "is_ok (bind_result r f) \<longleftrightarrow> is_ok r \<and> is_ok (f (projr r))"
  by (cases r) auto

definition durations_of :: "raw_config \<Rightarrow> string list" where
  "durations_of raw =
     [rk_timeout (rw_kafka raw),
      (if rb_flush_frequency (rw_batch raw) = [] then rk_flush_frequency (rw_kafka raw)
       else rb_flush_frequency (rw_batch raw)),
      (if rb_retry_backoff (rw_batch raw) = [] then rk_retry_backoff (rw_kafka raw)
       else rb_retry_backoff (rw_batch raw)),
      rw_update_server_interval raw]"

lemma convert_raw_config_ok: "is_ok (convert_raw_config raw) \<longleftrightarrow> (\<forall>s \<in> set (durations_of raw). duration_ok s)"
  by (simp add: convert_raw_config_def convert_raw_kafka_def convert_raw_batch_def is_ok_bind
      duration_field_ok durations_of_def Let_def)

lemma convert_collectors_map:
  assumes "distinct (map fst raws)"
  shows "(\<exists>cs. convert_collectors raws acc = Inr cs \<and>
           (\<forall>name. map_of cs name = (case map_of raws name of
               None \<Rightarrow> map_of acc name | Some raw \<Rightarrow> Some (projr (convert_raw_collector name raw))))
           \<and> (distinct (map fst acc) \<longrightarrow> distinct (map fst cs)))
       \<or> (\<exists>name raw e. (name, raw) \<in> set raws \<and> convert_collectors raws acc = Inl e \<and>
           convert_raw_collector name raw = Inl e)"
  using assms
proof (induction raws acc rule: convert_collectors.induct)
  case (1 acc)
  then show ?case by simp
next
  case (2 name raw rest acc)
  show ?case
  proof (cases "convert_raw_collector name raw")
    case (Inl e)
    then show ?thesis by auto
  next
    case (Inr c)
    have notin: "map_of rest name = None" and dist: "distinct (map fst rest)"
      using "2.prems" by (simp_all add: map_of_eq_None_iff)
    have step: "convert_collectors ((name, raw) # rest) acc = convert_collectors rest (AList.update name c acc)"
      by (simp add: Inr)
    from "2.IH" [OF dist, of c] show ?thesis
    proof (elim disjE exE conjE)
      fix cs
      assume cs: "convert_collectors rest (AList.update name c acc) = Inr cs"
        and m: "\<forall>n. map_of cs n = (case map_of rest n of None \<Rightarrow> map_of (AList.update name c acc) n
           | Some raw \<Rightarrow> Some (projr (convert_raw_collector n raw)))"
        and d: "distinct (map fst (AList.update name c acc)) \<longrightarrow> distinct (map fst cs)"
      have "map_of cs n = (case map_of ((name, raw) # rest) n of None \<Rightarrow> map_of acc n
           | Some raw \<Rightarrow> Some (projr (convert_raw_collector n raw)))" for n
        using notin by (auto simp: m Inr update_conv' split: option.splits)
      moreover have "distinct (map fst acc) \<longrightarrow> distinct (map fst cs)"
        using d by (simp add: distinct_update)
      ultimately show ?thesis
        unfolding step using cs by blast
    next
      fix n r e
      assume "(n, r) \<in> set rest" "convert_collectors rest (AList.update name c acc) = Inl e"
        "convert_raw_collector n r = Inl e"
      then show ?thesis unfolding step by auto
    qed
  qed
qed

section \<open>Properties\<close>

text \<open>A configuration file loads exactly when it can be read, is well-formed JSON, and each of its four
  durations is absent or a valid Go duration; for the two flush settings the one that counts is the
  \<open>Batch\<close> section's or, where that is empty, the older \<open>Kafka\<close> section's.\<close>

theorem config_loads_iff:
  "is_ok (load_config read_file unmarshal path) \<longleftrightarrow>
     (case read_file path of None \<Rightarrow> False
      | Some data \<Rightarrow> (case unmarshal data of None \<Rightarrow> False
         | Some raw \<Rightarrow>
             duration_ok (rk_timeout (rw_kafka raw)) \<and> duration_ok (rw_update_server_interval raw) \<and>
             duration_ok (if rb_flush_frequency (rw_batch raw) = [] then rk_flush_frequency (rw_kafka raw)
                          else rb_flush_frequency (rw_batch raw)) \<and>
             duration_ok (if rb_retry_backoff (rw_batch raw) = [] then rk_retry_backoff (rw_kafka raw)
                          else rb_retry_backoff (rw_batch raw))))"
  by (auto simp: load_config_def parse_config_def is_ok_bind convert_raw_config_ok durations_of_def
      split: option.splits)

text \<open>No configuration file can switch a default off by giving zero: whatever the file says, the loaded
  cap on buffered records, retry count, flush period, acknowledgement level and address refresh period
  are not zero.  In particular the documented "0 disables the cap" and \<open>RequiredAcks\<close> 0 cannot be
  reached from a file.\<close>

theorem zero_cannot_be_loaded:
  assumes "parse_config unmarshal data = Inr cfg"
  shows "bc_max_buffered_records (cfg_batch cfg) \<noteq> 0 \<and> bc_max_retries (cfg_batch cfg) \<noteq> 0 \<and>
    bc_flush_frequency (cfg_batch cfg) \<noteq> 0 \<and> kc_required_acks (cfg_kafka cfg) \<noteq> 0 \<and>
    cfg_update_server_interval cfg \<noteq> 0 \<and> cfg_sender_type cfg \<noteq> []"
  using assms
  by (auto simp: parse_config_def bind_result_eq_Inr merge_config_def set_zero_iff default_config_def
      duration_units split: option.splits)

definition empty_raw :: raw_config where
  "empty_raw =
     \<lparr>rw_sender_type = [],
      rw_file = \<lparr>fc_file_path = [], fc_max_size_mb = 0, fc_max_backups = 0, fc_console = False,
        fc_pretty = False, fc_format = []\<rparr>,
      rw_kafka = \<lparr>rk_broker_port = 0, rk_compression = [], rk_required_acks = 0,
        rk_max_retries = 0, rk_retry_backoff = [], rk_flush_frequency = [], rk_flush_messages = 0,
        rk_batch_size = 0, rk_timeout = [], rk_enable_tls = False, rk_tls_cert_file = [],
        rk_tls_key_file = [], rk_tls_ca_file = [], rk_sasl_enabled = False, rk_sasl_mechanism = [],
        rk_sasl_user = [], rk_sasl_password = []\<rparr>,
      rw_batch = \<lparr>rb_flush_frequency = [], rb_flush_messages = 0, rb_max_batch_size = 0, rb_max_retries = 0,
        rb_retry_backoff = [], rb_max_buffered_records = 0\<rparr>,
      rw_virtual_address_list = [], rw_redis = \<lparr>rd_port = 0, rd_password = []\<rparr>, rw_private_ip_pattern = [],
      rw_socks = \<lparr>sk_host = [], sk_port = 0\<rparr>, rw_service_discovery_port = 0, rw_topic = [],
      rw_time_diff_sync_interval = 0, rw_update_server_interval = []\<rparr>"

theorem zero_cannot_be_loaded_witness:
  "\<exists>cfg. parse_config (\<lambda>u. Some empty_raw) () = Inr cfg \<and> bc_max_buffered_records (cfg_batch cfg) \<noteq> 0"
proof -
  obtain cfg where cfg: "parse_config (\<lambda>u. Some empty_raw) () = Inr cfg"
    by (simp add: parse_config_def convert_raw_config_def convert_raw_kafka_def convert_raw_batch_def
        duration_field_of_def empty_raw_def Let_def)
  from zero_cannot_be_loaded [OF cfg] cfg show ?thesis by blast
qed

text \<open>\<open>Monitor.json\<close> is loaded collector by collector: when it loads, the collectors are exactly those of
  the file, each with its own settings converted, and when it does not, some collector's interval is
  not a duration.\<close>

theorem monitor_loads_per_collector:
  assumes "unmarshal data = Some raws" and "distinct (map fst raws)"
  shows "case parse_monitor unmarshal data of
      Inr mc \<Rightarrow> map_of (mc_collectors mc) name =
        map_option (\<lambda>raw. projr (convert_raw_collector name raw)) (map_of raws name)
    | Inl e \<Rightarrow> (\<exists>n raw. (n, raw) \<in> set raws \<and> e = Bad_Duration (''interval for collector '' @ n) \<and>
        \<not> duration_ok (rl_interval raw))"
  using convert_collectors_map [OF assms(2), of "[]"]
proof (elim disjE exE conjE)
  fix cs
  assume cs: "convert_collectors raws [] = Inr cs"
    and m: "\<forall>name. map_of cs name = (case map_of raws name of None \<Rightarrow> map_of [] name
           | Some raw \<Rightarrow> Some (projr (convert_raw_collector name raw)))"
    and d: "distinct (map fst ([] :: (string \<times> collector_config) list)) \<longrightarrow> distinct (map fst cs)"
  show ?thesis
  proof (cases "raws = []")
    case True
    then show ?thesis using assms by (simp add: parse_monitor_def default_monitor_config_def)
  next
    case False
    have "map_of (mc_collectors (merge_monitor default_monitor_config (Some \<lparr>mc_collectors = cs\<rparr>))) name = map_of cs name"
      using d by (subst merge_monitor_map) (simp_all add: default_monitor_config_def split: option.splits)
    then show ?thesis using assms False cs m by (simp add: parse_monitor_def split: option.splits)
  qed
next
  fix n raw e
  assume "(n, raw) \<in> set raws" "convert_collectors raws [] = Inl e" "convert_raw_collector n raw = Inl e"
  moreover from this have "e = Bad_Duration (''interval for collector '' @ n)" "\<not> duration_ok (rl_interval raw)"
    by (auto simp: convert_raw_collector_def duration_field_of_def duration_ok_def split: if_splits option.splits)
  ultimately show ?thesis using assms by (auto simp: parse_monitor_def)
qed

definition sample_raw_collector :: raw_collector_config where
  "sample_raw_collector =
     \<lparr>rl_enabled = True, rl_interval = ''1m'', rl_top_n = 5, rl_disks = [], rl_interfaces = [], rl_include_zones = [],
      rl_watch_processes = [], rl_required_processes = [], rl_forbidden_processes = []\<rparr>"

theorem monitor_loads_per_collector_witness:
  "case parse_monitor (\<lambda>u. Some [(''CPU'', sample_raw_collector)]) () of
      Inr mc \<Rightarrow> map_of (mc_collectors mc) ''CPU'' = Some (projr (convert_raw_collector ''CPU'' sample_raw_collector))
    | Inl e \<Rightarrow> \<not> duration_ok (rl_interval sample_raw_collector)"
  using monitor_loads_per_collector [of "\<lambda>u. Some [(''CPU'', sample_raw_collector)]" "()"
      "[(''CPU'', sample_raw_collector)]" "''CPU''"]
  by (auto split: sum.splits)

end
