(* ===== verification/Validate.thy ===== *)
theory Validate
  imports Loader
begin

text \<open>
  \<open>internal/config/validate.go\<close>.  An error keeps the field, the offending value and the rule it breaks;
  the rule stands for the fixed message text.  \<open>regexp.Compile\<close> is the argument \<open>compiles\<close>.
\<close>

section \<open>Errors\<close>

datatype bad_value = V_Text string | V_Int int | V_Duration int | V_Host_Port string int

datatype rule =
    Sender_Type_Known | Required_For_Sender string | Port_In_Range | File_Format_Known
  | Compression_Known | Acks_Known | Positive | Non_Negative | Valid_Regex
  | Host_And_Port_Together | Interval_At_Least_Second | Level_Known

record validation_error =
  ve_field :: string
  ve_value :: bad_value
  ve_rule :: rule

definition verr :: "string \<Rightarrow> bad_value \<Rightarrow> rule \<Rightarrow> validation_error" where
  "verr f v r = \<lparr>ve_field = f, ve_value = v, ve_rule = r\<rparr>"

definition require :: "bool \<Rightarrow> validation_error \<Rightarrow> validation_error list" where
  "require ok e = (if ok then [] else [e])"

section \<open>The main configuration\<close>

definition validate_port :: "string \<Rightarrow> int \<Rightarrow> validation_error list" where
  "validate_port field port =
     (if port < 1 \<or> port > 65535 then [verr field (V_Int port) Port_In_Range] else [])"

definition validate_config :: "(string \<Rightarrow> bool) \<Rightarrow> config \<Rightarrow> validation_error list" where
  "validate_config compiles cfg =
     (let sender_type = to_lower (cfg_sender_type cfg); batch = cfg_batch cfg; socks = cfg_socks cfg in
      require (sender_type \<in> {''kafka'', ''kafkarest'', ''file''})
        (verr ''SenderType'' (V_Text (cfg_sender_type cfg)) Sender_Type_Known) @
      require (\<not> (sender_type \<noteq> ''file'' \<and> cfg_virtual_address_list cfg = []))
        (verr ''VirtualAddressList'' (V_Text []) (Required_For_Sender (cfg_sender_type cfg))) @
      validate_port ''Kafka.BrokerPort'' (kc_broker_port (cfg_kafka cfg)) @
      validate_port ''Redis.Port'' (rd_port (cfg_redis cfg)) @
      validate_port ''ServiceDiscoveryPort'' (cfg_service_discovery_port cfg) @
      require (\<not> (sk_port socks > 0 \<and> sk_port socks > 65535))
        (verr ''SOCKSProxy.Port'' (V_Int (sk_port socks)) Port_In_Range) @
      require (to_lower (fc_format (cfg_file cfg)) \<in> {[], ''json'', ''grok'', ''legacy''})
        (verr ''File.Format'' (V_Text (fc_format (cfg_file cfg))) File_Format_Known) @
      require (to_lower (kc_compression (cfg_kafka cfg)) \<in> {[], ''none'', ''snappy'', ''gzip'', ''lz4'', ''zstd''})
        (verr ''Kafka.Compression'' (V_Text (kc_compression (cfg_kafka cfg))) Compression_Known) @
      require (kc_required_acks (cfg_kafka cfg) \<in> {0, 1, - 1})
        (verr ''Kafka.RequiredAcks'' (V_Int (kc_required_acks (cfg_kafka cfg))) Acks_Known) @
      require (\<not> bc_flush_messages batch \<le> 0)
        (verr ''Batch.FlushMessages'' (V_Int (bc_flush_messages batch)) Positive) @
      require (\<not> bc_max_batch_size batch \<le> 0)
        (verr ''Batch.MaxBatchSize'' (V_Int (bc_max_batch_size batch)) Positive) @
      require (\<not> bc_max_retries batch < 0)
        (verr ''Batch.MaxRetries'' (V_Int (bc_max_retries batch)) Non_Negative) @
      require (\<not> bc_max_buffered_records batch < 0)
        (verr ''Batch.MaxBufferedRecords'' (V_Int (bc_max_buffered_records batch)) Non_Negative) @
      require (cfg_private_ip_pattern cfg = [] \<or> compiles (cfg_private_ip_pattern cfg))
        (verr ''PrivateIPAddressPattern'' (V_Text (cfg_private_ip_pattern cfg)) Valid_Regex) @
      require ((sk_host socks \<noteq> []) = (sk_port socks > 0))
        (verr ''SOCKSProxy'' (V_Host_Port (sk_host socks) (sk_port socks)) Host_And_Port_Together))"

section \<open>Collectors and logging\<close>

definition validate_monitor_config :: "monitor_config \<Rightarrow> validation_error list" where
  "validate_monitor_config mc =
     concat (map (\<lambda>(name, cc).
       if \<not> cc_enabled cc then []
       else require (\<not> cc_interval cc < second)
         (verr (''Collectors.'' @ name @ ''.Interval'') (V_Duration (cc_interval cc)) Interval_At_Least_Second))
       (mc_collectors mc))"

definition log_levels :: "string list" where
  "log_levels = [''trace'', ''debug'', ''info'', ''warn'', ''error'', ''fatal'', ''panic'', ''disabled'']"

definition validate_logging_config :: "logging_config \<Rightarrow> validation_error list" where
  "validate_logging_config lc =
     require (to_lower (lc_level lc) \<in> set log_levels) (verr ''Level'' (V_Text (lc_level lc)) Level_Known) @
     require (\<not> lc_max_size_mb lc \<le> 0) (verr ''MaxSizeMB'' (V_Int (lc_max_size_mb lc)) Positive) @
     require (\<not> lc_max_backups lc < 0) (verr ''MaxBackups'' (V_Int (lc_max_backups lc)) Non_Negative) @
     require (\<not> lc_max_age_days lc < 0) (verr ''MaxAgeDays'' (V_Int (lc_max_age_days lc)) Non_Negative)"

section \<open>What a configuration without errors satisfies\<close>

definition port_ok :: "int \<Rightarrow> bool" where
  "port_ok p = (1 \<le> p \<and> p \<le> 65535)"

definition config_ok :: "(string \<Rightarrow> bool) \<Rightarrow> config \<Rightarrow> bool" where
  "config_ok compiles cfg =
     (to_lower (cfg_sender_type cfg) \<in> {''kafka'', ''kafkarest'', ''file''} \<and>
      (to_lower (cfg_sender_type cfg) = ''file'' \<or> 0 < length (cfg_virtual_address_list cfg)) \<and>
      port_ok (kc_broker_port (cfg_kafka cfg)) \<and> port_ok (rd_port (cfg_redis cfg)) \<and>
      port_ok (cfg_service_discovery_port cfg) \<and> sk_port (cfg_socks cfg) \<le> 65535 \<and>
      to_lower (fc_format (cfg_file cfg)) \<in> {[], ''json'', ''grok'', ''legacy''} \<and>
      to_lower (kc_compression (cfg_kafka cfg)) \<in> {[], ''none'', ''snappy'', ''gzip'', ''lz4'', ''zstd''} \<and>
      \<bar>kc_required_acks (cfg_kafka cfg)\<bar> \<le> 1 \<and>
      0 < bc_flush_messages (cfg_batch cfg) \<and> 0 < bc_max_batch_size (cfg_batch cfg) \<and>
      0 \<le> bc_max_retries (cfg_batch cfg) \<and> 0 \<le> bc_max_buffered_records (cfg_batch cfg) \<and>
      (cfg_private_ip_pattern cfg = [] \<or> compiles (cfg_private_ip_pattern cfg)) \<and>
      (sk_host (cfg_socks cfg) \<noteq> [] \<longleftrightarrow> 0 < sk_port (cfg_socks cfg)))"

lemma require_Nil [simp]: "require ok e = [] \<longleftrightarrow> ok"
  by (simp add: require_def)

lemma validate_port_Nil [simp]: "validate_port f p = [] \<longleftrightarrow> port_ok p"
  by (auto simp: validate_port_def port_ok_def)

lemma validate_config_iff: "validate_config compiles cfg = [] \<longleftrightarrow> config_ok compiles cfg"
proof -
  have acks: "(k \<in> {0, 1, - 1}) = (\<bar>k\<bar> \<le> 1)" for k :: int by auto
  have socks: "(\<not> (0 < p \<and> 65535 < p)) = (p \<le> 65535)" for p :: int by auto
  have sender: "(\<not> (s \<noteq> f \<and> v = [])) = (s = f \<or> 0 < length v)" for s f v :: string by auto
  show ?thesis
    unfolding validate_config_def config_ok_def Let_def append_is_Nil_conv require_Nil
      validate_port_Nil acks socks sender not_le not_less ..
qed

lemma validate_monitor_iff:
  "validate_monitor_config mc = [] \<longleftrightarrow>
     (\<forall>(name, cc) \<in> set (mc_collectors mc). cc_enabled cc \<longrightarrow> second \<le> cc_interval cc)"
  by (fastforce simp: validate_monitor_config_def)

lemma default_config_ok:
  "config_ok compiles (default_config\<lparr>cfg_virtual_address_list := v\<rparr>) \<longleftrightarrow> v \<noteq> []"
  by (simp add: config_ok_def default_config_def port_ok_def to_lower_def ascii_lower_def)

section \<open>Properties\<close>

text \<open>\<open>ValidateConfig\<close> finds no error exactly for the configurations that are in order: a known sender, an
  address list unless the sender is the file, ports in range, known file format, compression and
  acknowledgements, positive flush and batch sizes, non-negative retries and cap, a pattern that
  compiles, and a SOCKS host and port given together.  The defaults lack only the address list.\<close>

theorem validation_exact:
  "(validate_config compiles cfg = [] \<longleftrightarrow>
      to_lower (cfg_sender_type cfg) \<in> {''kafka'', ''kafkarest'', ''file''} \<and>
      (to_lower (cfg_sender_type cfg) = ''file'' \<or> 0 < length (cfg_virtual_address_list cfg)) \<and>
      port_ok (kc_broker_port (cfg_kafka cfg)) \<and> port_ok (rd_port (cfg_redis cfg)) \<and>
      port_ok (cfg_service_discovery_port cfg) \<and> sk_port (cfg_socks cfg) \<le> 65535 \<and>
      to_lower (fc_format (cfg_file cfg)) \<in> {[], ''json'', ''grok'', ''legacy''} \<and>
      to_lower (kc_compression (cfg_kafka cfg)) \<in> {[], ''none'', ''snappy'', ''gzip'', ''lz4'', ''zstd''} \<and>
      \<bar>kc_required_acks (cfg_kafka cfg)\<bar> \<le> 1 \<and>
      0 < bc_flush_messages (cfg_batch cfg) \<and> 0 < bc_max_batch_size (cfg_batch cfg) \<and>
      0 \<le> bc_max_retries (cfg_batch cfg) \<and> 0 \<le> bc_max_buffered_records (cfg_batch cfg) \<and>
      (cfg_private_ip_pattern cfg = [] \<or> compiles (cfg_private_ip_pattern cfg)) \<and>
      (sk_host (cfg_socks cfg) \<noteq> [] \<longleftrightarrow> 0 < sk_port (cfg_socks cfg))) \<and>
   (validate_config compiles (default_config\<lparr>cfg_virtual_address_list := v\<rparr>) = [] \<longleftrightarrow> v \<noteq> [])"
  using validate_config_iff [of compiles cfg] default_config_ok [of compiles v]
    validate_config_iff [of compiles "default_config\<lparr>cfg_virtual_address_list := v\<rparr>"]
  unfolding config_ok_def by argo

end
