(* ===== verification/Registry.thy ===== *)
theory Registry
  imports Sensors Processes Network Validate
begin

text \<open>
  \<open>internal/collector/registry.go\<close>: the collectors by name, their configuration and their defaults; the
  interface \<open>Collector\<close> is the datatype \<open>collector\<close> with its dispatch functions.  At the end, what
  \<open>main.go\<close> does with them at start-up and on a reload of Monitor.json.
\<close>

section \<open>The interface\<close>

datatype collector =
    C_CPU base_collector
  | C_Memory base_collector
  | C_Disk filtered_collector
  | C_Network network_collector
  | C_Temperature filtered_collector
  | C_CPUProcess process_collector
  | C_MemoryProcess process_collector
  | C_Fan filtered_collector
  | C_GPU filtered_collector
  | C_StorageSmart filtered_collector
  | C_Voltage filtered_collector
  | C_MotherboardTemp filtered_collector
  | C_Uptime base_collector
  | C_ProcessWatch watch_collector
  | C_StorageHealth filtered_collector
  | C_SelfMetrics base_collector

text \<open>The methods a collector inherits from its base.\<close>

primrec collector_name :: "collector \<Rightarrow> string" where
  "collector_name (C_CPU c) = co_name c"
| "collector_name (C_Memory c) = co_name c"
| "collector_name (C_Disk c) = co_name c"
| "collector_name (C_Network c) = co_name c"
| "collector_name (C_Temperature c) = co_name c"
| "collector_name (C_CPUProcess c) = co_name c"
| "collector_name (C_MemoryProcess c) = co_name c"
| "collector_name (C_Fan c) = co_name c"
| "collector_name (C_GPU c) = co_name c"
| "collector_name (C_StorageSmart c) = co_name c"
| "collector_name (C_Voltage c) = co_name c"
| "collector_name (C_MotherboardTemp c) = co_name c"
| "collector_name (C_Uptime c) = co_name c"
| "collector_name (C_ProcessWatch c) = co_name c"
| "collector_name (C_StorageHealth c) = co_name c"
| "collector_name (C_SelfMetrics c) = co_name c"

primrec collector_interval :: "collector \<Rightarrow> int" where
  "collector_interval (C_CPU c) = co_interval c"
| "collector_interval (C_Memory c) = co_interval c"
| "collector_interval (C_Disk c) = co_interval c"
| "collector_interval (C_Network c) = co_interval c"
| "collector_interval (C_Temperature c) = co_interval c"
| "collector_interval (C_CPUProcess c) = co_interval c"
| "collector_interval (C_MemoryProcess c) = co_interval c"
| "collector_interval (C_Fan c) = co_interval c"
| "collector_interval (C_GPU c) = co_interval c"
| "collector_interval (C_StorageSmart c) = co_interval c"
| "collector_interval (C_Voltage c) = co_interval c"
| "collector_interval (C_MotherboardTemp c) = co_interval c"
| "collector_interval (C_Uptime c) = co_interval c"
| "collector_interval (C_ProcessWatch c) = co_interval c"
| "collector_interval (C_StorageHealth c) = co_interval c"
| "collector_interval (C_SelfMetrics c) = co_interval c"

primrec collector_enabled :: "collector \<Rightarrow> bool" where
  "collector_enabled (C_CPU c) = co_enabled c"
| "collector_enabled (C_Memory c) = co_enabled c"
| "collector_enabled (C_Disk c) = co_enabled c"
| "collector_enabled (C_Network c) = co_enabled c"
| "collector_enabled (C_Temperature c) = co_enabled c"
| "collector_enabled (C_CPUProcess c) = co_enabled c"
| "collector_enabled (C_MemoryProcess c) = co_enabled c"
| "collector_enabled (C_Fan c) = co_enabled c"
| "collector_enabled (C_GPU c) = co_enabled c"
| "collector_enabled (C_StorageSmart c) = co_enabled c"
| "collector_enabled (C_Voltage c) = co_enabled c"
| "collector_enabled (C_MotherboardTemp c) = co_enabled c"
| "collector_enabled (C_Uptime c) = co_enabled c"
| "collector_enabled (C_ProcessWatch c) = co_enabled c"
| "collector_enabled (C_StorageHealth c) = co_enabled c"
| "collector_enabled (C_SelfMetrics c) = co_enabled c"

text \<open>\<open>DefaultConfig\<close>: the collectors that do not override it give their current interval.\<close>

primrec default_collector_config :: "collector \<Rightarrow> collector_config" where
  "default_collector_config (C_CPU c) = base_default_config c"
| "default_collector_config (C_Memory c) = base_default_config c"
| "default_collector_config (C_Disk c) = disk_default_config c"
| "default_collector_config (C_Network c) = base_default_config c"
| "default_collector_config (C_Temperature c) = temperature_default_config c"
| "default_collector_config (C_CPUProcess c) = cpu_process_default_config c"
| "default_collector_config (C_MemoryProcess c) = memory_process_default_config c"
| "default_collector_config (C_Fan c) = fan_default_config c"
| "default_collector_config (C_GPU c) = gpu_default_config c"
| "default_collector_config (C_StorageSmart c) = storage_smart_default_config c"
| "default_collector_config (C_Voltage c) = voltage_default_config c"
| "default_collector_config (C_MotherboardTemp c) = motherboard_temp_default_config c"
| "default_collector_config (C_Uptime c) = base_default_config c"
| "default_collector_config (C_ProcessWatch c) = base_default_config c"
| "default_collector_config (C_StorageHealth c) = storage_health_default_config c"
| "default_collector_config (C_SelfMetrics c) = self_metrics_default_config c"

primrec configure_collector :: "bool \<Rightarrow> collector_config \<Rightarrow> collector \<Rightarrow> collector" where
  "configure_collector windows cfg (C_CPU c) = C_CPU (configure_base cfg c)"
| "configure_collector windows cfg (C_Memory c) = C_Memory (configure_base cfg c)"
| "configure_collector windows cfg (C_Disk c) = C_Disk (configure_disk cfg c)"
| "configure_collector windows cfg (C_Network c) = C_Network (configure_network cfg c)"
| "configure_collector windows cfg (C_Temperature c) = C_Temperature (configure_temperature cfg c)"
| "configure_collector windows cfg (C_CPUProcess c) = C_CPUProcess (configure_cpu_process windows cfg c)"
| "configure_collector windows cfg (C_MemoryProcess c) = C_MemoryProcess (configure_memory_process windows cfg c)"
| "configure_collector windows cfg (C_Fan c) = C_Fan (configure_fan cfg c)"
| "configure_collector windows cfg (C_GPU c) = C_GPU (configure_gpu cfg c)"
| "configure_collector windows cfg (C_StorageSmart c) = C_StorageSmart (configure_storage_smart cfg c)"
| "configure_collector windows cfg (C_Voltage c) = C_Voltage (configure_voltage cfg c)"
| "configure_collector windows cfg (C_MotherboardTemp c) = C_MotherboardTemp (configure_motherboard_temp cfg c)"
| "configure_collector windows cfg (C_Uptime c) = C_Uptime (configure_base cfg c)"
| "configure_collector windows cfg (C_ProcessWatch c) = C_ProcessWatch (configure_process_watch windows cfg c)"
| "configure_collector windows cfg (C_StorageHealth c) = C_StorageHealth (configure_storage_health cfg c)"
| "configure_collector windows cfg (C_SelfMetrics c) = C_SelfMetrics (configure_base cfg c)"

section \<open>The registry\<close>

type_synonym registry = "(string \<times> collector) list"

definition register :: "collector \<Rightarrow> registry \<Rightarrow> string + registry" where
  "register c r =
     (case map_of r (collector_name c) of
        Some _ \<Rightarrow> Inl (''collector '' @ collector_name c @ '' already registered'')
      | None \<Rightarrow> Inr (AList.update (collector_name c) c r))"

definition get_collector :: "string \<Rightarrow> registry \<Rightarrow> collector option" where
  "get_collector name r = map_of r name"

definition all_collectors :: "registry \<Rightarrow> collector list" where
  "all_collectors r = map snd r"

text \<open>\<open>Registry.Configure\<close>; no \<open>Configure\<close> of a collector reports an error, so neither does the loop.\<close>

definition configure_registry :: "bool \<Rightarrow> (string \<times> collector_config) list \<Rightarrow> registry \<Rightarrow> registry" where
  "configure_registry windows configs r =
     fold (\<lambda>(name, cfg) r.
       (case map_of r name of
          Some c \<Rightarrow> AList.update name (configure_collector windows cfg c) r
        | None \<Rightarrow> r)) configs r"

definition enabled_collectors :: "registry \<Rightarrow> collector list" where
  "enabled_collectors r = filter collector_enabled (map snd r)"

definition default_configs :: "registry \<Rightarrow> (string \<times> collector_config) list" where
  "default_configs r = fold (\<lambda>c m. AList.update (collector_name c) (default_collector_config c) m) (map snd r) []"

text \<open>The errors of \<open>Register\<close> are ignored here, as in the code.\<close>

definition register_ignoring :: "collector \<Rightarrow> registry \<Rightarrow> registry" where
  "register_ignoring c r = (case register c r of Inr r' \<Rightarrow> r' | Inl _ \<Rightarrow> r)"

definition default_collectors :: "bool \<Rightarrow> int \<Rightarrow> collector list" where
  "default_collectors windows num_cpu =
     [C_CPU new_cpu_collector, C_Memory new_memory_collector, C_Disk new_disk_collector,
      C_Network new_network_collector, C_Temperature new_temperature_collector,
      C_CPUProcess (new_cpu_process_collector num_cpu), C_MemoryProcess new_memory_process_collector,
      C_Fan new_fan_collector, C_GPU new_gpu_collector, C_StorageSmart new_storage_smart_collector,
      C_Voltage new_voltage_collector, C_MotherboardTemp new_motherboard_temp_collector,
      C_Uptime new_uptime_collector, C_ProcessWatch (new_process_watch_collector windows),
      C_StorageHealth new_storage_health_collector]"

definition default_registry :: "bool \<Rightarrow> int \<Rightarrow> registry" where
  "default_registry windows num_cpu = fold register_ignoring (default_collectors windows num_cpu) []"

text \<open>\<open>setupCollectors\<close> followed by \<open>registry.Configure\<close>, and the callback of the Monitor.json watcher.\<close>

definition setup_collectors :: "bool \<Rightarrow> int \<Rightarrow> monitor_config \<Rightarrow> monitor_config \<times> registry" where
  "setup_collectors windows num_cpu mc =
     (let r = default_registry windows num_cpu in (apply_defaults mc (default_configs r), r))"

definition start_collectors :: "bool \<Rightarrow> int \<Rightarrow> monitor_config \<Rightarrow> registry" where
  "start_collectors windows num_cpu mc =
     (let (mc', r) = setup_collectors windows num_cpu mc in configure_registry windows (mc_collectors mc') r)"

definition apply_monitor_change :: "bool \<Rightarrow> monitor_config \<Rightarrow> registry \<Rightarrow> registry" where
  "apply_monitor_change windows new_mc r =
     configure_registry windows (mc_collectors (apply_defaults new_mc (default_configs r))) r"

text \<open>
  The watcher of \<open>Monitor.json\<close> (\<open>NewMonitorWatcher\<close>): a file that does not load or does not pass
  validation leaves the collectors as they are, any other is applied.
\<close>

definition monitor_file_changed ::
  "bool \<Rightarrow> (string \<Rightarrow> 'b option) \<Rightarrow> ('b \<Rightarrow> (string \<times> raw_collector_config) list option) \<Rightarrow> string \<Rightarrow> registry \<Rightarrow> registry" where
  "monitor_file_changed windows read_file unmarshal path r =
     (case load_monitor read_file unmarshal path of
        Inl e \<Rightarrow> r
      | Inr mc \<Rightarrow> if validate_monitor_config mc \<noteq> [] then r else apply_monitor_change windows mc r)"

text \<open>The registration of the self metrics in \<open>run\<close>, after the sender exists.\<close>

definition register_self_metrics :: "monitor_config \<Rightarrow> registry \<Rightarrow> registry" where
  "register_self_metrics mc r =
     (let c = C_SelfMetrics new_self_metrics_collector in
      case register c r of
        Inl e \<Rightarrow> r
      | Inr r' \<Rightarrow>
          (let cfg = (case map_of (mc_collectors mc) ''SelfMetrics'' of Some x \<Rightarrow> x | None \<Rightarrow> default_collector_config c)
           in AList.update ''SelfMetrics'' (configure_collector False cfg c) r'))"

section \<open>Facts on the collectors\<close>

lemmas collector_defs = new_cpu_collector_def new_memory_collector_def new_disk_collector_def
  new_network_collector_def new_temperature_collector_def new_cpu_process_collector_def
  new_memory_process_collector_def new_fan_collector_def new_gpu_collector_def
  new_storage_smart_collector_def new_voltage_collector_def new_motherboard_temp_collector_def
  new_uptime_collector_def new_process_watch_collector_def new_storage_health_collector_def
  new_self_metrics_collector_def new_base_collector_def new_filtered_def

lemmas configure_defs = configure_disk_def configure_network_def configure_temperature_def
  configure_cpu_process_def configure_memory_process_def configure_fan_def configure_gpu_def
  configure_storage_smart_def configure_voltage_def configure_motherboard_temp_def
  configure_process_watch_def configure_storage_health_def

lemmas default_config_defs = base_default_config_def disk_default_config_def temperature_default_config_def
  cpu_process_default_config_def memory_process_default_config_def fan_default_config_def
  gpu_default_config_def storage_smart_default_config_def voltage_default_config_def
  motherboard_temp_default_config_def storage_health_default_config_def self_metrics_default_config_def

lemma configure_collector_name [simp]: "collector_name (configure_collector w cfg c) = collector_name c"
  by (cases c) (simp_all add: configure_defs Let_def)

lemma configure_collector_enabled [simp]: "collector_enabled (configure_collector w cfg c) = cc_enabled cfg"
  by (cases c) (simp_all add: configure_defs Let_def)

lemma configure_collector_interval [simp]:
  "collector_interval (configure_collector w cfg c) =
     (if cc_interval cfg > 0 then cc_interval cfg else collector_interval c)"
  by (cases c) (simp_all add: configure_defs Let_def)

lemma default_collector_enabled: "cc_enabled (default_collector_config c)"
  by (cases c) (simp_all add: default_config_defs)

lemma default_collector_interval:
  "0 < collector_interval c \<Longrightarrow> 0 < cc_interval (default_collector_config c)"
  "second \<le> collector_interval c \<Longrightarrow> second \<le> cc_interval (default_collector_config c)"
  by (cases c; simp add: default_config_defs second_def)+

section \<open>Facts on the registry\<close>

definition well_formed :: "registry \<Rightarrow> bool" where
  "well_formed r = (distinct (map fst r) \<and> (\<forall>(name, c) \<in> set r. collector_name c = name))"

lemma map_of_fold_configure:
  assumes "distinct (map fst configs)"
  shows "map_of (configure_registry w configs r) name =
     (case map_of r name of
        None \<Rightarrow> None
      | Some c \<Rightarrow> (case map_of configs name of None \<Rightarrow> Some c | Some cfg \<Rightarrow> Some (configure_collector w cfg c)))"
  using assms
proof (induction configs arbitrary: r)
  case Nil
  then show ?case by (simp add: configure_registry_def split: option.splits)
next
  case (Cons x xs)
  obtain n cfg where x: "x = (n, cfg)" by force
  have n: "map_of xs n = None" using Cons.prems x by (simp add: map_of_eq_None_iff)
  have step: "configure_registry w (x # xs) r = configure_registry w xs
      (case map_of r n of Some c \<Rightarrow> AList.update n (configure_collector w cfg c) r | None \<Rightarrow> r)"
    by (simp add: configure_registry_def x)
  show ?case
    unfolding step using Cons n by (cases "map_of r n") (auto simp: x update_conv' split: option.splits)
qed

lemma update_keys: "k \<in> fst ` set m \<Longrightarrow> map fst (AList.update k v m) = map fst m"
  by (induction m) auto

lemma configure_registry_keys: "map fst (configure_registry w configs r) = map fst r"
proof (induction configs arbitrary: r)
  case Nil
  then show ?case by (simp add: configure_registry_def)
next
  case (Cons x xs)
  obtain n cfg where x: "x = (n, cfg)" by force
  have step: "configure_registry w (x # xs) r = configure_registry w xs
      (case map_of r n of Some c \<Rightarrow> AList.update n (configure_collector w cfg c) r | None \<Rightarrow> r)"
    by (simp add: configure_registry_def x)
  have "n \<in> fst ` set r" if "map_of r n = Some c" for c
    using that by (metis domI dom_map_of_conv_image_fst)
  then show ?case
    unfolding step using Cons by (auto simp: update_keys split: option.splits)
qed

lemma configure_registry_well_formed:
  assumes "well_formed r" and "distinct (map fst configs)"
  shows "well_formed (configure_registry w configs r)"
proof -
  have d: "distinct (map fst (configure_registry w configs r))"
    using assms(1) by (simp add: configure_registry_keys well_formed_def)
  have "collector_name c = name" if "(name, c) \<in> set (configure_registry w configs r)" for name c
  proof -
    have m: "map_of (configure_registry w configs r) name = Some c"
      using that d by (simp add: map_of_is_SomeI)
    then obtain c0 where c0: "map_of r name = Some c0"
      "c = c0 \<or> (\<exists>cfg. c = configure_collector w cfg c0)"
      unfolding map_of_fold_configure [OF assms(2)] by (auto split: option.splits)
    have "collector_name c0 = name"
      using assms(1) map_of_SomeD [OF c0(1)] by (auto simp: well_formed_def)
    then show ?thesis using c0(2) by auto
  qed
  then show ?thesis using d by (auto simp: well_formed_def)
qed

lemma default_configs_map:
  assumes "well_formed r"
  shows "map_of (default_configs r) name = map_option default_collector_config (map_of r name)"
proof -
  have "map_of (fold (\<lambda>c m. AList.update (collector_name c) (default_collector_config c) m) (map snd xs) m) name =
      (case map_of xs name of None \<Rightarrow> map_of m name | Some c \<Rightarrow> Some (default_collector_config c))"
    if "distinct (map fst xs)" "\<forall>(name, c) \<in> set xs. collector_name c = name" for xs m
    using that
  proof (induction xs arbitrary: m)
    case Nil
    then show ?case by simp
  next
    case (Cons x xs)
    obtain n c where x: "x = (n, c)" by force
    have "map_of xs n = None" using Cons.prems x by (simp add: map_of_eq_None_iff)
    then show ?case using Cons x by (auto simp: update_conv' split: option.splits)
  qed
  from this [of r "[]"] show ?thesis
    using assms by (auto simp: default_configs_def well_formed_def split: option.splits)
qed

text \<open>All fifteen default collectors are registered: none has the name of another.\<close>

lemma default_registry_eq:
  "default_registry w n = map (\<lambda>c. (collector_name c, c)) (default_collectors w n)"
  by (simp add: default_registry_def default_collectors_def register_ignoring_def register_def collector_defs)

lemma default_registry_well_formed: "well_formed (default_registry w n)"
  unfolding well_formed_def default_registry_eq
  by (auto simp: comp_def) (simp add: default_collectors_def collector_defs)

lemma default_registry_intervals: "(name, c) \<in> set (default_registry w n) \<Longrightarrow> collector_interval c = 10 * second"
  unfolding default_registry_eq by (auto simp: default_collectors_def collector_defs)

section \<open>Intervals\<close>

lemma start_collectors_eq:
  "start_collectors w n mc =
     configure_registry w (mc_collectors (apply_defaults mc (default_configs (default_registry w n)))) (default_registry w n)"
  by (simp add: start_collectors_def setup_collectors_def Let_def)

definition intervals_positive :: "registry \<Rightarrow> bool" where
  "intervals_positive r = (\<forall>(name, c) \<in> set r. 0 < collector_interval c)"

lemma configure_keeps_positive:
  assumes "well_formed r" "distinct (map fst configs)" "intervals_positive r"
  shows "intervals_positive (configure_registry w configs r)"
  unfolding intervals_positive_def
proof (clarify)
  fix name c
  assume c: "(name, c) \<in> set (configure_registry w configs r)"
  have "distinct (map fst (configure_registry w configs r))"
    using configure_registry_well_formed [OF assms(1,2)] by (simp add: well_formed_def)
  then have m: "map_of (configure_registry w configs r) name = Some c" using c by (simp add: map_of_is_SomeI)
  then obtain c0 where c0: "map_of r name = Some c0" "c = c0 \<or> (\<exists>cfg. c = configure_collector w cfg c0)"
    unfolding map_of_fold_configure [OF assms(2)] by (auto split: option.splits)
  have "0 < collector_interval c0" using assms(3) map_of_SomeD [OF c0(1)] by (auto simp: intervals_positive_def)
  then show "0 < collector_interval c" using c0(2) by auto
qed

lemma convert_collectors_distinct:
  "convert_collectors raws acc = Inr cs \<Longrightarrow> distinct (map fst acc) \<Longrightarrow> distinct (map fst cs)"
  by (induction raws acc rule: convert_collectors.induct)
    (auto simp: bind_result_eq_Inr distinct_update)

lemma load_monitor_distinct:
  "load_monitor read_file um path = Inr mc \<Longrightarrow> distinct (map fst (mc_collectors mc))"
  by (auto simp: load_monitor_def parse_monitor_def bind_result_eq_Inr default_monitor_config_def
      split: option.splits if_splits intro!: merge_monitor_distinct)

lemma monitor_file_keeps:
  assumes "well_formed r" "intervals_positive r"
  shows "well_formed (monitor_file_changed w read_file um path r) \<and>
    intervals_positive (monitor_file_changed w read_file um path r)"
proof (cases "load_monitor read_file um path")
  case (Inr mc)
  have "distinct (map fst (mc_collectors (apply_defaults mc (default_configs r))))"
    by (rule apply_defaults_distinct [OF load_monitor_distinct [OF Inr]])
  then show ?thesis
    using assms configure_registry_well_formed configure_keeps_positive
    by (simp add: monitor_file_changed_def Inr apply_monitor_change_def)
qed (use assms in \<open>simp add: monitor_file_changed_def\<close>)

text \<open>The file changes of a run: each reads the file as it is then.\<close>

definition monitor_changes ::
  "bool \<Rightarrow> ('b \<Rightarrow> (string \<times> raw_collector_config) list option) \<Rightarrow> string \<Rightarrow> (string \<Rightarrow> 'b option) list \<Rightarrow> registry \<Rightarrow> registry" where
  "monitor_changes w um path reads r = fold (\<lambda>rf. monitor_file_changed w rf um path) reads r"

lemma monitor_changes_keep:
  "well_formed r \<Longrightarrow> intervals_positive r \<Longrightarrow>
     well_formed (monitor_changes w um path reads r) \<and> intervals_positive (monitor_changes w um path reads r)"
  by (induction reads arbitrary: r) (simp_all add: monitor_changes_def monitor_file_keeps)

lemma default_registry_names: "map fst (default_registry w n) = [''CPU'', ''Memory'', ''Disk'', ''Network'', ''Temperature'',
    ''CPUProcess'', ''MemoryProcess'', ''Fan'', ''GPU'', ''StorageSmart'', ''Voltage'', ''MotherboardTemp'', ''Uptime'',
    ''ProcessWatch'', ''StorageHealth'']"
  unfolding default_registry_eq by (simp add: default_collectors_def collector_defs)

lemma started_well_formed:
  assumes "distinct (map fst (mc_collectors mc))"
  shows "well_formed (start_collectors w n mc)" and "intervals_positive (start_collectors w n mc)"
proof -
  have d: "distinct (map fst (mc_collectors (apply_defaults mc (default_configs (default_registry w n)))))"
    by (rule apply_defaults_distinct [OF assms])
  have "intervals_positive (default_registry w n)"
    using default_registry_intervals by (fastforce simp: intervals_positive_def second_def)
  then show "well_formed (start_collectors w n mc)" "intervals_positive (start_collectors w n mc)"
    using configure_registry_well_formed [OF default_registry_well_formed d]
      configure_keeps_positive [OF default_registry_well_formed d]
    by (simp_all add: start_collectors_eq)
qed

text \<open>The configuration a collector gets at the start: the one of the file, or its own default.\<close>

lemma started_collector:
  assumes "distinct (map fst (mc_collectors mc))" and "(name, c) \<in> set (start_collectors w n mc)"
  obtains c0 cfg where "(name, c0) \<in> set (default_registry w n)" "c = configure_collector w cfg c0"
    "cfg = (case map_of (mc_collectors mc) name of Some x \<Rightarrow> x | None \<Rightarrow> default_collector_config c0)"
proof -
  let ?r = "default_registry w n"
  let ?mc = "apply_defaults mc (default_configs ?r)"
  have d: "distinct (map fst (mc_collectors ?mc))" by (rule apply_defaults_distinct [OF assms(1)])
  have eq: "start_collectors w n mc = configure_registry w (mc_collectors ?mc) ?r"
    by (simp add: start_collectors_eq)
  have "map_of (start_collectors w n mc) name = Some c"
    using started_well_formed(1) [OF assms(1)] assms(2) by (simp add: well_formed_def map_of_is_SomeI)
  then obtain c0 where c0: "map_of ?r name = Some c0"
    "c = (case map_of (mc_collectors ?mc) name of None \<Rightarrow> c0 | Some cfg \<Rightarrow> configure_collector w cfg c0)"
    unfolding eq map_of_fold_configure [OF d] by (auto split: option.splits)
  have "map_of (mc_collectors ?mc) name =
      Some (case map_of (mc_collectors mc) name of Some x \<Rightarrow> x | None \<Rightarrow> default_collector_config c0)"
    using c0(1) by (simp add: apply_defaults_map default_configs_map [OF default_registry_well_formed] split: option.splits)
  with c0 that map_of_SomeD [OF c0(1)] show ?thesis by auto
qed

section \<open>Properties\<close>

text \<open>At the start every one of the fifteen collectors is registered under its own name, and is enabled
  exactly when \<open>Monitor.json\<close> enables it or does not mention it.\<close>

theorem all_collectors_start:
  assumes "distinct (map fst (mc_collectors mc))"
  shows "map fst (start_collectors w n mc) = [''CPU'', ''Memory'', ''Disk'', ''Network'', ''Temperature'',
      ''CPUProcess'', ''MemoryProcess'', ''Fan'', ''GPU'', ''StorageSmart'', ''Voltage'', ''MotherboardTemp'', ''Uptime'',
      ''ProcessWatch'', ''StorageHealth''] \<and>
    list_all (\<lambda>(name, c). collector_name c = name \<and>
      (collector_enabled c \<longleftrightarrow> (case map_of (mc_collectors mc) name of Some cfg \<Rightarrow> cc_enabled cfg | None \<Rightarrow> True)))
      (start_collectors w n mc)"
proof
  show "map fst (start_collectors w n mc) = [''CPU'', ''Memory'', ''Disk'', ''Network'', ''Temperature'',
      ''CPUProcess'', ''MemoryProcess'', ''Fan'', ''GPU'', ''StorageSmart'', ''Voltage'', ''MotherboardTemp'', ''Uptime'',
      ''ProcessWatch'', ''StorageHealth'']"
    using default_registry_names by (simp add: start_collectors_eq configure_registry_keys)
  have "collector_name c = name \<and> (collector_enabled c \<longleftrightarrow>
      (case map_of (mc_collectors mc) name of Some cfg \<Rightarrow> cc_enabled cfg | None \<Rightarrow> True))"
    if c: "(name, c) \<in> set (start_collectors w n mc)" for name c
  proof -
    obtain c0 cfg where c0: "(name, c0) \<in> set (default_registry w n)" "c = configure_collector w cfg c0"
      "cfg = (case map_of (mc_collectors mc) name of Some x \<Rightarrow> x | None \<Rightarrow> default_collector_config c0)"
      by (rule started_collector [OF assms c])
    then show ?thesis using default_registry_well_formed [of w n]
      by (auto simp: well_formed_def default_collector_enabled split: option.splits)
  qed
  then show "list_all (\<lambda>(name, c). collector_name c = name \<and>
      (collector_enabled c \<longleftrightarrow> (case map_of (mc_collectors mc) name of Some cfg \<Rightarrow> cc_enabled cfg | None \<Rightarrow> True)))
      (start_collectors w n mc)"
    by (auto simp: list_all_iff)
qed

theorem all_collectors_start_witness:
  "length (start_collectors True 4 \<lparr>mc_collectors = [(''CPU'', sample_collector_config)]\<rparr>) = 15"
proof -
  have "distinct (map fst (mc_collectors \<lparr>mc_collectors = [(''CPU'', sample_collector_config)]\<rparr>))" by simp
  from arg_cong [OF conjunct1 [OF all_collectors_start [OF this, of True 4]], of length] show ?thesis by simp
qed





definition cpu_entry :: "bool \<Rightarrow> int \<Rightarrow> monitor_config" where
  "cpu_entry enabled interval =
     \<lparr>mc_collectors = [(''CPU'', \<lparr>cc_enabled = enabled, cc_interval = interval, cc_top_n = 0, cc_disks = [],
        cc_interfaces = [], cc_include_zones = [], cc_watch_processes = [], cc_required_processes = [],
        cc_forbidden_processes = []\<rparr>)]\<rparr>"

lemma get_after_change:
  assumes "well_formed r" "distinct (map fst (mc_collectors mc))"
  shows "map_of (apply_monitor_change w mc r) name = map_option (\<lambda>c. configure_collector w
    (case map_of (mc_collectors mc) name of Some cfg \<Rightarrow> cfg | None \<Rightarrow> default_collector_config c) c) (map_of r name)"
  unfolding apply_monitor_change_def map_of_fold_configure [OF apply_defaults_distinct [OF assms(2)]]
  by (auto simp: apply_defaults_map default_configs_map [OF assms(1)] split: option.splits)

text \<open>Removing an entry from \<open>Monitor.json\<close> does not bring the default back, and it can undo the lower bound
  on the period: \<open>DefaultConfig\<close> of the CPU collector returns the current period.  A disabled entry with
  a period of one millisecond passes validation, and once it is removed the reload enables the
  collector with that period.\<close>

theorem removed_entry_keeps_interval:
  "validate_monitor_config (cpu_entry False 1000000) = [] \<and> validate_monitor_config default_monitor_config = [] \<and>
   (case map_of (apply_monitor_change w default_monitor_config
       (apply_monitor_change w (cpu_entry False 1000000) (start_collectors w n default_monitor_config))) ''CPU'' of
      Some c \<Rightarrow> collector_enabled c \<and> collector_interval c = 1000000 \<and> collector_interval c < second
    | None \<Rightarrow> False)"
proof (intro conjI)
  show "validate_monitor_config (cpu_entry False 1000000) = []" "validate_monitor_config default_monitor_config = []"
    by (simp_all add: validate_monitor_iff cpu_entry_def default_monitor_config_def)
  let ?r0 = "start_collectors w n default_monitor_config"
  let ?r1 = "apply_monitor_change w (cpu_entry False 1000000) ?r0"
  have d: "distinct (map fst (mc_collectors default_monitor_config))"
    "distinct (map fst (mc_collectors (cpu_entry False 1000000)))"
    by (simp_all add: default_monitor_config_def cpu_entry_def)
  have w0: "well_formed ?r0" by (rule started_well_formed(1) [OF d(1)])
  have w1: "well_formed ?r1"
    unfolding apply_monitor_change_def
    by (rule configure_registry_well_formed [OF w0 apply_defaults_distinct [OF d(2)]])
  have "?r0 = apply_monitor_change w default_monitor_config (default_registry w n)"
    by (simp add: start_collectors_eq apply_monitor_change_def)
  then have "map_of ?r0 ''CPU'' = Some (configure_collector w (default_collector_config (C_CPU new_cpu_collector)) (C_CPU new_cpu_collector))"
    using get_after_change [OF default_registry_well_formed d(1), of w w n "''CPU''"]
    by (simp add: default_registry_eq default_collectors_def collector_defs default_monitor_config_def)
  then show "case map_of (apply_monitor_change w default_monitor_config ?r1) ''CPU'' of
      Some c \<Rightarrow> collector_enabled c \<and> collector_interval c = 1000000 \<and> collector_interval c < second
    | None \<Rightarrow> False"
    unfolding get_after_change [OF w1 d(1)] get_after_change [OF w0 d(2)]
    by (simp add: cpu_entry_def default_monitor_config_def default_config_defs second_def)
qed

end
