(* ===== verification/Json.thy ===== *)
theory Json
  imports GoStd
begin

text \<open>
  What the agent uses of \<open>encoding/json\<close>: \<open>json.Marshal\<close> on structs of strings, integers, slices and
  nested structs (compact, HTML characters escaped, the behaviour of Go 1.20, the version \<open>go.mod\<close>
  asks for) and \<open>json.MarshalIndent\<close> with two blanks.  A reader for compact documents is defined to
  state that what is written is read back.
\<close>

section \<open>Values and strings\<close>

datatype json = JStr string | JNum int | JArr "json list" | JObj "(string \<times> json) list"

abbreviation quote_mark :: char where "quote_mark \<equiv> CHR 0x22"
abbreviation backslash :: char where "backslash \<equiv> CHR 0x5C"

definition byte :: "char \<Rightarrow> nat" where
  "byte c = of_char c"

definition is_cont :: "char \<Rightarrow> bool" where
  "is_cont c = (0x80 \<le> byte c \<and> byte c \<le> 0xBF)"

text \<open>
  \<open>utf8.DecodeRuneInString\<close> on a string that starts with a byte from 128 on: the width of the rune
  there, 0 when the bytes are not the encoding of one.
\<close>

fun rune_width :: "string \<Rightarrow> nat" where
  "rune_width (a # b # c # d # _) =
     (if 0xC2 \<le> byte a \<and> byte a \<le> 0xDF \<and> is_cont b then 2
      else if 0xE0 \<le> byte a \<and> byte a \<le> 0xEF \<and> is_cont b \<and> is_cont c
        \<and> (byte a = 0xE0 \<longrightarrow> 0xA0 \<le> byte b) \<and> (byte a = 0xED \<longrightarrow> byte b \<le> 0x9F) then 3
      else if 0xF0 \<le> byte a \<and> byte a \<le> 0xF4 \<and> is_cont b \<and> is_cont c \<and> is_cont d
        \<and> (byte a = 0xF0 \<longrightarrow> 0x90 \<le> byte b) \<and> (byte a = 0xF4 \<longrightarrow> byte b \<le> 0x8F) then 4
      else 0)"
| "rune_width [a, b, c] =
     (if 0xC2 \<le> byte a \<and> byte a \<le> 0xDF \<and> is_cont b then 2
      else if 0xE0 \<le> byte a \<and> byte a \<le> 0xEF \<and> is_cont b \<and> is_cont c
        \<and> (byte a = 0xE0 \<longrightarrow> 0xA0 \<le> byte b) \<and> (byte a = 0xED \<longrightarrow> byte b \<le> 0x9F) then 3
      else 0)"
| "rune_width [a, b] = (if 0xC2 \<le> byte a \<and> byte a \<le> 0xDF \<and> is_cont b then 2 else 0)"
| "rune_width _ = 0"

definition hex_digit :: "nat \<Rightarrow> char" where
  "hex_digit n = (if n < 10 then char_of (48 + n) else char_of (87 + n))"

definition escape_u00 :: "char \<Rightarrow> string" where
  "escape_u00 c = backslash # ''u00'' @ [hex_digit (byte c div 16), hex_digit (byte c mod 16)]"

text \<open>One byte below 128, as \<open>encodeState.string\<close> writes it with HTML escaping on.\<close>

definition escape_ascii :: "char \<Rightarrow> string" where
  "escape_ascii c =
     (if c = quote_mark \<or> c = backslash then [backslash, c]
      else if c = CHR 0x0A then backslash # ''n''
      else if c = CHR 0x0D then backslash # ''r''
      else if c = CHR 0x09 then backslash # ''t''
      else if byte c < 0x20 \<or> c = CHR ''<'' \<or> c = CHR ''>'' \<or> c = CHR ''&'' then escape_u00 c
      else [c])"

definition line_separator :: string where "line_separator = [CHR 0xE2, CHR 0x80, CHR 0xA8]"
definition paragraph_separator :: string where "paragraph_separator = [CHR 0xE2, CHR 0x80, CHR 0xA9]"

definition escape_rune :: "string \<Rightarrow> string" where
  "escape_rune r =
     (if r = line_separator then backslash # ''u2028''
      else if r = paragraph_separator then backslash # ''u2029''
      else r)"

function json_escape :: "string \<Rightarrow> string" where
  "json_escape [] = []"
| "json_escape (c # cs) =
     (if byte c < 0x80 then escape_ascii c @ json_escape cs
      else let w = rune_width (c # cs) in
        if w = 0 then backslash # ''ufffd'' @ json_escape cs
        else escape_rune (take w (c # cs)) @ json_escape (drop (w - 1) cs))"
  by pat_completeness auto
termination
  by (relation "measure length") auto

declare json_escape.simps(2) [simp del]

text \<open>Text that is UTF-8 throughout, which is the text JSON can carry unchanged.\<close>

function valid_utf8 :: "string \<Rightarrow> bool" where
  "valid_utf8 [] = True"
| "valid_utf8 (c # cs) =
     (if byte c < 0x80 then valid_utf8 cs
      else let w = rune_width (c # cs) in w \<noteq> 0 \<and> valid_utf8 (drop (w - 1) cs))"
  by pat_completeness auto
termination
  by (relation "measure length") auto

declare valid_utf8.simps(2) [simp del]

section \<open>Printing\<close>

definition json_string :: "string \<Rightarrow> string" where
  "json_string s = quote_mark # json_escape s @ [quote_mark]"

fun json_print :: "json \<Rightarrow> string"
and json_elems :: "json list \<Rightarrow> string"
and json_members :: "(string \<times> json) list \<Rightarrow> string" where
  "json_print (JStr s) = json_string s"
| "json_print (JNum i) = itoa i"
| "json_print (JArr vs) = CHR ''['' # json_elems vs @ '']''"
| "json_print (JObj ms) = CHR ''{'' # json_members ms @ ''}''"
| "json_elems [] = []"
| "json_elems [v] = json_print v"
| "json_elems (v # w # vs) = json_print v @ CHR '','' # json_elems (w # vs)"
| "json_members [] = []"
| "json_members [(k, v)] = json_string k @ CHR '':'' # json_print v"
| "json_members ((k, v) # m # ms) = json_string k @ CHR '':'' # json_print v @ CHR '','' # json_members (m # ms)"

text \<open>\<open>json.MarshalIndent(v, "", "  ")\<close>: a line per element, two blanks per level, empty brackets closed at once.\<close>

definition new_line :: "nat \<Rightarrow> string" where
  "new_line d = CHR 0x0A # replicate (2 * d) CHR '' ''"

fun json_indent :: "nat \<Rightarrow> json \<Rightarrow> string"
and json_indent_elems :: "nat \<Rightarrow> json list \<Rightarrow> string"
and json_indent_members :: "nat \<Rightarrow> (string \<times> json) list \<Rightarrow> string" where
  "json_indent d (JStr s) = json_string s"
| "json_indent d (JNum i) = itoa i"
| "json_indent d (JArr vs) =
     (if vs = [] then ''[]'' else CHR ''['' # json_indent_elems (Suc d) vs @ new_line d @ '']'')"
| "json_indent d (JObj ms) =
     (if ms = [] then ''{}'' else CHR ''{'' # json_indent_members (Suc d) ms @ new_line d @ ''}'')"
| "json_indent_elems d [] = []"
| "json_indent_elems d [v] = new_line d @ json_indent d v"
| "json_indent_elems d (v # w # vs) = new_line d @ json_indent d v @ CHR '','' # json_indent_elems d (w # vs)"
| "json_indent_members d [] = []"
| "json_indent_members d [(k, v)] = new_line d @ json_string k @ '': '' @ json_indent d v"
| "json_indent_members d ((k, v) # m # ms) =
     new_line d @ json_string k @ '': '' @ json_indent d v @ CHR '','' # json_indent_members d (m # ms)"

section \<open>Reading\<close>

definition hex_value :: "char \<Rightarrow> nat option" where
  "hex_value c =
     (let n = byte c in
      if 48 \<le> n \<and> n \<le> 57 then Some (n - 48)
      else if 97 \<le> n \<and> n \<le> 102 then Some (n - 87)
      else None)"

text \<open>The escapes the printer uses; the code points from 128 on are the three it writes by number.\<close>

definition read_u :: "string \<Rightarrow> string option" where
  "read_u h =
     (if h = ''2028'' then Some line_separator
      else if h = ''2029'' then Some paragraph_separator
      else if h = ''fffd'' then Some [CHR 0xEF, CHR 0xBF, CHR 0xBD]
      else case map hex_value h of
        [Some 0, Some 0, Some a, Some b] \<Rightarrow> if a < 8 then Some [char_of (16 * a + b)] else None
      | _ \<Rightarrow> None)"

definition unescape_char :: "char \<Rightarrow> char option" where
  "unescape_char c =
     (if c = quote_mark \<or> c = backslash then Some c
      else if c = CHR ''n'' then Some CHR 0x0A
      else if c = CHR ''r'' then Some CHR 0x0D
      else if c = CHR ''t'' then Some CHR 0x09
      else None)"

text \<open>The rest of a string after its opening quotation mark: its value and what follows it.\<close>

fun read_string :: "string \<Rightarrow> (string \<times> string) option" where
  "read_string [] = None"
| "read_string (c # cs) =
     (if c = quote_mark then Some ([], cs)
      else if c = backslash then
        (case cs of
           [] \<Rightarrow> None
         | e # ds \<Rightarrow>
             if e = CHR ''u'' then
               (case ds of
                  h1 # h2 # h3 # h4 # rest \<Rightarrow>
                    (case (read_u [h1, h2, h3, h4], read_string rest) of
                       (Some r, Some (s, t)) \<Rightarrow> Some (r @ s, t) | _ \<Rightarrow> None)
                | _ \<Rightarrow> None)
             else (case (unescape_char e, read_string ds) of
                     (Some r, Some (s, t)) \<Rightarrow> Some (r # s, t) | _ \<Rightarrow> None))
      else map_option (\<lambda>(s, t). (c # s, t)) (read_string cs))"

declare read_string.simps(2) [simp del]

definition num_char :: "char \<Rightarrow> bool" where
  "num_char c = (is_digit c \<or> c = CHR ''-'')"

fun read_value :: "nat \<Rightarrow> string \<Rightarrow> (json \<times> string) option"
and read_elems :: "nat \<Rightarrow> string \<Rightarrow> (json list \<times> string) option"
and read_members :: "nat \<Rightarrow> string \<Rightarrow> ((string \<times> json) list \<times> string) option" where
  "read_value 0 s = None"
| "read_value (Suc n) s =
     (case s of
        [] \<Rightarrow> None
      | c # cs \<Rightarrow>
          if c = quote_mark then map_option (\<lambda>(v, t). (JStr v, t)) (read_string cs)
          else if c = CHR ''['' then
            (if has_prefix cs '']'' then Some (JArr [], tl cs)
             else map_option (\<lambda>(vs, t). (JArr vs, t)) (read_elems n cs))
          else if c = CHR ''{'' then
            (if has_prefix cs ''}'' then Some (JObj [], tl cs)
             else map_option (\<lambda>(ms, t). (JObj ms, t)) (read_members n cs))
          else map_option (\<lambda>i. (JNum i, dropWhile num_char s)) (parse_int (takeWhile num_char s)))"
| "read_elems 0 s = None"
| "read_elems (Suc n) s =
     (case read_value n s of
        Some (v, c # t) \<Rightarrow>
          if c = CHR '','' then map_option (\<lambda>(vs, t'). (v # vs, t')) (read_elems n t)
          else if c = CHR '']'' then Some ([v], t) else None
      | _ \<Rightarrow> None)"
| "read_members 0 s = None"
| "read_members (Suc n) s =
     (case s of
        q # s1 \<Rightarrow>
          if q = quote_mark then
            (case read_string s1 of
               Some (k, c # s2) \<Rightarrow>
                 if c = CHR '':'' then
                   (case read_value n s2 of
                      Some (v, d # t) \<Rightarrow>
                        if d = CHR '','' then map_option (\<lambda>(ms, t'). ((k, v) # ms, t')) (read_members n t)
                        else if d = CHR ''}'' then Some ([(k, v)], t) else None
                    | _ \<Rightarrow> None)
                 else None
             | _ \<Rightarrow> None)
          else None
      | [] \<Rightarrow> None)"

definition json_parse :: "string \<Rightarrow> json option" where
  "json_parse s = (case read_value (length s) s of Some (v, []) \<Rightarrow> Some v | _ \<Rightarrow> None)"

section \<open>What is written is read back\<close>

lemma byte_quote [simp]: "byte quote_mark = 34" and byte_backslash [simp]: "byte backslash = 92"
  by (simp_all add: byte_def)

lemma byte_less_256: "byte c < 256"
  by (cases c) (simp add: byte_def)

lemma byte_inverse: "char_of (byte c) = c"
  by (simp add: byte_def)

lemma hex_value_digit: "n < 16 \<Longrightarrow> hex_value (hex_digit n) = Some n"
  by (auto simp: hex_value_def hex_digit_def byte_def)

lemma read_u_byte:
  assumes "byte c < 0x80"
  shows "read_u [CHR ''0'', CHR ''0'', hex_digit (byte c div 16), hex_digit (byte c mod 16)] = Some [c]"
proof -
  have zero: "hex_value CHR ''0'' = Some 0"
    by (simp add: hex_value_def byte_def)
  have "byte c div 16 < 8" using assms by auto
  then have "map hex_value [CHR ''0'', CHR ''0'', hex_digit (byte c div 16), hex_digit (byte c mod 16)]
      = [Some 0, Some 0, Some (byte c div 16), Some (byte c mod 16)]"
    by (simp add: hex_value_digit zero)
  moreover have "16 * (byte c div 16) + byte c mod 16 = byte c" by simp
  ultimately show ?thesis
    using \<open>byte c div 16 < 8\<close> unfolding read_u_def
    by (simp add: byte_inverse)
qed

definition put :: "string \<Rightarrow> (string \<times> string) option \<Rightarrow> (string \<times> string) option" where
  "put w r = map_option (\<lambda>(s, t). (w @ s, t)) r"

lemma put_put [simp]: "put a (put b r) = put (a @ b) r"
  by (cases r) (auto simp: put_def)

lemma put_Nil [simp]: "put [] r = r"
  by (cases r) (auto simp: put_def)

lemma put_Some [simp]: "put w (Some (s, t)) = Some (w @ s, t)"
  by (simp add: put_def)

lemma read_string_copy: "c \<noteq> quote_mark \<Longrightarrow> c \<noteq> backslash \<Longrightarrow> read_string (c # s) = put [c] (read_string s)"
  by (simp add: read_string.simps(2) put_def)

lemma read_string_u:
  "read_u [a, b, c, d] = Some r \<Longrightarrow>
   read_string (backslash # CHR ''u'' # a # b # c # d # s) = put r (read_string s)"
  by (cases "read_string s") (auto simp: read_string.simps(2) put_def)

lemma read_string_escape:
  "e \<noteq> CHR ''u'' \<Longrightarrow> unescape_char e = Some r \<Longrightarrow>
   read_string (backslash # e # s) = put [r] (read_string s)"
  by (cases "read_string s") (auto simp: read_string.simps(2) put_def)

lemma read_escape_ascii:
  assumes "byte c < 0x80"
  shows "read_string (escape_ascii c @ s) = put [c] (read_string s)"
proof -
  have "read_string (escape_u00 c @ s) = put [c] (read_string s)"
    using read_string_u [OF read_u_byte [OF assms]] by (simp add: escape_u00_def)
  then show ?thesis
    by (auto simp: escape_ascii_def unescape_char_def read_string_escape read_string_copy)
qed

lemma read_string_copy_all:
  "\<forall>x \<in> set w. 0x80 \<le> byte x \<Longrightarrow> read_string (w @ s) = put w (read_string s)"
proof (induction w)
  case Nil
  then show ?case by simp
next
  case (Cons x w)
  then have "x \<noteq> quote_mark" "x \<noteq> backslash" by auto
  with Cons show ?case by (simp add: read_string_copy)
qed

lemma rune_width_bytes:
  "rune_width s \<noteq> 0 \<Longrightarrow> rune_width s \<le> length s \<and> (\<forall>x \<in> set (take (rune_width s) s). 0x80 \<le> byte x)"
  by (cases s rule: rune_width.cases) (auto simp: is_cont_def split: if_splits)

lemma read_escape_rune:
  assumes "\<forall>x \<in> set r. 0x80 \<le> byte x"
  shows "read_string (escape_rune r @ s) = put r (read_string s)"
proof -
  have "read_string (backslash # ''u2028'' @ s) = put line_separator (read_string s)"
    and "read_string (backslash # ''u2029'' @ s) = put paragraph_separator (read_string s)"
    by (simp_all add: read_string_u read_u_def)
  then show ?thesis
    using read_string_copy_all [OF assms, of s] by (simp add: escape_rune_def)
qed

lemma read_json_escape:
  "valid_utf8 s \<Longrightarrow> read_string (json_escape s @ quote_mark # t) = Some (s, t)"
proof (induction s rule: json_escape.induct)
  case 1
  then show ?case by (simp add: read_string.simps(2))
next
  case (2 c cs)
  show ?case
  proof (cases "byte c < 0x80")
    case True
    with "2" show ?thesis
      by (simp add: json_escape.simps(2) valid_utf8.simps(2) read_escape_ascii)
  next
    case False
    define w where "w = rune_width (c # cs)"
    have w: "w \<noteq> 0" "valid_utf8 (drop (w - 1) cs)"
      using "2.prems" False by (simp_all add: valid_utf8.simps(2) w_def Let_def)
    then obtain k where k: "w = Suc k" by (cases w) auto
    have bytes: "\<forall>x \<in> set (take w (c # cs)). 0x80 \<le> byte x"
      using rune_width_bytes w by (metis w_def)
    have esc: "json_escape (c # cs) = escape_rune (take w (c # cs)) @ json_escape (drop (w - 1) cs)"
      using False w by (simp add: json_escape.simps(2) Let_def flip: w_def)
    have "read_string (json_escape (drop (w - 1) cs) @ quote_mark # t) = Some (drop (w - 1) cs, t)"
      using "2.IH" False w by (auto simp: w_def)
    then show ?thesis
      unfolding esc append_assoc read_escape_rune [OF bytes] by (simp add: k)
  qed
qed

section \<open>Documents\<close>

fun json_ok :: "json \<Rightarrow> bool" where
  "json_ok (JStr s) = valid_utf8 s"
| "json_ok (JNum i) = True"
| "json_ok (JArr vs) = list_all json_ok vs"
| "json_ok (JObj ms) = list_all (\<lambda>(k, v). valid_utf8 k \<and> json_ok v) ms"

definition ends_value :: "string \<Rightarrow> bool" where
  "ends_value s = (s = [] \<or> \<not> num_char (hd s))"

lemma ends_value_simps [simp]:
  "ends_value []" "ends_value (CHR '','' # s)" "ends_value (CHR '']'' # s)" "ends_value (CHR ''}'' # s)"
  by (simp_all add: ends_value_def num_char_def is_digit_def)

lemma read_number:
  assumes "ends_value t"
  shows "takeWhile num_char (itoa i @ t) = itoa i" and "dropWhile num_char (itoa i @ t) = t"
proof -
  have all: "\<forall>x \<in> set (itoa i). num_char x"
    using itoa_chars by (auto simp: num_char_def)
  have t: "takeWhile num_char t = []" "dropWhile num_char t = t"
    using assms by (cases t; simp add: ends_value_def)+
  show "takeWhile num_char (itoa i @ t) = itoa i"
    using all t by (simp add: takeWhile_append2)
  show "dropWhile num_char (itoa i @ t) = t"
    using all t by (simp add: dropWhile_append2)
qed

lemma itoa_hd: "\<exists>c cs. itoa i = c # cs \<and> num_char c"
  using itoa_chars [of "hd (itoa i)" i] by (cases "itoa i") (auto simp: num_char_def)

lemma num_char_not: "num_char c \<Longrightarrow> c \<noteq> quote_mark \<and> c \<noteq> CHR ''['' \<and> c \<noteq> CHR ''{''"
  by (auto simp: num_char_def is_digit_def)

lemma read_value_num:
  assumes "ends_value t"
  shows "read_value (Suc n) (itoa i @ t) = Some (JNum i, t)"
proof -
  obtain c cs where c: "itoa i = c # cs" "num_char c" using itoa_hd by blast
  note r = read_number [OF assms, of i]
  show ?thesis
    using r num_char_not [OF c(2)] parse_int_itoa [of i] by (simp add: c(1))
qed

lemma json_print_first: "\<exists>c cs. json_print v = c # cs \<and> c \<noteq> CHR '']''"
proof (cases v)
  case (JNum i)
  then show ?thesis using itoa_hd [of i] by (auto simp: num_char_def is_digit_def)
qed (auto simp: json_string_def)

lemma json_elems_first:
  assumes "vs \<noteq> []"
  shows "\<not> has_prefix (json_elems vs @ t) '']''"
proof -
  obtain v vs' where v: "vs = v # vs'" using assms by (cases vs) auto
  obtain c cs where "json_print v = c # cs" "c \<noteq> CHR '']''" using json_print_first by blast
  with v show ?thesis by (cases vs') (auto simp: has_prefix_def)
qed

lemma json_members_first: "ms \<noteq> [] \<Longrightarrow> \<not> has_prefix (json_members ms @ t) ''}''"
  by (cases ms rule: json_members.cases) (auto simp: has_prefix_def json_string_def)

text \<open>The fuel a document needs, which its length bounds.\<close>

fun fuel :: "json \<Rightarrow> nat" and fuel_elems :: "json list \<Rightarrow> nat" and fuel_members :: "(string \<times> json) list \<Rightarrow> nat" where
  "fuel (JStr s) = 1"
| "fuel (JNum i) = 1"
| "fuel (JArr vs) = Suc (fuel_elems vs)"
| "fuel (JObj ms) = Suc (fuel_members ms)"
| "fuel_elems [] = 0"
| "fuel_elems (v # vs) = Suc (max (fuel v) (fuel_elems vs))"
| "fuel_members [] = 0"
| "fuel_members ((k, v) # ms) = Suc (max (fuel v) (fuel_members ms))"

lemma fuel_le_length:
  "fuel v \<le> length (json_print v)"
  "fuel_elems vs \<le> length (json_elems vs) + 1"
  "fuel_members ms \<le> length (json_members ms) + 1"
proof (induction v and vs and ms rule: json_print_json_elems_json_members.induct)
  case (2 i)
  then show ?case using itoa_nonempty [of i] by (cases "itoa i") auto
qed (auto simp: json_string_def)

lemma Suc_leE: "Suc k \<le> n \<Longrightarrow> \<exists>m. n = Suc m \<and> k \<le> m"
  by (cases n) auto

lemma read_print:
  "json_ok v \<Longrightarrow> ends_value t \<Longrightarrow> fuel v \<le> n \<Longrightarrow> read_value n (json_print v @ t) = Some (v, t)"
  "list_all json_ok vs \<Longrightarrow> vs \<noteq> [] \<Longrightarrow> fuel_elems vs \<le> n \<Longrightarrow>
     read_elems n (json_elems vs @ CHR '']'' # t) = Some (vs, t)"
  "list_all (\<lambda>(k, v). valid_utf8 k \<and> json_ok v) ms \<Longrightarrow> ms \<noteq> [] \<Longrightarrow> fuel_members ms \<le> n \<Longrightarrow>
     read_members n (json_members ms @ CHR ''}'' # t) = Some (ms, t)"
proof (induction v and vs and ms arbitrary: t n and t n and t n
    rule: json_print_json_elems_json_members.induct)
  case (1 s)
  then show ?case
    by (auto simp: json_string_def read_json_escape dest!: Suc_leE)
next
  case (2 i)
  then obtain m where "n = Suc m" by (auto dest!: Suc_leE)
  then show ?case using "2.prems" by (simp add: read_value_num del: read_value.simps)
next
  case (3 vs)
  then obtain m where m: "n = Suc m" "fuel_elems vs \<le> m" by (auto dest!: Suc_leE)
  show ?case
    using "3.prems" "3.IH" [of m t] m json_elems_first [of vs "CHR '']'' # t"]
    by (cases "vs = []") (auto simp: has_prefix_def)
next
  case (4 ms)
  then obtain m where m: "n = Suc m" "fuel_members ms \<le> m" by (auto dest!: Suc_leE)
  show ?case
    using "4.prems" "4.IH" [of m t] m json_members_first [of ms "CHR ''}'' # t"]
    by (cases "ms = []") (auto simp: has_prefix_def)
next
  case 5
  then show ?case by simp
next
  case (6 v)
  then show ?case by (auto dest!: Suc_leE)
next
  case (7 v w vs)
  then obtain m where m: "n = Suc m" "fuel v \<le> m" "fuel_elems (w # vs) \<le> m" by (auto dest!: Suc_leE)
  have "read_value m (json_print v @ CHR '','' # json_elems (w # vs) @ CHR '']'' # t)
      = Some (v, CHR '','' # json_elems (w # vs) @ CHR '']'' # t)"
    using "7.IH"(1) "7.prems" m by simp
  moreover have "read_elems m (json_elems (w # vs) @ CHR '']'' # t) = Some (w # vs, t)"
    using "7.IH"(2) "7.prems" m by simp
  ultimately show ?case by (simp add: m(1))
next
  case 8
  then show ?case by simp
next
  case (9 k v)
  then obtain m where m: "n = Suc m" "fuel v \<le> m" by (auto dest!: Suc_leE)
  have "read_value m (json_print v @ CHR ''}'' # t) = Some (v, CHR ''}'' # t)"
    using "9.IH" "9.prems" m by simp
  then show ?case using "9.prems" by (simp add: m(1) json_string_def read_json_escape)
next
  case (10 k v x ms)
  then obtain m where m: "n = Suc m" "fuel v \<le> m" "fuel_members (x # ms) \<le> m"
    by (auto dest!: Suc_leE simp del: fuel_members.simps(2) simp add: fuel_members.simps(2) [of k v "x # ms"])
  have "read_value m (json_print v @ CHR '','' # json_members (x # ms) @ CHR ''}'' # t)
      = Some (v, CHR '','' # json_members (x # ms) @ CHR ''}'' # t)"
    using "10.IH"(1) "10.prems" m by simp
  moreover have "read_members m (json_members (x # ms) @ CHR ''}'' # t) = Some (x # ms, t)"
    using "10.IH"(2) "10.prems" m by simp
  ultimately show ?case using "10.prems" by (simp add: m(1) json_string_def read_json_escape)
qed

lemma json_parse_print: "json_ok v \<Longrightarrow> json_parse (json_print v) = Some v"
  using read_print(1) [of v "[]" "length (json_print v)"] fuel_le_length(1) [of v]
  by (simp add: json_parse_def)

end
