(* ===== verification/KafkaFormat.thy ===== *)
theory KafkaFormat
  imports Ears Json Config
begin

text \<open>
  \<open>internal/sender/kafkaformat.go\<close>: the rows of a metric become Kafka records, each with the equipment's
  identity, an event id and the row as raw text, and the records become the JSON body that is posted
  to the proxy.  The interface \<open>RawFormatter\<close> is the locale \<open>raw_formatter\<close>, interpreted on the two formatters.
\<close>

section \<open>Records\<close>

record kafka_value =
  kv_process :: string
  kv_line :: string
  kv_eqp_id :: string
  kv_model :: string
  kv_diff :: int
  kv_esid :: string
  kv_raw :: string

record kafka_message =
  km_key :: string
  km_value :: kafka_value

record kafka_record =
  kr_key :: string
  kr_value :: kafka_value
  kr_timestamp :: gotime

text \<open>Why \<open>PrepareRecords\<close> gives no records; the last is the nil dereference of a missing equipment info.\<close>

datatype prepare_error = No_Rows string | Format_Failed nat string | Nil_Eqp_Info

definition generate_esid :: "string \<Rightarrow> string \<Rightarrow> string \<Rightarrow> int \<Rightarrow> nat \<Rightarrow> string" where
  "generate_esid process eqp_id metric_type timestamp_ms counter =
     process @ '':'' @ eqp_id @ ''-'' @ metric_type @ ''-'' @ itoa timestamp_ms @ ''-'' @ itoa (int counter)"

section \<open>Formatters\<close>

type_synonym formatter = "ears_row \<Rightarrow> string \<Rightarrow> string + string"

definition grok_format_raw :: formatter where
  "grok_format_raw row process = Inr (to_grok_string row)"

definition parsed_data_json :: "parsed_data \<Rightarrow> json" where
  "parsed_data_json p =
     JObj [(''field'', JStr (pd_field p)), (''value'', JStr (pd_value p)), (''dataformat'', JStr (pd_data_format p))]"

definition parsed_data_list_json :: "parsed_data_list \<Rightarrow> json" where
  "parsed_data_list_json l =
     JObj [(''iso_timestamp'', JStr (pdl_iso_timestamp l)), (''parsed'', JArr (map parsed_data_json (pdl_parsed l)))]"

definition json_format_raw :: formatter where
  "json_format_raw row process = Inr (json_print (parsed_data_list_json (to_parsed_data row process)))"

section \<open>Preparing records\<close>

definition make_record ::
  "metric_data \<Rightarrow> eqp_info_config \<Rightarrow> int \<Rightarrow> nat \<Rightarrow> string \<Rightarrow> kafka_record" where
  "make_record data eqp time_diff i raw =
     \<lparr>kr_key = eq_id eqp,
      kr_value = \<lparr>kv_process = eq_process eqp, kv_line = eq_line eqp, kv_eqp_id = eq_id eqp,
        kv_model = eq_model eqp, kv_diff = time_diff,
        kv_esid = generate_esid (eq_process eqp) (eq_id eqp) (md_type data)
          (unix_milli (md_timestamp data)) i,
        kv_raw = raw\<rparr>,
      kr_timestamp = md_timestamp data\<rparr>"

text \<open>The loop over the rows, with the index \<open>i\<close> of the next row and the records so far.\<close>

fun prepare_rows ::
  "metric_data \<Rightarrow> eqp_info_config \<Rightarrow> int \<Rightarrow> formatter \<Rightarrow> nat \<Rightarrow> kafka_record list \<Rightarrow> ears_row list \<Rightarrow>
     prepare_error + kafka_record list" where
  "prepare_rows data eqp time_diff fmt i acc [] = Inr acc"
| "prepare_rows data eqp time_diff fmt i acc (row # rows) =
     (case fmt row (eq_process eqp) of
        Inl e \<Rightarrow> Inl (Format_Failed i e)
      | Inr raw \<Rightarrow>
          prepare_rows data eqp time_diff fmt (Suc i) (acc @ [make_record data eqp time_diff i raw]) rows)"

definition prepare_records ::
  "json_decoders \<Rightarrow> formatter \<Rightarrow> metric_data \<Rightarrow> eqp_info_config option \<Rightarrow> int \<Rightarrow>
     prepare_error + kafka_record list" where
  "prepare_records jd fmt data eqp_info time_diff =
     (let rows = convert_to_ears_rows jd data in
      if rows = [] then Inl (No_Rows (md_type data))
      else case eqp_info of
        None \<Rightarrow> Inl Nil_Eqp_Info
      | Some eqp \<Rightarrow> prepare_rows data eqp time_diff fmt 0 [] rows)"

section \<open>The body of a request\<close>

definition kafka_value_json :: "kafka_value \<Rightarrow> json" where
  "kafka_value_json v =
     JObj [(''process'', JStr (kv_process v)), (''line'', JStr (kv_line v)), (''eqpid'', JStr (kv_eqp_id v)),
       (''model'', JStr (kv_model v)), (''diff'', JNum (kv_diff v)), (''esid'', JStr (kv_esid v)),
       (''raw'', JStr (kv_raw v))]"

definition kafka_message_json :: "kafka_message \<Rightarrow> json" where
  "kafka_message_json m = JObj [(''key'', JStr (km_key m)), (''value'', kafka_value_json (km_value m))]"

definition kafka_wrapper_json :: "kafka_message list \<Rightarrow> json" where
  "kafka_wrapper_json ms = JObj [(''records'', JArr (map kafka_message_json ms))]"

definition messages_of :: "kafka_record list \<Rightarrow> kafka_message list" where
  "messages_of rs = map (\<lambda>r. \<lparr>km_key = kr_key r, km_value = kr_value r\<rparr>) rs"

definition request_body :: "kafka_record list \<Rightarrow> string" where
  "request_body rs = json_print (kafka_wrapper_json (messages_of rs))"

section \<open>Event ids\<close>

lemma generate_esid_counter [simp]:
  "generate_esid p e t ts i = generate_esid p e t ts j \<longleftrightarrow> i = j"
  by (simp add: generate_esid_def)

definition no_dash :: "string \<Rightarrow> bool" where
  "no_dash s = (CHR ''-'' \<notin> set s)"

lemma digits_no_dash: "0 \<le> n \<Longrightarrow> no_dash (itoa n)"
  unfolding no_dash_def itoa_def using dec_digits_set [of "CHR ''-''" n] by auto

lemma cut_at_separator:
  "x \<notin> set a \<Longrightarrow> x \<notin> set b \<Longrightarrow> a @ x # c = b @ x # d \<Longrightarrow> a = b \<and> c = d"
proof (induction a arbitrary: b)
  case Nil
  then show ?case by (cases b) auto
next
  case (Cons y a)
  then show ?case by (cases b) auto
qed

lemma append_dash_inject:
  assumes "no_dash b" "no_dash d" "a @ CHR ''-'' # b = c @ CHR ''-'' # d"
  shows "a = c \<and> b = d"
proof -
  have "rev (a @ CHR ''-'' # b) = rev (c @ CHR ''-'' # d)" using assms(3) by simp
  then have eq: "rev b @ CHR ''-'' # rev a = rev d @ CHR ''-'' # rev c" by simp
  have "CHR ''-'' \<notin> set (rev b)" "CHR ''-'' \<notin> set (rev d)"
    using assms(1,2) by (simp_all add: no_dash_def)
  from cut_at_separator [OF this eq] show ?thesis by simp
qed

text \<open>For one equipment the id determines the type, the time and the row.\<close>

lemma generate_esid_inject:
  assumes "no_dash t" "no_dash t'" "0 \<le> ts" "0 \<le> ts'"
    and "generate_esid p e t ts i = generate_esid p e t' ts' j"
  shows "t = t' \<and> ts = ts' \<and> i = j"
proof -
  have "(t @ CHR ''-'' # itoa ts) @ CHR ''-'' # itoa (int i) = (t' @ CHR ''-'' # itoa ts') @ CHR ''-'' # itoa (int j)"
    using assms(5) by (simp add: generate_esid_def)
  note one = append_dash_inject [OF digits_no_dash digits_no_dash this, simplified]
  have front: "t @ CHR ''-'' # itoa ts = t' @ CHR ''-'' # itoa ts'" and count: "itoa (int i) = itoa (int j)"
    using one by auto
  have "t = t' \<and> itoa ts = itoa ts'"
    by (rule append_dash_inject [OF digits_no_dash digits_no_dash front]) (use assms in auto)
  with count show ?thesis by simp
qed

section \<open>The contract of a formatter\<close>

text \<open>
  A formatter fails on no row, and the pipeline behind it, \<open>reading\<close>, gets from the raw text the
  content \<open>view\<close> of the row, for the rows and process names it is made for.
\<close>

locale raw_formatter =
  fixes format_raw :: formatter
    and good :: "ears_row \<Rightarrow> string \<Rightarrow> bool"
    and reading :: "string \<Rightarrow> 'a option"
    and view :: "ears_row \<Rightarrow> string \<Rightarrow> 'a"
  assumes total: "\<exists>raw. format_raw row process = Inr raw"
    and readable: "good row process \<Longrightarrow> format_raw row process = Inr raw \<Longrightarrow> reading raw = Some (view row process)"
begin

definition raw_of :: "ears_row \<Rightarrow> string \<Rightarrow> string" where
  "raw_of row process = projr (format_raw row process)"

lemma format_raw_eq: "format_raw row process = Inr (raw_of row process)"
  using total [of row process] by (auto simp: raw_of_def)

lemma prepare_rows_eq:
  "prepare_rows data eqp td format_raw i acc rows =
     Inr (acc @ map (\<lambda>(j, row). make_record data eqp td j (raw_of row (eq_process eqp))) (enumerate i rows))"
  by (induction rows arbitrary: i acc) (simp_all add: format_raw_eq)

lemma prepare_records_eq:
  "prepare_records jd format_raw data (Some eqp) td =
     (let rows = convert_to_ears_rows jd data in
      if rows = [] then Inl (No_Rows (md_type data))
      else Inr (map (\<lambda>(j, row). make_record data eqp td j (raw_of row (eq_process eqp))) (enumerate 0 rows)))"
  by (simp add: prepare_records_def prepare_rows_eq Let_def)

text \<open>What a client of \<open>PrepareRecords\<close> can rely on, whatever the formatter.\<close>

lemma prepared:
  assumes "prepare_records jd format_raw data (Some eqp) td = Inr rs"
  shows "length rs = length (convert_to_ears_rows jd data)"
    and "distinct (map (\<lambda>r. kv_esid (kr_value r)) rs)"
    and "r \<in> set rs \<Longrightarrow> kr_key r = eq_id eqp \<and> kr_timestamp r = md_timestamp data \<and>
           kv_process (kr_value r) = eq_process eqp \<and> kv_diff (kr_value r) = td"
    and "\<forall>row \<in> set (convert_to_ears_rows jd data). good row (eq_process eqp) \<Longrightarrow>
         map (\<lambda>r. reading (kv_raw (kr_value r))) rs =
         map (\<lambda>row. Some (view row (eq_process eqp))) (convert_to_ears_rows jd data)"
proof -
  let ?rows = "convert_to_ears_rows jd data"
  have rs: "rs = map (\<lambda>(j, row). make_record data eqp td j (raw_of row (eq_process eqp))) (enumerate 0 ?rows)"
    using assms by (auto simp: prepare_records_eq Let_def split: if_splits)
  show "length rs = length ?rows" by (simp add: rs)
  have "map (\<lambda>r. kv_esid (kr_value r)) rs =
      map (generate_esid (eq_process eqp) (eq_id eqp) (md_type data) (unix_milli (md_timestamp data)))
        (map fst (enumerate 0 ?rows))"
    unfolding rs map_map comp_def by (simp add: make_record_def split_def del: map_fst_enumerate)
  also have "distinct \<dots>"
    unfolding map_fst_enumerate by (simp add: distinct_map inj_on_def)
  finally show "distinct (map (\<lambda>r. kv_esid (kr_value r)) rs)" .
  show "r \<in> set rs \<Longrightarrow> kr_key r = eq_id eqp \<and> kr_timestamp r = md_timestamp data \<and>
           kv_process (kr_value r) = eq_process eqp \<and> kv_diff (kr_value r) = td"
    by (auto simp: rs make_record_def)
  assume good: "\<forall>row \<in> set ?rows. good row (eq_process eqp)"
  have "map (\<lambda>r. reading (kv_raw (kr_value r))) rs =
      map (\<lambda>row. reading (raw_of row (eq_process eqp))) (map snd (enumerate 0 ?rows))"
    unfolding rs map_map comp_def by (simp add: make_record_def split_def del: map_snd_enumerate)
  also have "\<dots> = map (\<lambda>row. Some (view row (eq_process eqp))) ?rows"
    using good readable format_raw_eq by simp
  finally show "map (\<lambda>r. reading (kv_raw (kr_value r))) rs =
         map (\<lambda>row. Some (view row (eq_process eqp))) ?rows" .
qed

end

section \<open>The two formatters meet the contract\<close>

lemma ascii_valid_utf8: "\<forall>c \<in> set s. byte c < 0x80 \<Longrightarrow> valid_utf8 s"
  by (induction s) (simp_all add: valid_utf8.simps(2))

lemma safe_char_ascii: "safe_char c \<Longrightarrow> byte c < 0x80"
  by (auto simp: safe_char_def byte_def Let_def)

lemma digit_ascii: "is_digit c \<Longrightarrow> byte c < 0x80"
proof -
  assume "is_digit c"
  then have "(of_char c :: int) \<le> 57" by (simp add: is_digit_def Let_def)
  moreover have "(of_char c :: int) = int (of_char c)" by (cases c) simp
  ultimately show ?thesis by (simp add: byte_def)
qed

lemma sanitize_ascii: "valid_utf8 (sanitize_name s)"
  by (rule ascii_valid_utf8) (auto dest!: sanitize_char intro: safe_char_ascii)

lemma itoa_ascii: "valid_utf8 (itoa i)"
  by (rule ascii_valid_utf8) (auto dest!: itoa_chars simp: digit_ascii, simp add: byte_def)

lemma f64_format_ascii: "valid_utf8 (f64_format v)"
  by (rule ascii_valid_utf8) (auto dest!: f64_format_chars simp: digit_ascii, auto simp: byte_def)

lemma grok_timestamp_ascii: "valid_utf8 (format_grok_timestamp t)"
  by (rule ascii_valid_utf8) (auto dest!: format_grok_timestamp_chars simp: digit_ascii, auto simp: byte_def)

lemma json_timestamp_ascii: "valid_utf8 (format_json_timestamp t)"
  by (rule ascii_valid_utf8)
    (auto simp: format_json_timestamp_def format_layout_def digit_ascii byte_def
      dest!: pad_int_chars write_millis_chars, auto simp: digit_ascii [unfolded byte_def])

definition json_good :: "ears_row \<Rightarrow> string \<Rightarrow> bool" where
  "json_good row process = (valid_utf8 process \<and> valid_utf8 (er_category row))"

lemma parsed_data_list_ok:
  "json_good row process \<Longrightarrow> json_ok (parsed_data_list_json (to_parsed_data row process))"
  by (simp add: parsed_data_list_json_def parsed_data_json_def to_parsed_data_def json_good_def
      json_timestamp_ascii itoa_ascii f64_format_ascii sanitize_ascii)
    (simp add: ascii_valid_utf8 byte_def)

definition grok_good :: "ears_row \<Rightarrow> string \<Rightarrow> bool" where
  "grok_good row process =
     (length (format_grok_timestamp (er_timestamp row)) = 23 \<and> CHR '','' \<notin> set (er_category row) \<and>
      f64_ok (er_value row))"

definition grok_view :: "ears_row \<Rightarrow> string \<Rightarrow> grok_fields" where
  "grok_view r process =
     \<lparr>gf_stamp = format_grok_timestamp (er_timestamp r), gf_category = er_category r,
      gf_pid = er_pid r, gf_proc = sanitize_name (er_proc_name r),
      gf_metric = sanitize_name (er_metric r), gf_value = er_value r\<rparr>"

definition json_view :: "ears_row \<Rightarrow> string \<Rightarrow> json" where
  "json_view r process = parsed_data_list_json (to_parsed_data r process)"

interpretation grok: raw_formatter grok_format_raw grok_good read_grok grok_view
proof
  show "\<exists>raw. grok_format_raw row process = Inr raw" for row process
    by (simp add: grok_format_raw_def)
  show "read_grok raw = Some (grok_view row process)"
    if "grok_good row process" "grok_format_raw row process = Inr raw" for row process raw
    using that read_grok_line [of row] by (auto simp: grok_good_def grok_format_raw_def grok_view_def)
qed

interpretation mapper: raw_formatter json_format_raw json_good json_parse json_view
proof
  show "\<exists>raw. json_format_raw row process = Inr raw" for row process
    by (simp add: json_format_raw_def)
  show "json_parse raw = Some (json_view row process)"
    if "json_good row process" "json_format_raw row process = Inr raw" for row process raw
    using that parsed_data_list_ok [of row process]
    by (auto simp: json_format_raw_def json_view_def json_parse_print)
qed

text \<open>The rows a conversion gives are good for both, at times of a four-digit year.\<close>

definition four_digit_year :: "gotime \<Rightarrow> bool" where
  "four_digit_year t = (0 \<le> c_year (civil_of t) \<and> c_year (civil_of t) < 10000)"

lemma grok_stamp_length: "four_digit_year t \<Longrightarrow> length (format_grok_timestamp t) = 23"
  using format_layout_reads_back(1) [of t "CHR '' ''" "CHR '',''"]
  by (simp add: four_digit_year_def format_grok_timestamp_def)

lemma converted_grok_good:
  assumes "four_digit_year (md_timestamp data)" and "row \<in> set (convert_to_ears_rows jd data)"
    and "f64_ok (er_value row)"
  shows "grok_good row process"
  using convert_row_from [of data jd] assms grok_stamp_length ears_category_no_comma
  by (auto simp: grok_good_def row_from_def list_all_iff)

section \<open>What the consumer reads from a request\<close>

fun str_of :: "json \<Rightarrow> string option" where
  "str_of (JStr s) = Some s"
| "str_of _ = None"

fun num_of :: "json \<Rightarrow> int option" where
  "num_of (JNum d) = Some d"
| "num_of _ = None"

fun member_values :: "json \<Rightarrow> json list" where
  "member_values (JObj ms) = map snd ms"
| "member_values _ = []"

definition read_kafka_value :: "json \<Rightarrow> kafka_value option" where
  "read_kafka_value j =
     (case member_values j of
        [p, l, e, m, d, i, r] \<Rightarrow>
          Option.bind (str_of p) (\<lambda>p. Option.bind (str_of l) (\<lambda>l. Option.bind (str_of e) (\<lambda>e.
          Option.bind (str_of m) (\<lambda>m. Option.bind (num_of d) (\<lambda>d. Option.bind (str_of i) (\<lambda>i.
          map_option (\<lambda>r. \<lparr>kv_process = p, kv_line = l, kv_eqp_id = e, kv_model = m, kv_diff = d, kv_esid = i, kv_raw = r\<rparr>)
            (str_of r)))))))
      | _ \<Rightarrow> None)"

definition read_kafka_message :: "json \<Rightarrow> kafka_message option" where
  "read_kafka_message j =
     (case member_values j of
        [k, v] \<Rightarrow> Option.bind (str_of k) (\<lambda>k. map_option (\<lambda>x. \<lparr>km_key = k, km_value = x\<rparr>) (read_kafka_value v))
      | _ \<Rightarrow> None)"

fun all_some :: "'a option list \<Rightarrow> 'a list option" where
  "all_some [] = Some []"
| "all_some (x # xs) = (case (x, all_some xs) of (Some y, Some ys) \<Rightarrow> Some (y # ys) | _ \<Rightarrow> None)"

definition read_request :: "string \<Rightarrow> kafka_message list option" where
  "read_request body =
     (case json_parse body of
        Some (JObj [(_, JArr ms)]) \<Rightarrow> all_some (map read_kafka_message ms)
      | _ \<Rightarrow> None)"

definition value_utf8 :: "kafka_value \<Rightarrow> bool" where
  "value_utf8 v =
     (valid_utf8 (kv_process v) \<and> valid_utf8 (kv_line v) \<and> valid_utf8 (kv_eqp_id v) \<and> valid_utf8 (kv_model v) \<and>
      valid_utf8 (kv_esid v) \<and> valid_utf8 (kv_raw v))"

definition record_utf8 :: "kafka_record \<Rightarrow> bool" where
  "record_utf8 r = (valid_utf8 (kr_key r) \<and> value_utf8 (kr_value r))"

lemma all_some_map: "all_some (map (\<lambda>x. Some (f x)) xs) = Some (map f xs)"
  by (induction xs) auto

lemma read_kafka_message_json: "read_kafka_message (kafka_message_json m) = Some m"
  by (simp add: kafka_message_json_def kafka_value_json_def read_kafka_message_def read_kafka_value_def)

lemma kafka_message_json_ok:
  "valid_utf8 (km_key m) \<Longrightarrow> value_utf8 (km_value m) \<Longrightarrow> json_ok (kafka_message_json m)"
  by (simp add: kafka_message_json_def kafka_value_json_def value_utf8_def)
    (simp add: ascii_valid_utf8 byte_def)

lemma read_request_body:
  assumes "list_all record_utf8 rs"
  shows "read_request (request_body rs) = Some (messages_of rs)"
proof -
  have "json_ok (kafka_wrapper_json (messages_of rs))"
    using assms by (auto simp: kafka_wrapper_json_def messages_of_def list_all_iff record_utf8_def
        intro!: kafka_message_json_ok) (simp add: ascii_valid_utf8 byte_def)
  then show ?thesis
    by (simp add: request_body_def read_request_def json_parse_print)
      (simp add: kafka_wrapper_json_def comp_def read_kafka_message_json all_some_map)
qed

lemma valid_utf8_append_ascii:
  "\<forall>c \<in> set a. byte c < 0x80 \<Longrightarrow> valid_utf8 (a @ b) \<longleftrightarrow> valid_utf8 b"
  by (induction a) (simp_all add: valid_utf8.simps(2))

section \<open>Properties\<close>

lemma four_digit_stamps:
  assumes "four_digit_year t"
  shows "read_timestamp (format_grok_timestamp t) = local_nanos t div 1000000"
    and "read_timestamp (format_json_timestamp t) = local_nanos t div 1000000"
    and "length (format_json_timestamp t) = 23"
  using format_layout_reads_back [of t "CHR '' ''" "CHR '',''"]
    format_layout_reads_back [of t "CHR ''T''" "CHR ''.''"] assms
  by (simp_all add: four_digit_year_def format_grok_timestamp_def format_json_timestamp_def)

lemma ears_category_ascii: "c \<in> set ears_categories \<Longrightarrow> valid_utf8 c"
  by (rule ascii_valid_utf8) (auto simp: ears_categories_def byte_def)

lemma converted_json_good:
  "valid_utf8 process \<Longrightarrow> row \<in> set (convert_to_ears_rows jd data) \<Longrightarrow> json_good row process"
  using convert_row_from [of data jd] ears_category_ascii
  by (auto simp: json_good_def row_from_def list_all_iff)

lemma converted_timestamp: "row \<in> set (convert_to_ears_rows jd data) \<Longrightarrow> er_timestamp row = md_timestamp data"
  using convert_row_from [of data jd] by (auto simp: row_from_def list_all_iff)

text \<open>The ids \<open>prepare_rows\<close> gives, whatever the formatter.\<close>

lemma prepare_rows_esids:
  "prepare_rows data eqp td fmt i acc rows = Inr rs \<Longrightarrow>
     map (kv_esid \<circ> kr_value) rs = map (kv_esid \<circ> kr_value) acc @
       map (generate_esid (eq_process eqp) (eq_id eqp) (md_type data) (unix_milli (md_timestamp data)))
         [i..<i + length rows]"
proof (induction rows arbitrary: i acc)
  case (Cons row rows)
  then obtain raw where raw: "fmt row (eq_process eqp) = Inr raw" by (auto split: sum.splits)
  then have "prepare_rows data eqp td fmt (Suc i) (acc @ [make_record data eqp td i raw]) rows = Inr rs"
    using Cons.prems by simp
  from Cons.IH [OF this] show ?case by (simp add: make_record_def upt_conv_Cons del: upt_Suc)
qed simp

lemma prepare_records_esid:
  assumes "prepare_records jd fmt data (Some eqp) td = Inr rs" and "k < length rs"
  shows "kv_esid (kr_value (rs ! k)) =
    generate_esid (eq_process eqp) (eq_id eqp) (md_type data) (unix_milli (md_timestamp data)) k"
proof -
  let ?rows = "convert_to_ears_rows jd data"
  have "prepare_rows data eqp td fmt 0 [] ?rows = Inr rs"
    using assms(1) by (simp add: prepare_records_def Let_def split: if_splits)
  from prepare_rows_esids [OF this]
  have eq: "map (kv_esid \<circ> kr_value) rs =
      map (generate_esid (eq_process eqp) (eq_id eqp) (md_type data) (unix_milli (md_timestamp data)))
        [0..<length ?rows]" by simp
  then have len: "length rs = length ?rows" by (metis length_map diff_zero length_upt)
  have "kv_esid (kr_value (rs ! k)) = map (kv_esid \<circ> kr_value) rs ! k" using assms(2) by simp
  also have "\<dots> = generate_esid (eq_process eqp) (eq_id eqp) (md_type data) (unix_milli (md_timestamp data)) k"
    unfolding eq using assms(2) len by simp
  finally show ?thesis .
qed

text \<open>An uptime metric of the epoch, sent by an equipment, at which the properties are applied.\<close>

definition sample_metric :: metric_data where
  "sample_metric =
     \<lparr>md_type = ''Uptime'', md_timestamp = \<lparr>unix_nanos = 5000000, zone_offset = 0\<rparr>, md_agent_id = ''a'',
      md_hostname = ''h'',
      md_data = P_Uptime \<lparr>up_boot_time_unix = 7, up_boot_time_str = [], up_uptime_minutes = f64_of_int 3\<rparr>\<rparr>"

definition sample_record :: kafka_record where
  "sample_record =
     \<lparr>kr_key = ''E1'',
      kr_value = \<lparr>kv_process = ''P'', kv_line = ''L'', kv_eqp_id = ''E1'', kv_model = ''M'', kv_diff = 0,
        kv_esid = ''P:E1-CPU-0-0'', kv_raw = ''raw''\<rparr>,
      kr_timestamp = \<lparr>unix_nanos = 0, zone_offset = 0\<rparr>\<rparr>"

definition sample_eqp :: eqp_info_config where
  "sample_eqp = \<lparr>eq_process = ''P'', eq_model = ''M'', eq_id = ''E1'', eq_line = ''L'', eq_line_desc = ''D'',
     eq_index = ''1''\<rparr>"

lemma sample_rows:
  "convert_to_ears_rows jd sample_metric \<noteq> []"
  "\<forall>row \<in> set (convert_to_ears_rows jd sample_metric). f64_ok (er_value row)"
  "md_timestamp sample_metric = \<lparr>unix_nanos = 5000000, zone_offset = 0\<rparr>"
  by (simp_all add: sample_metric_def convert_to_ears_rows_def convert_uptime_def rows_of_def unmarshal_data_def
      system_row_def)

lemma sample_year: "four_digit_year (md_timestamp sample_metric)"
  by (simp add: four_digit_year_def sample_rows) code_simp

text \<open>C18 The records that \<open>PrepareRecords\<close> gives with the Grok formatter are read back exactly by the
  Grok pattern: one record per row, in order, with the row's category, process id, sanitised names and
  the very same number, and with the metric's time to the millisecond.\<close>

theorem grok_records_read_back:
  assumes "prepare_records jd grok_format_raw data (Some eqp) td = Inr rs"
    and "four_digit_year (md_timestamp data)"
    and "\<forall>row \<in> set (convert_to_ears_rows jd data). f64_ok (er_value row)"
  shows "map (\<lambda>r. read_grok (kv_raw (kr_value r))) rs =
      map (\<lambda>row. Some \<lparr>gf_stamp = format_grok_timestamp (md_timestamp data), gf_category = er_category row,
        gf_pid = er_pid row, gf_proc = sanitize_name (er_proc_name row),
        gf_metric = sanitize_name (er_metric row), gf_value = er_value row\<rparr>) (convert_to_ears_rows jd data) \<and>
    read_timestamp (format_grok_timestamp (md_timestamp data)) = local_nanos (md_timestamp data) div 1000000"
proof
  have "map (\<lambda>r. read_grok (kv_raw (kr_value r))) rs =
      map (\<lambda>row. Some (grok_view row (eq_process eqp))) (convert_to_ears_rows jd data)"
    by (rule grok.prepared(4) [OF assms(1)]) (use converted_grok_good assms(2,3) in blast)
  then show "map (\<lambda>r. read_grok (kv_raw (kr_value r))) rs =
      map (\<lambda>row. Some \<lparr>gf_stamp = format_grok_timestamp (md_timestamp data), gf_category = er_category row,
        gf_pid = er_pid row, gf_proc = sanitize_name (er_proc_name row),
        gf_metric = sanitize_name (er_metric row), gf_value = er_value row\<rparr>) (convert_to_ears_rows jd data)"
    by (simp add: grok_view_def converted_timestamp)
qed (rule four_digit_stamps [OF assms(2)])

theorem grok_records_read_back_witness:
  "\<exists>rs. prepare_records no_decoders grok_format_raw sample_metric (Some sample_eqp) 0 = Inr rs \<and>
     map (\<lambda>r. map_option gf_value (read_grok (kv_raw (kr_value r)))) rs =
     map (\<lambda>row. Some (er_value row)) (convert_to_ears_rows no_decoders sample_metric)"
proof -
  obtain rs where rs: "prepare_records no_decoders grok_format_raw sample_metric (Some sample_eqp) 0 = Inr rs"
    by (simp add: grok.prepare_records_eq sample_rows Let_def)
  from arg_cong [OF conjunct1 [OF grok_records_read_back [OF rs sample_year sample_rows(2)]],
    of "map (map_option gf_value)"] rs
  show ?thesis by (auto simp: comp_def)
qed

text \<open>C19 The records that \<open>PrepareRecords\<close> gives with the JSON formatter hold text that parses back, one
  record per row and in order, to the document \<open>ToParsedData\<close> describes: six fields whose number reads
  back as the row's value and a time stamp that gives the metric's time to the millisecond.\<close>

theorem json_records_read_back:
  assumes "prepare_records jd json_format_raw data (Some eqp) td = Inr rs"
    and "valid_utf8 (eq_process eqp)" and "four_digit_year (md_timestamp data)"
  shows "map (\<lambda>r. json_parse (kv_raw (kr_value r))) rs =
      map (\<lambda>row. Some (parsed_data_list_json (to_parsed_data row (eq_process eqp)))) (convert_to_ears_rows jd data) \<and>
    list_all (\<lambda>row. read_timestamp (pdl_iso_timestamp (to_parsed_data row (eq_process eqp))) =
        local_nanos (md_timestamp data) div 1000000 \<and>
      (f64_ok (er_value row) \<longrightarrow>
        f64_parse (pd_value (pdl_parsed (to_parsed_data row (eq_process eqp)) ! 5)) = er_value row))
      (convert_to_ears_rows jd data)"
proof
  have "map (\<lambda>r. json_parse (kv_raw (kr_value r))) rs =
      map (\<lambda>row. Some (json_view row (eq_process eqp))) (convert_to_ears_rows jd data)"
    by (rule mapper.prepared(4) [OF assms(1)]) (use converted_json_good assms(2) in blast)
  then show "map (\<lambda>r. json_parse (kv_raw (kr_value r))) rs =
      map (\<lambda>row. Some (parsed_data_list_json (to_parsed_data row (eq_process eqp)))) (convert_to_ears_rows jd data)"
    by (simp add: json_view_def)
qed (auto simp: list_all_iff to_parsed_data_def converted_timestamp four_digit_stamps [OF assms(3)] f64_parse_format)

theorem json_records_read_back_witness:
  "\<exists>rs. prepare_records no_decoders json_format_raw sample_metric (Some sample_eqp) 0 = Inr rs \<and>
     map (\<lambda>r. json_parse (kv_raw (kr_value r))) rs =
     map (\<lambda>row. Some (parsed_data_list_json (to_parsed_data row ''P''))) (convert_to_ears_rows no_decoders sample_metric)"
proof -
  obtain rs where rs: "prepare_records no_decoders json_format_raw sample_metric (Some sample_eqp) 0 = Inr rs"
    by (simp add: mapper.prepare_records_eq sample_rows Let_def)
  have eqp: "valid_utf8 (eq_process sample_eqp)" "eq_process sample_eqp = ''P''"
    by (simp_all add: sample_eqp_def valid_utf8.simps byte_def)
  from json_records_read_back [OF rs eqp(1) sample_year] rs eqp(2) show ?thesis by auto
qed



text \<open>C21 For one equipment the event id identifies a row: two records prepared from metrics at or after
  the epoch carry the same id only when their metrics have the same type and the same millisecond and
  the records come from the same row.\<close>

theorem esid_identifies_row:
  assumes "prepare_records jd fmt data (Some eqp) td = Inr rs" and "k < length rs"
    and "prepare_records jd fmt data' (Some eqp) td' = Inr rs'" and "k' < length rs'"
    and "no_dash (md_type data)" and "no_dash (md_type data')"
    and "0 \<le> unix_milli (md_timestamp data)" and "0 \<le> unix_milli (md_timestamp data')"
    and "kv_esid (kr_value (rs ! k)) = kv_esid (kr_value (rs' ! k'))"
  shows "md_type data = md_type data' \<and> unix_milli (md_timestamp data) = unix_milli (md_timestamp data') \<and> k = k'"
  by (rule generate_esid_inject [OF assms(5-8)])
    (use assms(9) in \<open>simp add: prepare_records_esid [OF assms(1,2)] prepare_records_esid [OF assms(3,4)]\<close>)

theorem esid_identifies_row_witness:
  "\<exists>rs. prepare_records no_decoders grok_format_raw sample_metric (Some sample_eqp) 0 = Inr rs \<and>
     kv_esid (kr_value (rs ! 0)) \<noteq> kv_esid (kr_value (rs ! 1))"
proof -
  obtain rs where rs: "prepare_records no_decoders grok_format_raw sample_metric (Some sample_eqp) 0 = Inr rs"
    by (simp add: grok.prepare_records_eq sample_rows Let_def)
  have len: "length rs = 2" using grok.prepared(1) [OF rs]
    by (simp add: sample_metric_def convert_to_ears_rows_def convert_uptime_def rows_of_def unmarshal_data_def)
  have "no_dash (md_type sample_metric)" "0 \<le> unix_milli (md_timestamp sample_metric)"
    by (simp_all add: sample_metric_def no_dash_def unix_milli_def)
  then show ?thesis using esid_identifies_row [OF rs _ rs, of 0 1] rs len by auto
qed

end
