(* ===== verification/Buffer.thy ===== *)
theory Buffer
  imports KafkaFormat "HOL-Library.Multiset" "HOL-Library.Sublist"
begin

text \<open>
  \<open>internal/sender/kafkarest.go\<close>: the direct transport \<open>HTTPTransport\<close> and the buffered one, with its
  bounded buffer, its flush loop and its batches.  The critical sections are functions on the
  transport's state; the goroutines that interleave are the step relation of the theory
  \<open>Buffer_Loop\<close>.  What the HTTP client answers to a request is an argument.
\<close>

section \<open>Requests\<close>

datatype http_outcome = Bad_Request_Object | Transport_Error | Response int

datatype send_error = Http_Failed | Http_Status int | Context_Done | Transport_Closed

text \<open>\<open>doPost\<close>, the same in both transports.\<close>

definition do_post :: "http_outcome \<Rightarrow> send_error option" where
  "do_post r =
     (case r of
        Bad_Request_Object \<Rightarrow> Some Http_Failed
      | Transport_Error \<Rightarrow> Some Http_Failed
      | Response status \<Rightarrow> if status \<ge> 400 then Some (Http_Status status) else None)"

definition ensure_http_scheme :: "string \<Rightarrow> string" where
  "ensure_http_scheme addr =
     (if has_prefix addr ''http://'' \<or> has_prefix addr ''https://'' then addr else ''http://'' @ addr)"

definition topic_url :: "string \<Rightarrow> string \<Rightarrow> string" where
  "topic_url base_url topic = base_url @ ''/topics/'' @ topic"

text \<open>
  \<open>HTTPTransport.Deliver\<close>: up to three attempts.  \<open>posts k\<close> is the answer to attempt \<open>k\<close> and \<open>cancelled k\<close>
  says that the context is done before the delay of attempt \<open>k\<close> has passed.  The result comes with
  the number of requests made.
\<close>

definition default_retries :: int where
  "default_retries = 2"

function http_attempts ::
  "(nat \<Rightarrow> http_outcome) \<Rightarrow> (nat \<Rightarrow> bool) \<Rightarrow> send_error option \<Rightarrow> nat \<Rightarrow> send_error option \<times> nat" where
  "http_attempts posts cancelled last_err attempt =
     (if int attempt \<le> default_retries then
        if attempt > 0 \<and> cancelled attempt then (Some Context_Done, attempt)
        else (case do_post (posts attempt) of
                None \<Rightarrow> (None, Suc attempt)
              | Some e \<Rightarrow> http_attempts posts cancelled (Some e) (Suc attempt))
      else (last_err, attempt))"
  by pat_completeness auto
termination
  by (relation "measure (\<lambda>(_, _, _, a). nat (default_retries + 1) - a)") (auto simp: default_retries_def)

declare http_attempts.simps [simp del]

definition http_deliver :: "(nat \<Rightarrow> http_outcome) \<Rightarrow> (nat \<Rightarrow> bool) \<Rightarrow> send_error option \<times> nat" where
  "http_deliver posts cancelled = http_attempts posts cancelled None 0"

section \<open>The buffered transport\<close>

record buffered_entry =
  be_topic :: string
  be_records :: "kafka_record list"

record transport =
  bt_base_url :: string
  bt_cfg :: batch_config
  bt_buffer :: "buffered_entry list"
  bt_count :: int
  bt_topic :: string
  bt_closed :: bool
  bt_count_obs :: int
  bt_dropped_total :: int
  bt_hwm :: int
  bt_flush_signal :: bool
  bt_stop :: bool

definition new_buffered_transport :: "string \<Rightarrow> batch_config \<Rightarrow> transport" where
  "new_buffered_transport addr cfg =
     \<lparr>bt_base_url = ensure_http_scheme addr, bt_cfg = cfg, bt_buffer = [], bt_count = 0, bt_topic = [],
      bt_closed = False, bt_count_obs = 0, bt_dropped_total = 0, bt_hwm = 0, bt_flush_signal = False,
      bt_stop = False\<rparr>"

text \<open>The loop that drops the oldest entries: the new buffer, its count and the number of records dropped.\<close>

fun drop_oldest :: "int \<Rightarrow> int \<Rightarrow> int \<Rightarrow> buffered_entry list \<Rightarrow> buffered_entry list \<times> int \<times> int" where
  "drop_oldest cap cnt dropped [] = ([], cnt, dropped)"
| "drop_oldest cap cnt dropped (e # es) =
     (if cnt > cap
      then drop_oldest cap (cnt - int (length (be_records e))) (dropped + int (length (be_records e))) es
      else (e # es, cnt, dropped))"

record deliver_outcome =
  do_dropped :: int
  do_flush_needed :: bool

text \<open>The critical section of \<open>Deliver\<close>.\<close>

definition deliver_locked ::
  "string \<Rightarrow> kafka_record list \<Rightarrow> transport \<Rightarrow> send_error + (transport \<times> deliver_outcome)" where
  "deliver_locked topic records t =
     (if bt_closed t then Inl Transport_Closed
      else
        let buffer = bt_buffer t @ [\<lparr>be_topic = topic, be_records = records\<rparr>];
            cnt = bt_count t + int (length records);
            cap = bc_max_buffered_records (bt_cfg t);
            (buffer', cnt', dropped) = (if cap > 0 then drop_oldest cap cnt 0 buffer else (buffer, cnt, 0))
        in Inr (t\<lparr>bt_buffer := buffer', bt_count := cnt', bt_topic := topic, bt_count_obs := cnt',
                  bt_hwm := (if cnt' > bt_hwm t then cnt' else bt_hwm t)\<rparr>,
                \<lparr>do_dropped = dropped, do_flush_needed = (cnt' \<ge> bc_flush_messages (bt_cfg t))\<rparr>))"

text \<open>What \<open>Deliver\<close> does after it has released the lock.\<close>

definition deliver_after :: "deliver_outcome \<Rightarrow> transport \<Rightarrow> transport" where
  "deliver_after out t =
     (let t1 = (if do_dropped out > 0 then t\<lparr>bt_dropped_total := bt_dropped_total t + do_dropped out\<rparr> else t)
      in if do_flush_needed out then t1\<lparr>bt_flush_signal := True\<rparr> else t1)"

definition buffered_deliver :: "string \<Rightarrow> kafka_record list \<Rightarrow> transport \<Rightarrow> transport \<times> send_error option" where
  "buffered_deliver topic records t =
     (if records = [] then (t, None)
      else case deliver_locked topic records t of
        Inl e \<Rightarrow> (t, Some e)
      | Inr (t', out) \<Rightarrow> (deliver_after out t', None))"

definition buffer_stats :: "transport \<Rightarrow> int \<times> int \<times> int" where
  "buffer_stats t = (bt_count_obs t, bt_dropped_total t, bt_hwm t)"

text \<open>The critical section of \<open>flush\<close>: the entries taken, or nothing.\<close>

definition take_buffer :: "transport \<Rightarrow> buffered_entry list \<times> transport" where
  "take_buffer t =
     (if bt_buffer t = [] then ([], t)
      else (bt_buffer t, t\<lparr>bt_buffer := [], bt_count := 0, bt_count_obs := 0\<rparr>))"

text \<open>\<open>topicRecords\<close>: the records of each topic in the order they were buffered.\<close>

definition group_by_topic :: "buffered_entry list \<Rightarrow> (string \<times> kafka_record list) list" where
  "group_by_topic entries =
     foldl (\<lambda>m e. AList.update (be_topic e)
        ((case map_of m (be_topic e) of None \<Rightarrow> [] | Some rs \<Rightarrow> rs) @ be_records e) m) [] entries"

text \<open>\<open>sendBatchWithSplit\<close>: the batches it sends.\<close>

function split_batches :: "nat \<Rightarrow> 'a list \<Rightarrow> 'a list list" where
  "split_batches n xs = (if xs = [] \<or> n = 0 then [] else take n xs # split_batches n (drop n xs))"
  by pat_completeness auto
termination
  by (relation "measure (\<lambda>(n, xs). length xs)") auto

declare split_batches.simps [simp del]

definition batches :: "batch_config \<Rightarrow> 'a list \<Rightarrow> 'a list list" where
  "batches cfg records =
     split_batches (if bc_max_batch_size cfg \<le> 0 then length records else nat (bc_max_batch_size cfg)) records"

text \<open>\<open>sendBatch\<close>: at most \<open>MaxRetries + 1\<close> attempts; whether one succeeded, and how many were made.\<close>

function send_attempts :: "batch_config \<Rightarrow> (nat \<Rightarrow> http_outcome) \<Rightarrow> nat \<Rightarrow> bool \<times> nat" where
  "send_attempts cfg posts attempt =
     (if int attempt \<le> bc_max_retries cfg then
        (case do_post (posts attempt) of
           None \<Rightarrow> (True, Suc attempt)
         | Some e \<Rightarrow> send_attempts cfg posts (Suc attempt))
      else (False, attempt))"
  by pat_completeness auto
termination
  by (relation "measure (\<lambda>(cfg, _, a). nat (bc_max_retries cfg + 1) - a)") auto

declare send_attempts.simps [simp del]

definition send_batch :: "batch_config \<Rightarrow> (nat \<Rightarrow> http_outcome) \<Rightarrow> bool \<times> nat" where
  "send_batch cfg posts = send_attempts cfg posts 0"

text \<open>The first half of \<open>Close\<close>; the second waits for the flush loop to end.\<close>

definition close_locked :: "transport \<Rightarrow> transport" where
  "close_locked t = t\<lparr>bt_closed := True\<rparr>"

definition close_stop :: "transport \<Rightarrow> transport" where
  "close_stop t = t\<lparr>bt_stop := True\<rparr>"

text \<open>\<open>time.NewTicker\<close> of the flush loop panics on a period that is not positive.\<close>

definition flush_loop_starts :: "transport \<Rightarrow> bool" where
  "flush_loop_starts t = (0 < bc_flush_frequency (bt_cfg t))"

section \<open>Counting records\<close>

definition entries_count :: "buffered_entry list \<Rightarrow> int" where
  "entries_count es = int (length (concat (map be_records es)))"

lemma entries_count_simps [simp]:
  "entries_count [] = 0"
  "entries_count (e # es) = int (length (be_records e)) + entries_count es"
  "entries_count (es @ fs) = entries_count es + entries_count fs"
  by (simp_all add: entries_count_def)

lemma entries_count_nonneg [simp]: "0 \<le> entries_count es"
  by (simp add: entries_count_def)

text \<open>Dropping removes a prefix, counts it, and stops at the first suffix that fits.\<close>

lemma drop_oldest_spec:
  assumes "drop_oldest cap cnt dropped es = (es', cnt', dropped')" and "cnt = entries_count es"
  shows "\<exists>ds. es = ds @ es' \<and> cnt' = entries_count es' \<and> dropped' = dropped + entries_count ds
      \<and> (0 \<le> cap \<longrightarrow> cnt' \<le> cap)
      \<and> (\<forall>pre d. ds = pre @ [d] \<longrightarrow> cap < entries_count (d # es'))"
  using assms
proof (induction cap cnt dropped es rule: drop_oldest.induct)
  case (1 cap cnt dropped)
  then show ?case by auto
next
  case (2 cap cnt dropped e es)
  show ?case
  proof (cases "cnt > cap")
    case True
    have eq: "drop_oldest cap (cnt - int (length (be_records e))) (dropped + int (length (be_records e))) es
        = (es', cnt', dropped')"
      using "2.prems"(1) True by simp
    have cnt: "cnt - int (length (be_records e)) = entries_count es"
      using "2.prems"(2) by simp
    obtain ds where ds: "es = ds @ es'" "cnt' = entries_count es'"
      "dropped' = dropped + int (length (be_records e)) + entries_count ds" "0 \<le> cap \<longrightarrow> cnt' \<le> cap"
      "\<forall>pre d. ds = pre @ [d] \<longrightarrow> cap < entries_count (d # es')"
      using "2.IH" [OF True eq cnt] by auto
    have "\<forall>pre d. e # ds = pre @ [d] \<longrightarrow> cap < entries_count (d # es')"
    proof (intro allI impI)
      fix pre d assume split: "e # ds = pre @ [d]"
      show "cap < entries_count (d # es')"
      proof (cases pre)
        case Nil
        then have "d = e" "ds = []" using split by auto
        then show ?thesis using True "2.prems"(2) ds(1) by simp
      next
        case (Cons p ps)
        then show ?thesis using split ds(5) by auto
      qed
    qed
    then show ?thesis using ds by (intro exI [of _ "e # ds"]) auto
  next
    case False
    then show ?thesis using "2.prems" by (intro exI [of _ "[]"]) auto
  qed
qed

section \<open>Batches\<close>

lemma split_batches_concat: "0 < n \<Longrightarrow> concat (split_batches n xs) = xs"
proof (induction n xs rule: split_batches.induct)
  case (1 n xs)
  then show ?case by (subst split_batches.simps) auto
qed

lemma split_batches_sizes: "b \<in> set (split_batches n xs) \<Longrightarrow> b \<noteq> [] \<and> length b \<le> n"
proof (induction n xs rule: split_batches.induct)
  case (1 n xs)
  then show ?case by (subst (asm) split_batches.simps) (auto split: if_splits)
qed

lemma split_batches_full: "b \<in> set (butlast (split_batches n xs)) \<Longrightarrow> length b = n"
proof (induction n xs rule: split_batches.induct)
  case (1 n xs)
  show ?case
  proof (cases "xs = [] \<or> n = 0")
    case True
    then show ?thesis using "1.prems" by (simp add: split_batches.simps)
  next
    case False
    have rest: "split_batches n (drop n xs) = [] \<or> n < length xs"
      using False by (auto simp: split_batches.simps [of n "drop n xs"])
    have "split_batches n xs = take n xs # split_batches n (drop n xs)"
      using False by (subst split_batches.simps) simp
    then have "b \<in> set (butlast (take n xs # split_batches n (drop n xs)))" using "1.prems" by simp
    then show ?thesis
      using "1.IH" [OF False] rest by (auto split: if_splits)
  qed
qed

lemma batches_concat: "concat (batches cfg rs) = rs"
proof (cases "rs = []")
  case True
  then show ?thesis by (simp add: batches_def split_batches.simps)
next
  case False
  then show ?thesis by (simp add: batches_def split_batches_concat)
qed

lemma batches_sizes:
  assumes "b \<in> set (batches cfg rs)"
  shows "b \<noteq> []" and "0 < bc_max_batch_size cfg \<Longrightarrow> int (length b) \<le> bc_max_batch_size cfg"
  using assms split_batches_sizes [of b _ rs] by (fastforce simp: batches_def)+

section \<open>Attempts\<close>

lemma send_attempts_spec:
  "send_attempts cfg posts k = (ok, n) \<Longrightarrow> int k \<le> bc_max_retries cfg + 1 \<Longrightarrow>
     k \<le> n \<and> int n \<le> bc_max_retries cfg + 1 \<and>
     (ok \<longleftrightarrow> (\<exists>i. k \<le> i \<and> int i \<le> bc_max_retries cfg \<and> do_post (posts i) = None)) \<and>
     (\<forall>i. k \<le> i \<and> i < n - 1 \<longrightarrow> do_post (posts i) \<noteq> None)"
proof (induction cfg posts k rule: send_attempts.induct)
  case (1 cfg posts k)
  note step = "1.prems"(1) [unfolded send_attempts.simps [of cfg posts k]]
  show ?case
  proof (cases "int k \<le> bc_max_retries cfg")
    case False
    then show ?thesis using step "1.prems" by auto
  next
    case True
    show ?thesis
    proof (cases "do_post (posts k)")
      case None
      then show ?thesis using step True by auto
    next
      case (Some e)
      then have rec: "send_attempts cfg posts (Suc k) = (ok, n)" using step True by simp
      have "int (Suc k) \<le> bc_max_retries cfg + 1" using True by simp
      from "1.IH" [OF True Some rec this] show ?thesis
        using Some by (metis Suc_leD Suc_le_eq le_neq_implies_less option.distinct(1))
    qed
  qed
qed

lemma send_attempts_later: "send_attempts cfg posts k = (ok, n) \<Longrightarrow> k \<le> n"
proof (induction cfg posts k rule: send_attempts.induct)
  case (1 cfg posts k)
  show ?case
    using "1.prems" "1.IH"
    by (subst (asm) send_attempts.simps) (auto split: if_splits option.splits dest!: Suc_leD)
qed

lemma send_attempts_last:
  "send_attempts cfg posts k = (ok, n) \<Longrightarrow> Suc k \<le> n \<Longrightarrow> ok \<longleftrightarrow> do_post (posts (n - 1)) = None"
proof (induction cfg posts k rule: send_attempts.induct)
  case (1 cfg posts k)
  note eq = "1.prems"(1) [unfolded send_attempts.simps [of cfg posts k]]
  show ?case
  proof (cases "int k \<le> bc_max_retries cfg")
    case False
    then show ?thesis using eq "1.prems"(2) by auto
  next
    case True
    show ?thesis
    proof (cases "do_post (posts k)")
      case None
      then show ?thesis using eq True by auto
    next
      case (Some e)
      then have rec: "send_attempts cfg posts (Suc k) = (ok, n)" using eq True by simp
      show ?thesis
      proof (cases "Suc (Suc k) \<le> n")
        case t: True
        show ?thesis by (rule "1.IH" [OF True Some rec t])
      next
        case False
        then have "n = Suc k" using "1.prems"(2) by simp
        then show ?thesis
          using rec Some by (auto simp: send_attempts.simps [of cfg posts "Suc k"] dest!: send_attempts_later
              split: option.splits if_splits)
      qed
    qed
  qed
qed

section \<open>One delivery\<close>

lemma deliver_locked_spec:
  assumes "deliver_locked topic rs t = Inr (t', out)" and "bt_count t = entries_count (bt_buffer t)"
  shows "\<exists>ds. bt_buffer t @ [\<lparr>be_topic = topic, be_records = rs\<rparr>] = ds @ bt_buffer t'
      \<and> do_dropped out = entries_count ds
      \<and> t' = t\<lparr>bt_buffer := bt_buffer t', bt_count := entries_count (bt_buffer t'), bt_topic := topic,
              bt_count_obs := entries_count (bt_buffer t'), bt_hwm := max (bt_hwm t) (entries_count (bt_buffer t'))\<rparr>
      \<and> \<not> bt_closed t
      \<and> (0 < bc_max_buffered_records (bt_cfg t) \<longrightarrow>
           entries_count (bt_buffer t') \<le> bc_max_buffered_records (bt_cfg t))
      \<and> (bc_max_buffered_records (bt_cfg t) \<le> 0 \<longrightarrow> ds = [])
      \<and> (\<forall>pre d. ds = pre @ [d] \<longrightarrow> bc_max_buffered_records (bt_cfg t) < entries_count (d # bt_buffer t'))"
proof -
  define cap where "cap = bc_max_buffered_records (bt_cfg t)"
  define full where "full = bt_buffer t @ [\<lparr>be_topic = topic, be_records = rs\<rparr>]"
  define cnt where "cnt = bt_count t + int (length rs)"
  obtain b' c' d where r: "(if cap > 0 then drop_oldest cap cnt 0 full else (full, cnt, 0)) = (b', c', d)"
    by (metis prod_cases3)
  have cnt: "cnt = entries_count full" using assms(2) by (simp add: cnt_def full_def)
  have open_: "\<not> bt_closed t" using assms(1) by (auto simp: deliver_locked_def split: if_splits)
  have t': "t' = t\<lparr>bt_buffer := b', bt_count := c', bt_topic := topic, bt_count_obs := c',
                  bt_hwm := (if c' > bt_hwm t then c' else bt_hwm t)\<rparr>"
    and out: "do_dropped out = d"
    using assms(1) open_ r by (auto simp: deliver_locked_def Let_def simp flip: cap_def full_def cnt_def)
  have "\<exists>ds. full = ds @ b' \<and> c' = entries_count b' \<and> d = entries_count ds \<and> (0 < cap \<longrightarrow> c' \<le> cap)
      \<and> (cap \<le> 0 \<longrightarrow> ds = []) \<and> (\<forall>pre x. ds = pre @ [x] \<longrightarrow> cap < entries_count (x # b'))"
  proof (cases "cap > 0")
    case True
    then have "drop_oldest cap cnt 0 full = (b', c', d)" using r by simp
    from drop_oldest_spec [OF this cnt] True show ?thesis by auto
  next
    case False
    then show ?thesis using r cnt by auto
  qed
  then obtain ds where ds: "full = ds @ b'" "c' = entries_count b'" "d = entries_count ds" "0 < cap \<longrightarrow> c' \<le> cap"
      "cap \<le> 0 \<longrightarrow> ds = []" "\<forall>pre x. ds = pre @ [x] \<longrightarrow> cap < entries_count (x # b')" by blast
  have b': "bt_buffer t' = b'" by (simp add: t')
  show ?thesis
    unfolding b' out
    using ds open_ by (intro exI [of _ ds]) (auto simp: t' max_def full_def cap_def)
qed

lemma take_buffer_eq:
  "take_buffer t = (es, t') \<Longrightarrow> es = bt_buffer t \<and> bt_buffer t' = [] \<and>
     (bt_buffer t = [] \<longrightarrow> t' = t) \<and>
     (bt_buffer t \<noteq> [] \<longrightarrow> t' = t\<lparr>bt_buffer := [], bt_count := 0, bt_count_obs := 0\<rparr>)"
  by (auto simp: take_buffer_def split: if_splits)

section \<open>Properties\<close>

lemma http_attempts_spec:
  "http_attempts posts cancelled e k = (r, n) \<Longrightarrow> k \<le> 3 \<Longrightarrow>
     n \<le> 3 \<and> (r = None \<longleftrightarrow> (k = 3 \<and> e = None) \<or>
       (\<exists>i. k \<le> i \<and> i \<le> 2 \<and> do_post (posts i) = None \<and> (\<forall>j. k \<le> j \<and> j \<le> i \<and> 0 < j \<longrightarrow> \<not> cancelled j)))"
proof (induction posts cancelled e k rule: http_attempts.induct)
  case (1 posts cancelled e k)
  note step = "1.prems"(1) [unfolded http_attempts.simps [of posts cancelled e k]]
  show ?case
  proof (cases "int k \<le> default_retries")
    case False
    then have "k = 3" using "1.prems"(2) by (simp add: default_retries_def)
    then show ?thesis using step False by auto
  next
    case True
    then have k: "k \<le> 2" by (simp add: default_retries_def)
    show ?thesis
    proof (cases "0 < k \<and> cancelled k")
      case c: True
      then show ?thesis using step True k by auto
    next
      case go: False
      show ?thesis
      proof (cases "do_post (posts k)")
        case None
        then have "r = None" "n = Suc k" using step True go by auto
        then show ?thesis using k None go by (auto intro!: exI [of _ k])
      next
        case (Some e')
        then have rec: "http_attempts posts cancelled (Some e') (Suc k) = (r, n)" using step True go by simp
        have "Suc k \<le> 3" using k by simp
        note ih = "1.IH" [OF True go Some rec this]
        have "(\<exists>i. Suc k \<le> i \<and> i \<le> 2 \<and> do_post (posts i) = None \<and>
                 (\<forall>j. Suc k \<le> j \<and> j \<le> i \<and> 0 < j \<longrightarrow> \<not> cancelled j)) \<longleftrightarrow>
              (\<exists>i. k \<le> i \<and> i \<le> 2 \<and> do_post (posts i) = None \<and>
                 (\<forall>j. k \<le> j \<and> j \<le> i \<and> 0 < j \<longrightarrow> \<not> cancelled j))"
          using go Some by (metis Suc_leD Suc_le_eq le_neq_implies_less option.distinct(1))
        then show ?thesis using ih k by auto
      qed
    qed
  qed
qed

text \<open>The direct HTTP transport makes between one and three requests, and reports success exactly
  when one of the first three attempts was answered with a status below 400 and the context was not
  cancelled during the delays before it.\<close>

theorem http_deliver_outcome:
  assumes "http_deliver posts cancelled = (result, requests)"
  shows "1 \<le> requests \<and> requests \<le> 3 \<and>
    (result = None \<longleftrightarrow>
       (\<exists>i\<le>2. do_post (posts i) = None \<and> (\<forall>j. 1 \<le> j \<and> j \<le> i \<longrightarrow> \<not> cancelled j)))"
proof -
  have att: "http_attempts posts cancelled None 0 = (result, requests)"
    using assms by (simp add: http_deliver_def)
  have "1 \<le> requests"
    using att by (auto simp: http_attempts.simps default_retries_def split: option.splits if_splits)
  then show ?thesis using http_attempts_spec [OF att] by (auto simp: Suc_le_eq)
qed

theorem http_deliver_outcome_witness:
  "fst (http_deliver (\<lambda>k. if k < 2 then Response 503 else Response 200) (\<lambda>k. False)) = None"
proof -
  let ?posts = "\<lambda>k::nat. if k < 2 then Response 503 else Response 200"
  obtain r n where eq: "http_deliver ?posts (\<lambda>k. False) = (r, n)" by fastforce
  have "r = None" using http_deliver_outcome [OF eq] by (auto simp: do_post_def intro!: exI [of _ 2])
  then show ?thesis by (simp add: eq)
qed

text \<open>C31 A batch is tried at least once and at most \<open>MaxRetries + 1\<close> times; it counts as delivered
  exactly when one of these attempts is answered with a status below 400, and then no request follows
  the first answer of this kind.\<close>

theorem send_batch_outcome:
  assumes "send_batch cfg posts = (delivered, requests)" and "0 \<le> bc_max_retries cfg"
  shows "1 \<le> requests \<and> int requests \<le> bc_max_retries cfg + 1 \<and>
    (delivered \<longleftrightarrow> (\<exists>i. int i \<le> bc_max_retries cfg \<and> do_post (posts i) = None)) \<and>
    (\<forall>i < requests - 1. do_post (posts i) \<noteq> None) \<and>
    (delivered \<longleftrightarrow> do_post (posts (requests - 1)) = None)"
proof -
  have att: "send_attempts cfg posts 0 = (delivered, requests)"
    using assms(1) by (simp add: send_batch_def)
  have pos: "1 \<le> requests"
    using att assms(2) send_attempts_spec [of cfg posts 1 delivered requests]
    by (auto simp: send_attempts.simps [of cfg posts 0] split: option.splits if_splits)
  note spec = send_attempts_spec [OF att] assms(2)
  have last: "delivered \<longleftrightarrow> do_post (posts (requests - 1)) = None"
    using send_attempts_last [OF att] pos by simp
  show ?thesis using spec pos last by auto
qed

theorem send_batch_outcome_witness:
  "\<not> fst (send_batch \<lparr>bc_flush_frequency = 500, bc_flush_messages = 100, bc_max_batch_size = 500,
      bc_max_retries = 3, bc_retry_backoff = 100, bc_max_buffered_records = 50000\<rparr> (\<lambda>k. Transport_Error))"
proof -
  let ?cfg = "\<lparr>bc_flush_frequency = 500, bc_flush_messages = 100, bc_max_batch_size = 500,
      bc_max_retries = 3, bc_retry_backoff = 100, bc_max_buffered_records = 50000\<rparr>"
  obtain d n where eq: "send_batch ?cfg (\<lambda>k. Transport_Error) = (d, n)" by fastforce
  show ?thesis using send_batch_outcome [OF eq] by (simp add: eq do_post_def)
qed

text \<open>Splitting the records of a topic into batches loses, repeats and reorders nothing: the batches
  in their order are the records, none is empty, with a positive \<open>MaxBatchSize\<close> none exceeds it and all
  but the last are full, and without one there is a single batch.\<close>

theorem batches_partition:
  "concat (batches cfg rs) = rs \<and> [] \<notin> set (batches cfg rs) \<and>
   (if 0 < bc_max_batch_size cfg
    then list_all (\<lambda>b. int (length b) \<le> bc_max_batch_size cfg) (batches cfg rs) \<and>
         list_all (\<lambda>b. int (length b) = bc_max_batch_size cfg) (butlast (batches cfg rs))
    else batches cfg rs = (if rs = [] then [] else [rs]))"
proof (cases "0 < bc_max_batch_size cfg")
  case True
  then show ?thesis
    using batches_concat [of cfg rs] batches_sizes [of _ cfg rs] split_batches_full
    by (auto simp: list_all_iff) (fastforce simp: batches_def)
next
  case False
  then have "batches cfg rs = (if rs = [] then [] else [rs])"
    by (simp add: batches_def split_batches.simps [of _ rs] split_batches.simps [of _ "[]"])
  then show ?thesis using False by simp
qed

lemma longer_suffix_exceeds:
  assumes "\<forall>pre d. ds = pre @ [d] \<longrightarrow> cap < entries_count (d # es)" and "ds @ es = ds' @ es'"
    and "length es < length es'"
  shows "cap < entries_count es'"
proof -
  from assms(2,3) obtain us where us: "ds = ds' @ us" "es' = us @ es" "us \<noteq> []"
    by (auto simp: append_eq_append_conv2)
  then obtain pre d where pre: "us = pre @ [d]" by (cases us rule: rev_cases) auto
  then have "ds = (ds' @ pre) @ [d]" using us(1) by simp
  with assms(1) have "cap < entries_count (d # es)" by blast
  moreover have "entries_count es' = entries_count pre + entries_count (d # es)" using us(2) pre by simp
  ultimately show ?thesis using entries_count_nonneg [of pre] by linarith
qed

text \<open>C9 A \<open>Deliver\<close> on an open transport succeeds and keeps, of the buffered entries followed by the new
  one, a suffix that fits the cap, and no longer suffix fits: only the oldest entries are dropped, and
  no more of them than needed.  The records of the dropped prefix are what the drop counter grows by,
  and the flush signal is raised when the flush threshold is reached.\<close>

theorem deliver_keeps_newest:
  assumes "\<not> bt_closed t" and "rs \<noteq> []" and "bt_count t = entries_count (bt_buffer t)"
    and "0 < bc_max_buffered_records (bt_cfg t)"
  shows "\<exists>t' ds. buffered_deliver topic rs t = (t', None) \<and>
    bt_buffer t @ [\<lparr>be_topic = topic, be_records = rs\<rparr>] = ds @ bt_buffer t' \<and>
    bt_count t' = entries_count (bt_buffer t') \<and> bt_count t' \<le> bc_max_buffered_records (bt_cfg t) \<and>
    (\<forall>ds' es. ds @ bt_buffer t' = ds' @ es \<and> length (bt_buffer t') < length es \<longrightarrow>
       bc_max_buffered_records (bt_cfg t) < entries_count es) \<and>
    bt_dropped_total t' = bt_dropped_total t + entries_count ds \<and>
    bt_flush_signal t' = (bt_flush_signal t \<or> bc_flush_messages (bt_cfg t) \<le> bt_count t')"
proof -
  obtain t1 out where d: "deliver_locked topic rs t = Inr (t1, out)"
    using assms(1) by (auto simp: deliver_locked_def Let_def split_def)
  from deliver_locked_spec [OF d assms(3)] obtain ds where
    ds: "bt_buffer t @ [\<lparr>be_topic = topic, be_records = rs\<rparr>] = ds @ bt_buffer t1"
      "do_dropped out = entries_count ds"
      "t1 = t\<lparr>bt_buffer := bt_buffer t1, bt_count := entries_count (bt_buffer t1), bt_topic := topic,
              bt_count_obs := entries_count (bt_buffer t1), bt_hwm := max (bt_hwm t) (entries_count (bt_buffer t1))\<rparr>"
      "entries_count (bt_buffer t1) \<le> bc_max_buffered_records (bt_cfg t)"
      "\<forall>pre x. ds = pre @ [x] \<longrightarrow> bc_max_buffered_records (bt_cfg t) < entries_count (x # bt_buffer t1)"
    using assms(4) by auto
  have flag: "do_flush_needed out = (bc_flush_messages (bt_cfg t) \<le> bt_count t1)"
    using d assms(1) by (auto simp: deliver_locked_def Let_def split_def)
  let ?t' = "deliver_after out t1"
  have fields: "bt_buffer ?t' = bt_buffer t1" "bt_count ?t' = bt_count t1"
    "bt_dropped_total ?t' = bt_dropped_total t1 + do_dropped out"
    "bt_flush_signal ?t' = (bt_flush_signal t1 \<or> do_flush_needed out)"
    using entries_count_nonneg [of ds] by (auto simp: deliver_after_def Let_def ds(2) simp del: entries_count_nonneg)
  have t1: "bt_count t1 = entries_count (bt_buffer t1)" "bt_dropped_total t1 = bt_dropped_total t"
    "bt_flush_signal t1 = bt_flush_signal t"
    by (subst ds(3), simp)+
  have "buffered_deliver topic rs t = (?t', None)"
    using assms(2) d by (simp add: buffered_deliver_def)
  then show ?thesis
    using ds(1,2,4) longer_suffix_exceeds [OF ds(5)] fields t1 flag by auto
qed

theorem deliver_keeps_newest_witness:
  "\<exists>t'. buffered_deliver ''m'' [sample_record] ((new_buffered_transport ''h''
      \<lparr>bc_flush_frequency = 500, bc_flush_messages = 100, bc_max_batch_size = 500,
       bc_max_retries = 3, bc_retry_backoff = 100, bc_max_buffered_records = 1\<rparr>)
       \<lparr>bt_buffer := [\<lparr>be_topic = ''m'', be_records = [sample_record]\<rparr>], bt_count := 1\<rparr>) = (t', None)"
  using deliver_keeps_newest [of "(new_buffered_transport ''h''
      \<lparr>bc_flush_frequency = 500, bc_flush_messages = 100, bc_max_batch_size = 500,
       bc_max_retries = 3, bc_retry_backoff = 100, bc_max_buffered_records = 1\<rparr>)
       \<lparr>bt_buffer := [\<lparr>be_topic = ''m'', be_records = [sample_record]\<rparr>], bt_count := 1\<rparr>" "[sample_record]" "''m''"]
  by (auto simp: new_buffered_transport_def)

text \<open>A single \<open>Deliver\<close> of more records than the whole buffer may hold empties the buffer and loses
  all of its own records too, and still returns no error: only the drop counter shows it.\<close>

theorem oversized_delivery_is_lost:
  assumes "\<not> bt_closed t" and "bt_count t = entries_count (bt_buffer t)"
    and "0 < bc_max_buffered_records (bt_cfg t)" and "bc_max_buffered_records (bt_cfg t) < int (length rs)"
  shows "\<exists>t'. buffered_deliver topic rs t = (t', None) \<and> bt_buffer t' = [] \<and> bt_count t' = 0 \<and>
    bt_dropped_total t' = bt_dropped_total t + entries_count (bt_buffer t) + int (length rs)"
proof -
  obtain t1 out where d: "deliver_locked topic rs t = Inr (t1, out)"
    using assms(1) by (auto simp: deliver_locked_def Let_def split_def)
  from deliver_locked_spec [OF d assms(2)] obtain ds where
    ds: "bt_buffer t @ [\<lparr>be_topic = topic, be_records = rs\<rparr>] = ds @ bt_buffer t1"
      "do_dropped out = entries_count ds"
      "t1 = t\<lparr>bt_buffer := bt_buffer t1, bt_count := entries_count (bt_buffer t1), bt_topic := topic,
              bt_count_obs := entries_count (bt_buffer t1), bt_hwm := max (bt_hwm t) (entries_count (bt_buffer t1))\<rparr>"
      "entries_count (bt_buffer t1) \<le> bc_max_buffered_records (bt_cfg t)"
    using assms(3) by auto
  have empty: "bt_buffer t1 = []"
  proof (rule ccontr)
    assume "bt_buffer t1 \<noteq> []"
    then obtain es where "bt_buffer t1 = es @ [\<lparr>be_topic = topic, be_records = rs\<rparr>]"
      using ds(1) by (metis append_butlast_last_id last_appendR last_snoc)
    then show False using ds(4) assms(4) entries_count_nonneg [of es] by simp
  qed
  then have "ds = bt_buffer t @ [\<lparr>be_topic = topic, be_records = rs\<rparr>]" using ds(1) by simp
  then have dropped: "do_dropped out = entries_count (bt_buffer t) + int (length rs)" using ds(2) by simp
  have "bt_dropped_total t1 = bt_dropped_total t" "bt_count t1 = 0"
    by (subst ds(3), simp add: empty)+
  moreover have "rs \<noteq> []" using assms(3,4) by auto
  moreover have "0 < do_dropped out"
    using dropped assms(3,4) entries_count_nonneg [of "bt_buffer t"] by linarith
  ultimately show ?thesis
    using d dropped empty by (simp add: buffered_deliver_def deliver_after_def Let_def)
qed

theorem oversized_delivery_is_lost_witness:
  "\<exists>t'. buffered_deliver ''m'' [sample_record, sample_record] (new_buffered_transport ''h''
      \<lparr>bc_flush_frequency = 500, bc_flush_messages = 100, bc_max_batch_size = 500,
       bc_max_retries = 3, bc_retry_backoff = 100, bc_max_buffered_records = 1\<rparr>) = (t', None) \<and>
     bt_dropped_total t' = 2"
  using oversized_delivery_is_lost [of "new_buffered_transport ''h''
      \<lparr>bc_flush_frequency = 500, bc_flush_messages = 100, bc_max_batch_size = 500,
       bc_max_retries = 3, bc_retry_backoff = 100, bc_max_buffered_records = 1\<rparr>" "[sample_record, sample_record]" "''m''"]
  by (auto simp: new_buffered_transport_def)

end
