(* ===== verification/Buffer_Loop.thy ===== *)
theory Buffer_Loop
  imports Buffer
begin

text \<open>
  The goroutines of \<open>BufferedHTTPTransport\<close> as a step relation: calls of \<open>Deliver\<close> (the critical section,
  then what follows it), the flush loop with its three cases, the batches it sends one after the
  other, and \<open>Close\<close>.  Every atomic step of the code is a step here, and they interleave freely.
  The state carries what happened to every record: accepted, dropped from the buffer, acknowledged
  by the proxy, or given up after the last attempt.
\<close>

section \<open>The system\<close>

type_synonym tagged = "string \<times> kafka_record"

definition tag :: "string \<Rightarrow> kafka_record list \<Rightarrow> tagged list" where
  "tag topic rs = map (Pair topic) rs"

definition tag_entries :: "buffered_entry list \<Rightarrow> tagged list" where
  "tag_entries es = concat (map (\<lambda>e. tag (be_topic e) (be_records e)) es)"

definition tag_groups :: "(string \<times> kafka_record list) list \<Rightarrow> tagged list" where
  "tag_groups gs = concat (map (\<lambda>(t, rs). tag t rs) gs)"

text \<open>The batches of a flush, for the topics in the order in which the map is visited.\<close>

definition flush_batches :: "batch_config \<Rightarrow> (string \<times> kafka_record list) list \<Rightarrow> (string \<times> kafka_record list) list" where
  "flush_batches cfg gs = concat (map (\<lambda>(t, rs). map (Pair t) (batches cfg rs)) gs)"

datatype loop_phase = Idle | Sending "(string \<times> kafka_record list) list" bool | Finished

primrec in_flight :: "loop_phase \<Rightarrow> tagged list" where
  "in_flight Idle = []"
| "in_flight (Sending bs final) = tag_groups bs"
| "in_flight Finished = []"

primrec stopping :: "loop_phase \<Rightarrow> bool" where
  "stopping Idle = False"
| "stopping (Sending bs final) = final"
| "stopping Finished = True"

record system =
  sy_t :: transport
  sy_pending :: "deliver_outcome list"
  sy_loop :: loop_phase
  sy_accepted :: "tagged list"
  sy_dropped :: "tagged list"
  sy_delivered :: "tagged list"
  sy_lost :: "tagged list"

definition initial :: "string \<Rightarrow> batch_config \<Rightarrow> system" where
  "initial addr cfg =
     \<lparr>sy_t = new_buffered_transport addr cfg, sy_pending = [], sy_loop = Idle, sy_accepted = [],
      sy_dropped = [], sy_delivered = [], sy_lost = []\<rparr>"

definition accept :: "string \<Rightarrow> kafka_record list \<Rightarrow> transport \<Rightarrow> deliver_outcome \<Rightarrow> system \<Rightarrow> system" where
  "accept topic rs t' out s =
     (let full = bt_buffer (sy_t s) @ [\<lparr>be_topic = topic, be_records = rs\<rparr>] in
      s\<lparr>sy_t := t', sy_pending := sy_pending s @ [out],
        sy_accepted := sy_accepted s @ tag topic rs,
        sy_dropped := sy_dropped s @ tag_entries (take (length full - length (bt_buffer t')) full)\<rparr>)"

definition start_flush :: "(string \<times> kafka_record list) list \<Rightarrow> bool \<Rightarrow> transport \<Rightarrow> system \<Rightarrow> system" where
  "start_flush gs final t' s = s\<lparr>sy_t := t', sy_loop := Sending (flush_batches (bt_cfg t') gs) final\<rparr>"

inductive step :: "system \<Rightarrow> system \<Rightarrow> bool" where
  deliver: "rs \<noteq> [] \<Longrightarrow> deliver_locked topic rs (sy_t s) = Inr (t', out) \<Longrightarrow> step s (accept topic rs t' out s)"
| unlock: "sy_pending s = xs @ out # ys \<Longrightarrow>
    step s (s\<lparr>sy_t := deliver_after out (sy_t s), sy_pending := xs @ ys\<rparr>)"
| timer: "sy_loop s = Idle \<Longrightarrow> take_buffer (sy_t s) = (es, t') \<Longrightarrow> mset gs = mset (group_by_topic es) \<Longrightarrow>
    step s (start_flush gs False t' s)"
| signal: "sy_loop s = Idle \<Longrightarrow> bt_flush_signal (sy_t s) \<Longrightarrow>
    take_buffer ((sy_t s)\<lparr>bt_flush_signal := False\<rparr>) = (es, t') \<Longrightarrow> mset gs = mset (group_by_topic es) \<Longrightarrow>
    step s (start_flush gs False t' s)"
| stop: "sy_loop s = Idle \<Longrightarrow> bt_stop (sy_t s) \<Longrightarrow> take_buffer (sy_t s) = (es, t') \<Longrightarrow>
    mset gs = mset (group_by_topic es) \<Longrightarrow> step s (start_flush gs True t' s)"
| sent: "sy_loop s = Sending ((topic, b) # bs) final \<Longrightarrow> send_batch (bt_cfg (sy_t s)) posts = (True, n) \<Longrightarrow>
    step s (s\<lparr>sy_loop := Sending bs final, sy_delivered := sy_delivered s @ tag topic b\<rparr>)"
| given_up: "sy_loop s = Sending ((topic, b) # bs) final \<Longrightarrow> send_batch (bt_cfg (sy_t s)) posts = (False, n) \<Longrightarrow>
    step s (s\<lparr>sy_loop := Sending bs final, sy_lost := sy_lost s @ tag topic b\<rparr>)"
| flushed: "sy_loop s = Sending [] False \<Longrightarrow> step s (s\<lparr>sy_loop := Idle\<rparr>)"
| finished: "sy_loop s = Sending [] True \<Longrightarrow> step s (s\<lparr>sy_loop := Finished\<rparr>)"
| close_lock: "\<not> bt_closed (sy_t s) \<Longrightarrow> step s (s\<lparr>sy_t := close_locked (sy_t s)\<rparr>)"
| close_signal: "bt_closed (sy_t s) \<Longrightarrow> \<not> bt_stop (sy_t s) \<Longrightarrow> step s (s\<lparr>sy_t := close_stop (sy_t s)\<rparr>)"

inductive reachable :: "string \<Rightarrow> batch_config \<Rightarrow> system \<Rightarrow> bool" for addr cfg where
  start: "reachable addr cfg (initial addr cfg)"
| step: "reachable addr cfg s \<Longrightarrow> step s s' \<Longrightarrow> reachable addr cfg s'"

inductive_cases stepE: "step s s'"

section \<open>Grouping by topic\<close>

definition of_topic :: "string \<Rightarrow> tagged list \<Rightarrow> tagged list" where
  "of_topic t xs = filter (\<lambda>p. fst p = t) xs"

lemma of_topic_simps [simp]:
  "of_topic t [] = []" "of_topic t (xs @ ys) = of_topic t xs @ of_topic t ys"
  "of_topic t (tag u rs) = (if u = t then tag u rs else [])"
  by (auto simp: of_topic_def tag_def filter_map comp_def)

lemma tag_simps [simp]:
  "tag t [] = []" "tag t (xs @ ys) = tag t xs @ tag t ys" "length (tag t rs) = length rs"
  "tag_entries [] = []" "tag_entries (e # es) = tag (be_topic e) (be_records e) @ tag_entries es"
  "tag_entries (es @ fs) = tag_entries es @ tag_entries fs"
  "tag_groups [] = []" "tag_groups ((t, rs) # gs) = tag t rs @ tag_groups gs"
  "tag_groups (gs @ hs) = tag_groups gs @ tag_groups hs"
  by (simp_all add: tag_def tag_entries_def tag_groups_def)

lemma length_tag_entries: "int (length (tag_entries es)) = entries_count es"
  by (induction es) auto

lemma tag_groups_batches: "tag_groups (map (Pair t) bs) = tag t (concat bs)"
  by (induction bs) auto

lemma tag_flush_batches: "tag_groups (flush_batches cfg gs) = tag_groups gs"
  by (induction gs) (auto simp: flush_batches_def tag_groups_batches batches_concat)

lemma group_by_topic_snoc:
  "group_by_topic (es @ [e]) =
     AList.update (be_topic e)
       ((case map_of (group_by_topic es) (be_topic e) of None \<Rightarrow> [] | Some rs \<Rightarrow> rs) @ be_records e)
       (group_by_topic es)"
  by (simp add: group_by_topic_def)

lemma group_distinct: "distinct (map fst (group_by_topic es))"
  by (induction es rule: rev_induct) (simp_all add: group_by_topic_snoc distinct_update, simp add: group_by_topic_def)

definition group_of :: "(string \<times> kafka_record list) list \<Rightarrow> string \<Rightarrow> kafka_record list" where
  "group_of gs t = (case map_of gs t of None \<Rightarrow> [] | Some rs \<Rightarrow> rs)"

lemma group_records: "tag t (group_of (group_by_topic es) t) = of_topic t (tag_entries es)"
proof (induction es rule: rev_induct)
  case Nil
  then show ?case by (simp add: group_by_topic_def group_of_def)
next
  case (snoc e es)
  then show ?case
    by (auto simp: group_by_topic_snoc update_conv' group_of_def)
qed

lemma of_topic_groups:
  assumes "distinct (map fst gs)"
  shows "of_topic t (tag_groups gs) = tag t (group_of gs t)"
  using assms
proof (induction gs)
  case Nil
  then show ?case by (simp add: group_of_def)
next
  case (Cons g gs)
  obtain u rs where g: "g = (u, rs)" by force
  have "u \<notin> fst ` set gs" using Cons.prems g by simp
  then have "group_of gs u = []" by (simp add: group_of_def map_of_eq_None_iff [THEN iffD2])
  with Cons g show ?case by (auto simp: group_of_def)
qed

lemma group_of_permuted:
  assumes "mset gs = mset hs" and "distinct (map fst hs)"
  shows "group_of gs t = group_of hs t" and "distinct (map fst gs)"
proof -
  have "mset (map fst gs) = mset (map fst hs)" using assms(1) by simp
  then show d: "distinct (map fst gs)" using assms(2) by (metis mset_eq_imp_distinct_iff)
  have "set gs = set hs" using assms(1) by (metis mset_eq_setD)
  then have "map_of gs = map_of hs" using d assms(2) by (metis map_of_inject_set)
  then show "group_of gs t = group_of hs t" by (simp add: group_of_def)
qed

text \<open>In whatever order the topics are visited, a topic keeps the order of its records.\<close>

lemma flush_keeps_topic:
  assumes "mset gs = mset (group_by_topic es)"
  shows "of_topic t (tag_groups (flush_batches cfg gs)) = of_topic t (tag_entries es)"
  using of_topic_groups [OF group_of_permuted(2) [OF assms group_distinct]]
    group_of_permuted(1) [OF assms group_distinct] group_records
  by (simp add: tag_flush_batches)

lemma mset_from_topics:
  assumes "\<And>t. of_topic t xs = of_topic t ys"
  shows "mset xs = mset ys"
proof (rule multiset_eqI)
  fix p :: tagged
  have "count (mset zs) p = count (mset (of_topic (fst p) zs)) p" for zs
    by (simp add: of_topic_def mset_filter)
  then show "count (mset xs) p = count (mset ys) p"
    using assms by metis
qed

section \<open>Invariants\<close>

text \<open>The counters say what the buffer holds, the cap bounds it, and every drop is counted once.\<close>

definition counters_ok :: "batch_config \<Rightarrow> system \<Rightarrow> bool" where
  "counters_ok cfg s =
     (let t = sy_t s; cap = bc_max_buffered_records cfg in
      bt_cfg t = cfg \<and>
      bt_count t = entries_count (bt_buffer t) \<and> bt_count_obs t = bt_count t \<and>
      (0 < cap \<longrightarrow> bt_hwm t \<le> cap) \<and> bt_count_obs t \<le> bt_hwm t \<and>
      (\<forall>out \<in> set (sy_pending s). 0 \<le> do_dropped out) \<and>
      bt_dropped_total t + sum_list (map do_dropped (sy_pending s)) = int (length (sy_dropped s)))"

text \<open>Every accepted record is in exactly one place.\<close>

definition ledger_ok :: "system \<Rightarrow> bool" where
  "ledger_ok s =
     (mset (sy_accepted s) =
        mset (sy_dropped s) + mset (tag_entries (bt_buffer (sy_t s))) + mset (in_flight (sy_loop s)) +
        mset (sy_delivered s) + mset (sy_lost s))"

text \<open>Per topic, what is delivered, in flight and buffered keeps the order in which it was accepted.\<close>

definition fifo_ok :: "system \<Rightarrow> bool" where
  "fifo_ok s =
     (\<forall>t. subseq (of_topic t (sy_delivered s @ in_flight (sy_loop s) @ tag_entries (bt_buffer (sy_t s))))
        (of_topic t (sy_accepted s)))"

text \<open>Once the flush loop ends or makes its last flush, nothing is buffered any more.\<close>

definition shutdown_ok :: "system \<Rightarrow> bool" where
  "shutdown_ok s =
     ((bt_stop (sy_t s) \<longrightarrow> bt_closed (sy_t s)) \<and>
      (stopping (sy_loop s) \<longrightarrow> bt_stop (sy_t s) \<and> bt_buffer (sy_t s) = []))"

lemma deliver_after_simps [simp]:
  "bt_buffer (deliver_after out t) = bt_buffer t" "bt_count (deliver_after out t) = bt_count t"
  "bt_count_obs (deliver_after out t) = bt_count_obs t" "bt_hwm (deliver_after out t) = bt_hwm t"
  "bt_cfg (deliver_after out t) = bt_cfg t" "bt_closed (deliver_after out t) = bt_closed t"
  "bt_stop (deliver_after out t) = bt_stop t"
  by (simp_all add: deliver_after_def Let_def)

lemma deliver_after_dropped:
  "0 \<le> do_dropped out \<Longrightarrow> bt_dropped_total (deliver_after out t) = bt_dropped_total t + do_dropped out"
  by (simp add: deliver_after_def Let_def)

lemma take_buffer_fields:
  assumes "take_buffer t = (es, t')"
  shows "bt_cfg t' = bt_cfg t" "bt_hwm t' = bt_hwm t" "bt_dropped_total t' = bt_dropped_total t"
    "bt_closed t' = bt_closed t" "bt_stop t' = bt_stop t" "bt_buffer t' = []" "es = bt_buffer t"
    "bt_count t = entries_count (bt_buffer t) \<Longrightarrow> bt_count_obs t = bt_count t \<Longrightarrow>
       bt_count t' = 0 \<and> bt_count_obs t' = 0"
  using take_buffer_eq [OF assms] by (cases "bt_buffer t = []"; auto)+

lemma start_flush_simps [simp]:
  "sy_t (start_flush gs f t' s) = t'" "sy_pending (start_flush gs f t' s) = sy_pending s"
  "sy_accepted (start_flush gs f t' s) = sy_accepted s" "sy_dropped (start_flush gs f t' s) = sy_dropped s"
  "sy_delivered (start_flush gs f t' s) = sy_delivered s" "sy_lost (start_flush gs f t' s) = sy_lost s"
  "sy_loop (start_flush gs f t' s) = Sending (flush_batches (bt_cfg t') gs) f"
  by (simp_all add: start_flush_def)

lemma close_simps [simp]:
  "bt_buffer (close_locked t) = bt_buffer t" "bt_buffer (close_stop t) = bt_buffer t"
  "bt_closed (close_locked t)" "bt_closed (close_stop t) = bt_closed t"
  "bt_stop (close_stop t)" "bt_stop (close_locked t) = bt_stop t"
  by (simp_all add: close_locked_def close_stop_def)

lemma counters_initial: "0 \<le> bc_max_buffered_records cfg \<Longrightarrow> counters_ok cfg (initial addr cfg)"
  and ledger_initial: "ledger_ok (initial addr cfg)"
  and fifo_initial: "fifo_ok (initial addr cfg)"
  and shutdown_initial: "shutdown_ok (initial addr cfg)"
  by (simp_all add: counters_ok_def ledger_ok_def fifo_ok_def shutdown_ok_def initial_def
      new_buffered_transport_def)

text \<open>What an accepted delivery does, in terms of the dropped prefix.\<close>

lemma accept_effect:
  assumes "deliver_locked topic rs (sy_t s) = Inr (t', out)" and "counters_ok cfg s"
  obtains ds where
    "bt_buffer (sy_t s) @ [\<lparr>be_topic = topic, be_records = rs\<rparr>] = ds @ bt_buffer t'"
    "do_dropped out = entries_count ds"
    "accept topic rs t' out s =
       s\<lparr>sy_t := t', sy_pending := sy_pending s @ [out], sy_accepted := sy_accepted s @ tag topic rs,
         sy_dropped := sy_dropped s @ tag_entries ds\<rparr>"
    "t' = (sy_t s)\<lparr>bt_buffer := bt_buffer t', bt_count := entries_count (bt_buffer t'), bt_topic := topic,
              bt_count_obs := entries_count (bt_buffer t'),
              bt_hwm := max (bt_hwm (sy_t s)) (entries_count (bt_buffer t'))\<rparr>"
    "\<not> bt_closed (sy_t s)"
    "0 < bc_max_buffered_records cfg \<longrightarrow> entries_count (bt_buffer t') \<le> bc_max_buffered_records cfg"
proof -
  have c: "bt_count (sy_t s) = entries_count (bt_buffer (sy_t s))" "bt_cfg (sy_t s) = cfg"
    using assms(2) by (simp_all add: counters_ok_def Let_def)
  from deliver_locked_spec [OF assms(1) c(1)] c(2)
  obtain ds where ds: "bt_buffer (sy_t s) @ [\<lparr>be_topic = topic, be_records = rs\<rparr>] = ds @ bt_buffer t'"
    "do_dropped out = entries_count ds" "\<not> bt_closed (sy_t s)"
    "t' = (sy_t s)\<lparr>bt_buffer := bt_buffer t', bt_count := entries_count (bt_buffer t'), bt_topic := topic,
              bt_count_obs := entries_count (bt_buffer t'),
              bt_hwm := max (bt_hwm (sy_t s)) (entries_count (bt_buffer t'))\<rparr>"
    "0 < bc_max_buffered_records cfg \<longrightarrow> entries_count (bt_buffer t') \<le> bc_max_buffered_records cfg"
    by blast
  show ?thesis
    by (rule that [OF ds(1,2) _ ds(4,3,5)]) (simp add: accept_def Let_def ds(1))
qed

lemma counters_step:
  assumes "step s s'" and inv: "counters_ok cfg s"
  shows "counters_ok cfg s'"
  using assms(1)
proof cases
  case (deliver rs topic t' out)
  from accept_effect [OF deliver(3) inv] obtain ds where
    eff: "bt_buffer (sy_t s) @ [\<lparr>be_topic = topic, be_records = rs\<rparr>] = ds @ bt_buffer t'"
    "do_dropped out = entries_count ds"
    "accept topic rs t' out s =
       s\<lparr>sy_t := t', sy_pending := sy_pending s @ [out], sy_accepted := sy_accepted s @ tag topic rs,
         sy_dropped := sy_dropped s @ tag_entries ds\<rparr>"
    and t': "t' = (sy_t s)\<lparr>bt_buffer := bt_buffer t', bt_count := entries_count (bt_buffer t'), bt_topic := topic,
              bt_count_obs := entries_count (bt_buffer t'),
              bt_hwm := max (bt_hwm (sy_t s)) (entries_count (bt_buffer t'))\<rparr>"
    and cap: "0 < bc_max_buffered_records cfg \<longrightarrow> entries_count (bt_buffer t') \<le> bc_max_buffered_records cfg"
    by blast
  obtain b where b: "t' = (sy_t s)\<lparr>bt_buffer := b, bt_count := entries_count b, bt_topic := topic,
              bt_count_obs := entries_count b, bt_hwm := max (bt_hwm (sy_t s)) (entries_count b)\<rparr>"
    using t' by blast
  show ?thesis
    unfolding deliver(1) eff(3) using inv cap eff(2)
    by (auto simp: counters_ok_def Let_def b length_tag_entries)
next
  case (unlock xs out ys)
  then show ?thesis
    using inv by (auto simp: counters_ok_def Let_def deliver_after_dropped)
next
  case (timer es t' gs)
  then show ?thesis
    using inv take_buffer_fields [OF timer(3)]
    by (auto simp: counters_ok_def Let_def intro: order_trans [OF entries_count_nonneg])
next
  case (signal es t' gs)
  then show ?thesis
    using inv take_buffer_fields [OF signal(4)]
    by (auto simp: counters_ok_def Let_def intro: order_trans [OF entries_count_nonneg])
next
  case (stop es t' gs)
  then show ?thesis
    using inv take_buffer_fields [OF stop(4)]
    by (auto simp: counters_ok_def Let_def intro: order_trans [OF entries_count_nonneg])
qed (use inv in \<open>auto simp: counters_ok_def Let_def close_locked_def close_stop_def\<close>)

lemma take_buffer_topics:
  assumes "take_buffer t = (es, t')" and "mset gs = mset (group_by_topic es)"
  shows "of_topic u (tag_groups (flush_batches cfg gs)) = of_topic u (tag_entries (bt_buffer t))"
    and "mset (tag_groups (flush_batches cfg gs)) = mset (tag_entries (bt_buffer t))"
  using flush_keeps_topic [OF assms(2)] take_buffer_eq [OF assms(1)] mset_from_topics
  by (metis, metis)

lemma ledger_step:
  assumes "step s s'" and inv: "ledger_ok s" and cnt: "counters_ok cfg s"
  shows "ledger_ok s'"
  using assms(1)
proof cases
  case (deliver rs topic t' out)
  from accept_effect [OF deliver(3) cnt] obtain ds where
    split: "bt_buffer (sy_t s) @ [\<lparr>be_topic = topic, be_records = rs\<rparr>] = ds @ bt_buffer t'" and
    eff: "accept topic rs t' out s =
       s\<lparr>sy_t := t', sy_pending := sy_pending s @ [out], sy_accepted := sy_accepted s @ tag topic rs,
         sy_dropped := sy_dropped s @ tag_entries ds\<rparr>"
    by blast
  have "tag_entries (bt_buffer (sy_t s)) @ tag topic rs = tag_entries ds @ tag_entries (bt_buffer t')"
    using arg_cong [OF split, of tag_entries] by simp
  then have "mset (tag_entries (bt_buffer (sy_t s))) + mset (tag topic rs)
      = mset (tag_entries ds) + mset (tag_entries (bt_buffer t'))"
    by (metis mset_append)
  then show ?thesis
    unfolding deliver(1) eff using inv by (simp add: ledger_ok_def ac_simps)
next
  case (timer es t' gs)
  then show ?thesis
    using inv take_buffer_topics(2) [OF timer(3,4)] take_buffer_fields(6) [OF timer(3)]
    by (simp add: ledger_ok_def)
next
  case (signal es t' gs)
  then show ?thesis
    using inv take_buffer_topics(2) [OF signal(4,5)] take_buffer_fields(6) [OF signal(4)]
    by (simp add: ledger_ok_def)
next
  case (stop es t' gs)
  then show ?thesis
    using inv take_buffer_topics(2) [OF stop(4,5)] take_buffer_fields(6) [OF stop(4)]
    by (simp add: ledger_ok_def)
qed (use inv in \<open>auto simp: ledger_ok_def ac_simps\<close>)

lemma subseq_drop_middle: "subseq (a @ b @ c) d \<Longrightarrow> subseq (a @ c) d"
proof -
  have "subseq c (b @ c)" by (rule list_emb_append2) (rule subseq_order.order_refl)
  then have "subseq (a @ c) (a @ b @ c)"
    by (rule list_emb_append_mono [OF subseq_order.order_refl])
  then show "subseq (a @ b @ c) d \<Longrightarrow> subseq (a @ c) d" by (rule subseq_order.trans)
qed

lemma fifo_step:
  assumes "step s s'" and inv: "fifo_ok s" and cnt: "counters_ok cfg s"
  shows "fifo_ok s'"
  using assms(1)
proof cases
  case (deliver rs topic t' out)
  from accept_effect [OF deliver(3) cnt] obtain ds where
    split: "bt_buffer (sy_t s) @ [\<lparr>be_topic = topic, be_records = rs\<rparr>] = ds @ bt_buffer t'" and
    eff: "accept topic rs t' out s =
       s\<lparr>sy_t := t', sy_pending := sy_pending s @ [out], sy_accepted := sy_accepted s @ tag topic rs,
         sy_dropped := sy_dropped s @ tag_entries ds\<rparr>"
    by blast
  have full: "of_topic u (tag_entries (bt_buffer (sy_t s))) @ of_topic u (tag topic rs)
      = of_topic u (tag_entries ds) @ of_topic u (tag_entries (bt_buffer t'))" for u
    using arg_cong [OF split, of "\<lambda>x. of_topic u (tag_entries x)"] by simp
  show ?thesis
    unfolding deliver(1) eff fifo_ok_def
  proof (rule allI)
    fix u
    let ?d = "of_topic u (sy_delivered s)" and ?i = "of_topic u (in_flight (sy_loop s))"
    have "subseq (?d @ ?i @ of_topic u (tag_entries (bt_buffer (sy_t s)))) (of_topic u (sy_accepted s))"
      using inv by (simp add: fifo_ok_def)
    then have "subseq ((?d @ ?i @ of_topic u (tag_entries (bt_buffer (sy_t s)))) @ of_topic u (tag topic rs))
        (of_topic u (sy_accepted s) @ of_topic u (tag topic rs))"
      by (rule list_emb_append_mono) simp
    then have "subseq ((?d @ ?i) @ of_topic u (tag_entries ds) @ of_topic u (tag_entries (bt_buffer t')))
        (of_topic u (sy_accepted s) @ of_topic u (tag topic rs))"
      by (simp only: append_assoc full)
    from subseq_drop_middle [OF this]
    show "subseq (of_topic u (sy_delivered (s\<lparr>sy_t := t', sy_pending := sy_pending s @ [out],
          sy_accepted := sy_accepted s @ tag topic rs, sy_dropped := sy_dropped s @ tag_entries ds\<rparr>) @
        in_flight (sy_loop (s\<lparr>sy_t := t', sy_pending := sy_pending s @ [out],
          sy_accepted := sy_accepted s @ tag topic rs, sy_dropped := sy_dropped s @ tag_entries ds\<rparr>)) @
        tag_entries (bt_buffer (sy_t (s\<lparr>sy_t := t', sy_pending := sy_pending s @ [out],
          sy_accepted := sy_accepted s @ tag topic rs, sy_dropped := sy_dropped s @ tag_entries ds\<rparr>)))))
      (of_topic u (sy_accepted (s\<lparr>sy_t := t', sy_pending := sy_pending s @ [out],
          sy_accepted := sy_accepted s @ tag topic rs, sy_dropped := sy_dropped s @ tag_entries ds\<rparr>)))"
      by (simp add: append_assoc)
  qed
next
  case (timer es t' gs)
  then show ?thesis
    using inv take_buffer_topics(1) [OF timer(3,4)] take_buffer_fields(6) [OF timer(3)]
    by (simp add: fifo_ok_def)
next
  case (signal es t' gs)
  then show ?thesis
    using inv take_buffer_topics(1) [OF signal(4,5)] take_buffer_fields(6) [OF signal(4)]
    by (simp add: fifo_ok_def)
next
  case (stop es t' gs)
  then show ?thesis
    using inv take_buffer_topics(1) [OF stop(4,5)] take_buffer_fields(6) [OF stop(4)]
    by (simp add: fifo_ok_def)
next
  case (given_up topic b bs final posts n)
  show ?thesis
    unfolding given_up(1) fifo_ok_def
  proof (rule allI)
    fix u
    have "subseq (of_topic u (sy_delivered s) @ of_topic u (tag topic b) @
        (of_topic u (tag_groups bs) @ of_topic u (tag_entries (bt_buffer (sy_t s))))) (of_topic u (sy_accepted s))"
      using inv given_up(2) by (simp add: fifo_ok_def append_assoc del: of_topic_simps(3))
    from subseq_drop_middle [OF this]
    show "subseq (of_topic u (sy_delivered (s\<lparr>sy_loop := Sending bs final, sy_lost := sy_lost s @ tag topic b\<rparr>) @
        in_flight (sy_loop (s\<lparr>sy_loop := Sending bs final, sy_lost := sy_lost s @ tag topic b\<rparr>)) @
        tag_entries (bt_buffer (sy_t (s\<lparr>sy_loop := Sending bs final, sy_lost := sy_lost s @ tag topic b\<rparr>)))))
      (of_topic u (sy_accepted (s\<lparr>sy_loop := Sending bs final, sy_lost := sy_lost s @ tag topic b\<rparr>)))"
      by simp
  qed
qed (use inv in \<open>auto simp: fifo_ok_def simp del: of_topic_simps(3)\<close>)

lemma shutdown_step:
  assumes "step s s'" and inv: "shutdown_ok s"
  shows "shutdown_ok s'"
  using assms(1)
proof cases
  case (deliver rs topic t' out)
  have "\<not> bt_closed (sy_t s)"
    using deliver(3) by (auto simp: deliver_locked_def split: if_splits)
  moreover have "bt_closed t' = bt_closed (sy_t s) \<and> bt_stop t' = bt_stop (sy_t s)"
    using deliver(3) by (auto simp: deliver_locked_def Let_def split: if_splits prod.splits)
  ultimately show ?thesis
    using inv by (auto simp: deliver(1) shutdown_ok_def accept_def Let_def)
next
  case (timer es t' gs)
  then show ?thesis
    using inv take_buffer_fields [OF timer(3)] by (simp add: shutdown_ok_def)
next
  case (signal es t' gs)
  then show ?thesis
    using inv take_buffer_fields [OF signal(4)] by (simp add: shutdown_ok_def)
next
  case (stop es t' gs)
  then show ?thesis
    using inv take_buffer_fields [OF stop(4)] by (simp add: shutdown_ok_def)
qed (use inv in \<open>auto simp: shutdown_ok_def\<close>)

lemmas step_preserves [inv_intros] = counters_step ledger_step fifo_step shutdown_step

lemma reachable_invariants:
  assumes "reachable addr cfg s" and "0 \<le> bc_max_buffered_records cfg"
  shows "counters_ok cfg s \<and> ledger_ok s \<and> fifo_ok s \<and> shutdown_ok s"
  using assms(1)
proof induction
  case start
  then show ?case
    using counters_initial [OF assms(2)] ledger_initial fifo_initial shutdown_initial by blast
next
  case (step s s')
  then show ?case by (blast intro: inv_intros)
qed

section \<open>The flush loop can always end\<close>

text \<open>Whatever the proxy answers to the batches, \<open>posts\<close>, the flush under way can be completed.\<close>

lemma sending_completes:
  "sy_loop s = Sending bs final \<Longrightarrow> \<exists>s'. step\<^sup>*\<^sup>* s s' \<and> sy_loop s' = Sending [] final \<and>
     sy_t s' = sy_t s \<and> sy_accepted s' = sy_accepted s"
proof (induction bs arbitrary: s)
  case Nil
  then show ?case by blast
next
  case (Cons b bs)
  obtain topic rs where b: "b = (topic, rs)" by (cases b)
  fix posts
  obtain ok n where send: "send_batch (bt_cfg (sy_t s)) posts = (ok, n)" by fastforce
  obtain s1 where s1: "step s s1" "sy_loop s1 = Sending bs final" "sy_t s1 = sy_t s" "sy_accepted s1 = sy_accepted s"
  proof (cases ok)
    case True
    then show ?thesis using that [OF step.sent [of s topic rs bs final posts n]] Cons.prems send b by simp
  next
    case False
    then show ?thesis using that [OF step.given_up [of s topic rs bs final posts n]] Cons.prems send b by simp
  qed
  from Cons.IH [OF s1(2)] obtain s' where "step\<^sup>*\<^sup>* s1 s'" "sy_loop s' = Sending [] final" "sy_t s' = sy_t s1"
    "sy_accepted s' = sy_accepted s1" by blast
  then show ?case using s1 by (metis converse_rtranclp_into_rtranclp)
qed

lemma idle_loop_finishes:
  assumes "sy_loop s = Idle" and "bt_stop (sy_t s)"
  shows "\<exists>s'. step\<^sup>*\<^sup>* s s' \<and> sy_loop s' = Finished \<and> sy_accepted s' = sy_accepted s"
proof -
  obtain es t' where take: "take_buffer (sy_t s) = (es, t')" by fastforce
  let ?s1 = "start_flush (group_by_topic es) True t' s"
  have one: "step s ?s1" using step.stop [OF assms take, of "group_by_topic es"] by simp
  obtain s2 where s2: "step\<^sup>*\<^sup>* ?s1 s2" "sy_loop s2 = Sending [] True" "sy_accepted s2 = sy_accepted ?s1"
    using sending_completes [of ?s1] by fastforce
  have "step s2 (s2\<lparr>sy_loop := Finished\<rparr>)" using step.finished [OF s2(2)] .
  then have "step\<^sup>*\<^sup>* s (s2\<lparr>sy_loop := Finished\<rparr>)" using one s2(1)
    by (meson converse_rtranclp_into_rtranclp rtranclp.rtrancl_into_rtrancl)
  then show ?thesis using s2(3) by (intro exI [of _ "s2\<lparr>sy_loop := Finished\<rparr>"]) simp
qed

lemma loop_finishes:
  assumes "bt_stop (sy_t s)"
  shows "\<exists>s'. step\<^sup>*\<^sup>* s s' \<and> sy_loop s' = Finished \<and> sy_accepted s' = sy_accepted s"
proof (cases "sy_loop s")
  case Idle
  then show ?thesis using idle_loop_finishes assms by blast
next
  case Finished
  then show ?thesis by blast
next
  case (Sending bs final)
  from sending_completes [OF this] obtain s1 where
    s1: "step\<^sup>*\<^sup>* s s1" "sy_loop s1 = Sending [] final" "sy_t s1 = sy_t s" "sy_accepted s1 = sy_accepted s"
    by blast
  show ?thesis
  proof (cases final)
    case True
    then have "step s1 (s1\<lparr>sy_loop := Finished\<rparr>)" using step.finished s1(2) by simp
    with s1 show ?thesis
      by (intro exI [of _ "s1\<lparr>sy_loop := Finished\<rparr>"]) (auto intro: rtranclp.rtrancl_into_rtrancl)
  next
    case False
    let ?s2 = "s1\<lparr>sy_loop := Idle\<rparr>"
    have "step s1 ?s2" using step.flushed s1(2) False by simp
    moreover obtain s3 where "step\<^sup>*\<^sup>* ?s2 s3" "sy_loop s3 = Finished" "sy_accepted s3 = sy_accepted ?s2"
      using idle_loop_finishes [of ?s2] assms s1(3) by auto
    ultimately show ?thesis using s1
      by (intro exI [of _ s3]) (auto intro: converse_rtranclp_into_rtranclp rtranclp_trans)
  qed
qed

section \<open>Properties\<close>

text \<open>A concrete configuration and a run of the transport, at which the properties are applied.\<close>

definition sample_config :: batch_config where
  "sample_config =
     \<lparr>bc_flush_frequency = 500, bc_flush_messages = 100, bc_max_batch_size = 500, bc_max_retries = 3,
      bc_retry_backoff = 100, bc_max_buffered_records = 3\<rparr>"

definition sample_filled :: system where
  "sample_filled =
     (case deliver_locked ''tp'' [sample_record, sample_record] (sy_t (initial ''h'' sample_config)) of
        Inr (t', out) \<Rightarrow> accept ''tp'' [sample_record, sample_record] t' out (initial ''h'' sample_config)
      | Inl e \<Rightarrow> initial ''h'' sample_config)"

definition sample_closed :: system where
  "sample_closed = sample_filled\<lparr>sy_t := close_stop (close_locked (sy_t sample_filled))\<rparr>"

lemma sample_filled_reachable: "reachable ''h'' sample_config sample_filled"
proof -
  obtain t' out where d: "deliver_locked ''tp'' [sample_record, sample_record] (sy_t (initial ''h'' sample_config)) = Inr (t', out)"
    by (simp add: deliver_locked_def initial_def new_buffered_transport_def Let_def split_def)
  then have "step (initial ''h'' sample_config) sample_filled"
    by (simp add: sample_filled_def step.deliver)
  then show ?thesis by (blast intro: reachable.intros)
qed

lemma sample_filled_buffer:
  "bt_buffer (sy_t sample_filled) = [\<lparr>be_topic = ''tp'', be_records = [sample_record, sample_record]\<rparr>]"
  "\<not> bt_closed (sy_t sample_filled)"
  by (simp_all add: sample_filled_def deliver_locked_def initial_def new_buffered_transport_def accept_def
      sample_config_def Let_def)

lemma sample_closed_reachable: "reachable ''h'' sample_config sample_closed" "bt_stop (sy_t sample_closed)"
proof -
  let ?s1 = "sample_filled\<lparr>sy_t := close_locked (sy_t sample_filled)\<rparr>"
  have "step sample_filled ?s1" using step.close_lock sample_filled_buffer(2) by blast
  moreover have "step ?s1 (?s1\<lparr>sy_t := close_stop (sy_t ?s1)\<rparr>)"
    by (rule step.close_signal)
      (simp_all add: sample_filled_def deliver_locked_def initial_def new_buffered_transport_def accept_def
        sample_config_def close_locked_def Let_def)
  ultimately show "reachable ''h'' sample_config sample_closed"
    using sample_filled_reachable by (auto simp: sample_closed_def intro: reachable.intros)
  show "bt_stop (sy_t sample_closed)" by (simp add: sample_closed_def)
qed

text \<open>C1 No record is lost without account: in every state that the concurrent callers of \<open>Deliver\<close>, the
  flush loop and \<open>Close\<close> can reach, the records accepted so far are, each exactly once, dropped by the
  cap and counted, still buffered, in the batches of the flush under way, acknowledged by the proxy, or
  given up after the last attempt.\<close>

theorem no_record_unaccounted:
  assumes "reachable addr cfg s" and "0 \<le> bc_max_buffered_records cfg"
  shows "mset (sy_accepted s) =
      mset (sy_dropped s) + mset (tag_entries (bt_buffer (sy_t s))) + mset (in_flight (sy_loop s)) +
      mset (sy_delivered s) + mset (sy_lost s)"
  using reachable_invariants [OF assms] by (simp add: ledger_ok_def)

theorem no_record_unaccounted_witness:
  "mset (sy_accepted sample_filled) =
      mset (sy_dropped sample_filled) + mset (tag_entries (bt_buffer (sy_t sample_filled))) +
      mset (in_flight (sy_loop sample_filled)) + mset (sy_delivered sample_filled) + mset (sy_lost sample_filled)"
  by (rule no_record_unaccounted [OF sample_filled_reachable]) (simp add: sample_config_def)



text \<open>C2 Per topic the transport is first-in first-out: what was acknowledged, then what is in flight, then
  what is buffered is, for every topic, a subsequence of the records in the order in which \<open>Deliver\<close>
  accepted them, whatever the order in which the map of topics is visited.\<close>

theorem delivery_in_order:
  assumes "reachable addr cfg s" and "0 \<le> bc_max_buffered_records cfg"
  shows "subseq
     (of_topic topic (sy_delivered s) @ of_topic topic (in_flight (sy_loop s)) @
      of_topic topic (tag_entries (bt_buffer (sy_t s))))
     (of_topic topic (sy_accepted s))"
  using reachable_invariants [OF assms] by (simp add: fifo_ok_def)

theorem delivery_in_order_witness:
  "subseq (of_topic ''tp'' (tag_entries (bt_buffer (sy_t sample_filled)))) (of_topic ''tp'' (sy_accepted sample_filled))"
proof -
  have "0 \<le> bc_max_buffered_records sample_config" by (simp add: sample_config_def)
  moreover have "sy_delivered sample_filled = []" "sy_loop sample_filled = Idle"
    by (simp_all add: sample_filled_def deliver_locked_def initial_def new_buffered_transport_def accept_def
        sample_config_def Let_def)
  ultimately show ?thesis using delivery_in_order [OF sample_filled_reachable, of "''tp''"] by simp
qed



text \<open>C11 When the flush loop has ended, the transport is closed and its buffer is empty: every accepted
  record was acknowledged, given up after all attempts, or dropped by the cap earlier, and every later
  \<open>Deliver\<close> is refused.\<close>

theorem finished_means_drained:
  assumes "reachable addr cfg s" and "0 \<le> bc_max_buffered_records cfg" and "sy_loop s = Finished"
  shows "bt_buffer (sy_t s) = [] \<and> bt_count (sy_t s) = 0 \<and>
    mset (sy_accepted s) = mset (sy_dropped s) + mset (sy_delivered s) + mset (sy_lost s) \<and>
    (rs \<noteq> [] \<longrightarrow> buffered_deliver topic rs (sy_t s) = (sy_t s, Some Transport_Closed))"
  using reachable_invariants [OF assms(1,2)] assms(3)
  by (auto simp: counters_ok_def ledger_ok_def shutdown_ok_def Let_def buffered_deliver_def deliver_locked_def)

theorem finished_means_drained_witness:
  "\<exists>s' :: system. sy_loop s' = Finished \<and> bt_buffer (sy_t s') = [] \<and>
     buffered_deliver ''tp'' [sample_record] (sy_t s') = (sy_t s', Some Transport_Closed)"
proof -
  obtain s' where s': "step\<^sup>*\<^sup>* sample_closed s'" "sy_loop s' = Finished"
    using loop_finishes [OF sample_closed_reachable(2)] by blast
  have "reachable ''h'' sample_config s'"
    using s'(1) sample_closed_reachable(1) by induction (auto intro: reachable.intros)
  from finished_means_drained [OF this _ s'(2), of "[sample_record]" "''tp''"] s'(2)
  show ?thesis by (auto simp: sample_config_def)
qed

end
