(* ===== verification/KafkaSender.thy ===== *)
theory KafkaSender
  imports Buffer_Loop
begin

text \<open>
  \<open>internal/sender/kafka.go\<close>: the interface \<open>KafkaTransport\<close> as the locale \<open>kafka_transport\<close>, its three
  implementations, and \<open>KafkaSender\<close>, which prepares records and hands them to whatever transport it
  holds.  The configuration of the sarama producer is \<open>sarama_settings\<close>; the producer itself is the
  queue of messages put on its input channel.
\<close>

section \<open>The sarama transport\<close>

datatype compression = Snappy | Gzip | Lz4 | Zstd
datatype acks = No_Response | Wait_For_Local | Wait_For_All
datatype sasl_mechanism = Sasl_Plain | Scram_Sha_256 | Scram_Sha_512

record sarama_config =
  sa_retry_max :: int
  sa_retry_backoff :: int
  sa_flush_frequency :: int
  sa_flush_messages :: int
  sa_flush_max_messages :: int
  sa_compression :: compression
  sa_required_acks :: acks
  sa_timeout :: "int option"
  sa_tls :: bool
  sa_sasl :: "(string \<times> string \<times> sasl_mechanism) option"
  sa_proxy :: "(string \<times> int) option"

datatype sarama_error = Tls_Failed | Socks_Failed | Producer_Failed

definition sarama_compression :: "string \<Rightarrow> compression" where
  "sarama_compression name =
     (let n = to_lower name in
      if n = ''snappy'' then Snappy else if n = ''gzip'' then Gzip
      else if n = ''lz4'' then Lz4 else if n = ''zstd'' then Zstd else Snappy)"

definition sarama_acks :: "int \<Rightarrow> acks" where
  "sarama_acks k =
     (if k = 0 then No_Response else if k = 1 then Wait_For_Local
      else if k = - 1 then Wait_For_All else Wait_For_Local)"

definition sarama_mechanism :: "string \<Rightarrow> sasl_mechanism" where
  "sarama_mechanism name =
     (let n = to_upper name in
      if n = ''PLAIN'' then Sasl_Plain else if n = ''SCRAM-SHA-256'' then Scram_Sha_256
      else if n = ''SCRAM-SHA-512'' then Scram_Sha_512 else Sasl_Plain)"

text \<open>
  \<open>createTLSConfig\<close>: which loads are attempted.  \<open>load_pair\<close>, \<open>read_ca\<close> and \<open>parse_ca\<close> stand for the
  file system and the certificate parser.
\<close>

definition create_tls_config ::
  "(string \<Rightarrow> string \<Rightarrow> bool) \<Rightarrow> (string \<Rightarrow> 'b option) \<Rightarrow> ('b \<Rightarrow> bool) \<Rightarrow> string \<Rightarrow> string \<Rightarrow> string \<Rightarrow> bool" where
  "create_tls_config load_pair read_ca parse_ca cert key ca =
     ((cert \<noteq> [] \<and> key \<noteq> [] \<longrightarrow> load_pair cert key) \<and>
      (ca \<noteq> [] \<longrightarrow> (case read_ca ca of None \<Rightarrow> False | Some pem \<Rightarrow> parse_ca pem)))"

text \<open>The settings of \<open>NewSaramaTransport\<close>; \<open>tls_ok\<close> and \<open>socks_ok\<close> are the results of the two fallible helpers.\<close>

definition sarama_settings ::
  "bool \<Rightarrow> (string \<Rightarrow> int \<Rightarrow> bool) \<Rightarrow> kafka_config \<Rightarrow> batch_config \<Rightarrow> socks_config \<Rightarrow> sarama_error + sarama_config" where
  "sarama_settings tls_ok socks_ok cfg batch socks =
     (if kc_enable_tls cfg \<and> \<not> tls_ok then Inl Tls_Failed
      else if sk_host socks \<noteq> [] \<and> sk_port socks > 0 \<and> \<not> socks_ok (sk_host socks) (sk_port socks) then Inl Socks_Failed
      else Inr
        \<lparr>sa_retry_max = bc_max_retries batch, sa_retry_backoff = bc_retry_backoff batch,
         sa_flush_frequency = bc_flush_frequency batch, sa_flush_messages = bc_flush_messages batch,
         sa_flush_max_messages = bc_max_batch_size batch,
         sa_compression = sarama_compression (kc_compression cfg),
         sa_required_acks = sarama_acks (kc_required_acks cfg),
         sa_timeout = (if kc_timeout cfg > 0 then Some (kc_timeout cfg) else None),
         sa_tls = kc_enable_tls cfg,
         sa_sasl = (if kc_sasl_enabled cfg
                    then Some (kc_sasl_user cfg, kc_sasl_password cfg, sarama_mechanism (kc_sasl_mechanism cfg))
                    else None),
         sa_proxy = (if sk_host socks \<noteq> [] \<and> sk_port socks > 0 then Some (sk_host socks, sk_port socks) else None)\<rparr>)"

record producer_message =
  pr_topic :: string
  pr_key :: string
  pr_value :: string
  pr_timestamp :: gotime

definition producer_message_of :: "string \<Rightarrow> kafka_record \<Rightarrow> producer_message" where
  "producer_message_of topic r =
     \<lparr>pr_topic = topic, pr_key = kr_key r, pr_value = json_print (kafka_value_json (kr_value r)),
      pr_timestamp = kr_timestamp r\<rparr>"

text \<open>
  \<open>SaramaTransport.Deliver\<close>: record by record onto the producer's input, until the context is done.
  The state is the sequence of tagged records put there; \<open>done k\<close> says that the context wins the
  \<open>select\<close> when \<open>k\<close> records of this call are queued.
\<close>

fun sarama_deliver_from ::
  "(nat \<Rightarrow> bool) \<Rightarrow> nat \<Rightarrow> string \<Rightarrow> kafka_record list \<Rightarrow> tagged list \<Rightarrow> tagged list \<times> send_error option" where
  "sarama_deliver_from ctx_done k topic [] q = (q, None)"
| "sarama_deliver_from ctx_done k topic (r # rs) q =
     (if ctx_done k then (q, Some Context_Done)
      else sarama_deliver_from ctx_done (Suc k) topic rs (q @ [(topic, r)]))"

definition sarama_deliver where
  "sarama_deliver ctx_done topic rs q = sarama_deliver_from ctx_done 0 topic rs q"

definition producer_queue :: "tagged list \<Rightarrow> producer_message list" where
  "producer_queue q = map (\<lambda>(t, r). producer_message_of t r) q"

section \<open>The contract of a transport\<close>

text \<open>
  \<open>accepted\<close> is what the transport has taken responsibility for.  A delivery that reports no error has
  taken all its records, in order and under the topic given; one that reports an error has taken a
  prefix of them.
\<close>

locale kafka_transport =
  fixes deliver :: "string \<Rightarrow> kafka_record list \<Rightarrow> 's \<Rightarrow> 's \<times> send_error option"
    and accepted :: "'s \<Rightarrow> tagged list"
    and ok :: "'s \<Rightarrow> bool"
  assumes deliver_all: "ok s \<Longrightarrow> deliver topic rs s = (s', None) \<Longrightarrow> accepted s' = accepted s @ tag topic rs"
    and deliver_error: "ok s \<Longrightarrow> deliver topic rs s = (s', Some e) \<Longrightarrow>
      \<exists>pre. prefix pre rs \<and> accepted s' = accepted s @ tag topic pre"
    and deliver_ok: "ok s \<Longrightarrow> deliver topic rs s = (s', res) \<Longrightarrow> ok s'"
begin

lemma deliver_grows:
  assumes "ok s"
  shows "prefix (accepted s) (accepted (fst (deliver topic rs s)))"
proof (cases "deliver topic rs s")
  case (Pair s' res)
  then show ?thesis
    using deliver_all [OF assms, of topic rs s'] deliver_error [OF assms, of topic rs s']
    by (cases res) auto
qed

end

text \<open>A whole call of \<open>Deliver\<close> on the buffered transport, as two of the steps of its system.\<close>

definition deliver_system :: "string \<Rightarrow> kafka_record list \<Rightarrow> system \<Rightarrow> system \<times> send_error option" where
  "deliver_system topic rs s =
     (if rs = [] then (s, None)
      else case deliver_locked topic rs (sy_t s) of
        Inl e \<Rightarrow> (s, Some e)
      | Inr (t', out) \<Rightarrow>
          (let s1 = accept topic rs t' out s in
           (s1\<lparr>sy_t := deliver_after out t', sy_pending := sy_pending s\<rparr>, None)))"

lemma deliver_system_transport:
  "map_prod sy_t id (deliver_system topic rs s) = buffered_deliver topic rs (sy_t s)"
  by (auto simp: deliver_system_def buffered_deliver_def Let_def split: sum.splits)

lemma deliver_system_steps:
  assumes "deliver_system topic rs s = (s', res)"
  shows "step\<^sup>*\<^sup>* s s'"
proof (cases "rs = [] \<or> isl (deliver_locked topic rs (sy_t s))")
  case True
  then have "s' = s" using assms by (auto simp: deliver_system_def split: sum.splits if_splits)
  then show ?thesis by simp
next
  case False
  then obtain t' out where d: "deliver_locked topic rs (sy_t s) = Inr (t', out)"
    by (cases "deliver_locked topic rs (sy_t s)") auto
  let ?s1 = "accept topic rs t' out s"
  have one: "step s ?s1" using False d by (intro step.deliver) auto
  have pend: "sy_pending ?s1 = sy_pending s @ out # []" by (simp add: accept_def Let_def)
  have "sy_t ?s1 = t'" by (simp add: accept_def Let_def)
  then have "s' = ?s1\<lparr>sy_t := deliver_after out (sy_t ?s1), sy_pending := sy_pending s @ []\<rparr>"
    using assms False d by (simp add: deliver_system_def Let_def)
  then have "step ?s1 s'" using step.unlock [OF pend] by simp
  with one show ?thesis by (meson converse_rtranclp_into_rtranclp r_into_rtranclp)
qed

lemma reachable_steps: "step\<^sup>*\<^sup>* s s' \<Longrightarrow> reachable addr cfg s \<Longrightarrow> reachable addr cfg s'"
  by (induction rule: rtranclp_induct) (auto intro: reachable.step)

text \<open>\<open>HTTPTransport\<close>: the state is what the proxy has acknowledged.\<close>

definition http_transport_deliver ::
  "(nat \<Rightarrow> http_outcome) \<Rightarrow> (nat \<Rightarrow> bool) \<Rightarrow> string \<Rightarrow> kafka_record list \<Rightarrow> tagged list \<Rightarrow>
     tagged list \<times> send_error option" where
  "http_transport_deliver posts cancelled topic rs q =
     (case http_deliver posts cancelled of
        (None, _) \<Rightarrow> (q @ tag topic rs, None)
      | (Some e, _) \<Rightarrow> (q, Some e))"

interpretation buffered: kafka_transport deliver_system sy_accepted "\<lambda>_. True"
proof
  show "sy_accepted s' = sy_accepted s @ tag topic rs" if "deliver_system topic rs s = (s', None)" for s s' topic rs
    using that by (auto simp: deliver_system_def accept_def Let_def split: sum.splits if_splits prod.splits)
  show "\<exists>pre. prefix pre rs \<and> sy_accepted s' = sy_accepted s @ tag topic pre"
    if "deliver_system topic rs s = (s', Some e)" for s s' topic rs e
    using that by (intro exI [of _ "[]"])
      (auto simp: deliver_system_def Let_def split: sum.splits if_splits prod.splits)
qed simp

interpretation http: kafka_transport "http_transport_deliver posts cancelled" "\<lambda>q. q" "\<lambda>_. True"
  for posts cancelled
proof
  show "s' = s @ tag topic rs" if "http_transport_deliver posts cancelled topic rs s = (s', None)" for s s' topic rs
    using that by (auto simp: http_transport_deliver_def split: prod.splits option.splits)
  show "\<exists>pre. prefix pre rs \<and> s' = s @ tag topic pre"
    if "http_transport_deliver posts cancelled topic rs s = (s', Some e)" for s s' topic rs e
    using that by (intro exI [of _ "[]"]) (auto simp: http_transport_deliver_def split: prod.splits option.splits)
qed simp

lemma sarama_deliver_from_outcome:
  "sarama_deliver_from ctx_done k topic rs q = (q', res) \<Longrightarrow>
     \<exists>pre. prefix pre rs \<and> q' = q @ tag topic pre \<and> (res = None \<longleftrightarrow> pre = rs) \<and> (res = None \<or> res = Some Context_Done)"
proof (induction ctx_done k topic rs q rule: sarama_deliver_from.induct)
  case (1 ctx_done k topic q)
  then show ?case by auto
next
  case (2 ctx_done k topic r rs q)
  show ?case
  proof (cases "ctx_done k")
    case True
    then show ?thesis using "2.prems" by (intro exI [of _ "[]"]) auto
  next
    case False
    then obtain pre where "prefix pre rs" "q' = (q @ [(topic, r)]) @ tag topic pre" "res = None \<longleftrightarrow> pre = rs"
        "res = None \<or> res = Some Context_Done"
      using "2.IH" [OF False] "2.prems" by auto
    then show ?thesis by (intro exI [of _ "r # pre"]) (auto simp: tag_def)
  qed
qed

interpretation sarama: kafka_transport "sarama_deliver ctx_done" "\<lambda>q. q" "\<lambda>_. True"
  for ctx_done
proof
  show "s' = s @ tag topic rs" if "sarama_deliver ctx_done topic rs s = (s', None)" for s s' topic rs
    using sarama_deliver_from_outcome [OF that [unfolded sarama_deliver_def]] by auto
  show "\<exists>pre. prefix pre rs \<and> s' = s @ tag topic pre"
    if "sarama_deliver ctx_done topic rs s = (s', Some e)" for s s' topic rs e
    using sarama_deliver_from_outcome [OF that [unfolded sarama_deliver_def]] by auto
qed simp

section \<open>The sender\<close>

datatype sender_error =
    Sender_Closed
  | Prepare_Failed prepare_error
  | Delivery_Failed send_error
  | Write_Failed
  | Close_Failed

record 's kafka_sender =
  ks_transport :: 's
  ks_topic :: string
  ks_eqp_info :: "eqp_info_config option"
  ks_formatter :: formatter
  ks_closed :: bool

definition new_kafka_sender :: "'s \<Rightarrow> string \<Rightarrow> eqp_info_config option \<Rightarrow> formatter \<Rightarrow> 's kafka_sender" where
  "new_kafka_sender transport topic eqp fmt =
     \<lparr>ks_transport = transport, ks_topic = topic, ks_eqp_info = eqp, ks_formatter = fmt, ks_closed = False\<rparr>"

text \<open>\<open>Send\<close>; \<open>diff\<close> is the value of \<open>timeDiffFunc\<close> at the call.\<close>

definition kafka_send ::
  "(string \<Rightarrow> kafka_record list \<Rightarrow> 's \<Rightarrow> 's \<times> send_error option) \<Rightarrow> json_decoders \<Rightarrow> int \<Rightarrow> metric_data \<Rightarrow>
     's kafka_sender \<Rightarrow> 's kafka_sender \<times> sender_error option" where
  "kafka_send deliver jd diff data s =
     (if ks_closed s then (s, Some Sender_Closed)
      else case prepare_records jd (ks_formatter s) data (ks_eqp_info s) diff of
        Inl (No_Rows t) \<Rightarrow> (s, None)
      | Inl e \<Rightarrow> (s, Some (Prepare_Failed e))
      | Inr records \<Rightarrow>
          (let (tr, res) = deliver (ks_topic s) records (ks_transport s) in
           (s\<lparr>ks_transport := tr\<rparr>, map_option Delivery_Failed res)))"

text \<open>The loop of \<open>SendBatch\<close>; \<open>diff k\<close> is the value of \<open>timeDiffFunc\<close> at item \<open>k\<close>.\<close>

fun gather_records ::
  "json_decoders \<Rightarrow> formatter \<Rightarrow> eqp_info_config option \<Rightarrow> (nat \<Rightarrow> int) \<Rightarrow> nat \<Rightarrow> kafka_record list \<Rightarrow>
     metric_data list \<Rightarrow> prepare_error + kafka_record list" where
  "gather_records jd fmt eqp diff k acc [] = Inr acc"
| "gather_records jd fmt eqp diff k acc (d # ds) =
     (case prepare_records jd fmt d eqp (diff k) of
        Inl (No_Rows t) \<Rightarrow> gather_records jd fmt eqp diff (Suc k) acc ds
      | Inl e \<Rightarrow> Inl e
      | Inr records \<Rightarrow> gather_records jd fmt eqp diff (Suc k) (acc @ records) ds)"

definition kafka_send_batch ::
  "(string \<Rightarrow> kafka_record list \<Rightarrow> 's \<Rightarrow> 's \<times> send_error option) \<Rightarrow> json_decoders \<Rightarrow> (nat \<Rightarrow> int) \<Rightarrow> metric_data list \<Rightarrow>
     's kafka_sender \<Rightarrow> 's kafka_sender \<times> sender_error option" where
  "kafka_send_batch deliver jd diff data s =
     (if ks_closed s then (s, Some Sender_Closed)
      else case gather_records jd (ks_formatter s) (ks_eqp_info s) diff 0 [] data of
        Inl e \<Rightarrow> (s, Some (Prepare_Failed e))
      | Inr [] \<Rightarrow> (s, None)
      | Inr (r # rs) \<Rightarrow>
          (let (tr, res) = deliver (ks_topic s) (r # rs) (ks_transport s) in
           (s\<lparr>ks_transport := tr\<rparr>, map_option Delivery_Failed res)))"

definition swap_transport :: "'s \<Rightarrow> 's kafka_sender \<Rightarrow> 's kafka_sender \<times> (sender_error + 's)" where
  "swap_transport new s =
     (if ks_closed s then (s, Inl Sender_Closed)
      else (s\<lparr>ks_transport := new\<rparr>, Inr (ks_transport s)))"

text \<open>\<open>BufferStats\<close>: the type assertion finds the statistics of the buffered transport or gives zeros.\<close>

definition sender_buffer_stats :: "('s \<Rightarrow> (int \<times> int \<times> int) option) \<Rightarrow> 's kafka_sender \<Rightarrow> int \<times> int \<times> int" where
  "sender_buffer_stats stats_of s = (case stats_of (ks_transport s) of Some x \<Rightarrow> x | None \<Rightarrow> (0, 0, 0))"

definition kafka_sender_close ::
  "('s \<Rightarrow> 's \<times> sender_error option) \<Rightarrow> 's kafka_sender \<Rightarrow> 's kafka_sender \<times> sender_error option" where
  "kafka_sender_close close_transport s =
     (if ks_closed s then (s, None)
      else let (tr, res) = close_transport (ks_transport s) in
        (s\<lparr>ks_closed := True, ks_transport := tr\<rparr>, res))"

section \<open>What a sender delivers\<close>

text \<open>The records a batch stands for: those of its items, in order, items without rows left out.\<close>

definition records_of :: "json_decoders \<Rightarrow> formatter \<Rightarrow> eqp_info_config \<Rightarrow> int \<Rightarrow> metric_data \<Rightarrow> kafka_record list" where
  "records_of jd fmt eqp diff d =
     (case prepare_records jd fmt d (Some eqp) diff of Inl _ \<Rightarrow> [] | Inr rs \<Rightarrow> rs)"

definition batch_records ::
  "json_decoders \<Rightarrow> formatter \<Rightarrow> eqp_info_config \<Rightarrow> (nat \<Rightarrow> int) \<Rightarrow> nat \<Rightarrow> metric_data list \<Rightarrow> kafka_record list" where
  "batch_records jd fmt eqp diff k ds =
     concat (map (\<lambda>(i, d). records_of jd fmt eqp (diff i) d) (enumerate k ds))"

text \<open>A formatter that fails on nothing, which the contract of formatters gives.\<close>

definition never_fails :: "formatter \<Rightarrow> bool" where
  "never_fails fmt = (\<forall>row process. is_ok (fmt row process))"

context raw_formatter
begin

lemma never_fails_format: "never_fails format_raw"
  using total by (metis never_fails_def sum.disc(2))

end

lemma prepare_rows_ok:
  "never_fails fmt \<Longrightarrow> is_ok (prepare_rows data eqp td fmt i acc rows)"
  by (induction rows arbitrary: i acc) (auto simp: never_fails_def split: sum.splits, metis sum.disc(1))

lemma prepare_records_cases:
  assumes "never_fails fmt"
  shows "prepare_records jd fmt d (Some eqp) td =
     (if convert_to_ears_rows jd d = [] then Inl (No_Rows (md_type d)) else Inr (records_of jd fmt eqp td d))"
proof (cases "prepare_rows d eqp td fmt 0 [] (convert_to_ears_rows jd d)")
  case (Inl e)
  then show ?thesis using prepare_rows_ok [OF assms, of d eqp td 0 "[]" "convert_to_ears_rows jd d"] by simp
qed (simp add: prepare_records_def records_of_def Let_def)

lemma records_of_empty: "convert_to_ears_rows jd d = [] \<Longrightarrow> records_of jd fmt eqp td d = []"
  by (simp add: records_of_def prepare_records_def)

lemma prepare_rows_length:
  "prepare_rows data eqp td fmt i acc rows = Inr rs \<Longrightarrow> length rs = length acc + length rows"
  by (induction rows arbitrary: i acc) (auto split: sum.splits)

lemma records_of_nonempty:
  assumes "never_fails fmt" and "convert_to_ears_rows jd d \<noteq> []"
  shows "records_of jd fmt eqp td d \<noteq> []"
proof -
  have "prepare_records jd fmt d (Some eqp) td = Inr (records_of jd fmt eqp td d)"
    using prepare_records_cases [OF assms(1)] assms(2) by simp
  then have "prepare_rows d eqp td fmt 0 [] (convert_to_ears_rows jd d) = Inr (records_of jd fmt eqp td d)"
    using assms(2) by (simp add: prepare_records_def Let_def)
  from prepare_rows_length [OF this] assms(2) show ?thesis by auto
qed

lemma gather_records_eq:
  assumes "never_fails fmt"
  shows "gather_records jd fmt (Some eqp) diff k acc ds = Inr (acc @ batch_records jd fmt eqp diff k ds)"
proof (induction ds arbitrary: k acc)
  case Nil
  then show ?case by (simp add: batch_records_def)
next
  case (Cons d ds)
  then show ?case
    by (simp add: prepare_records_cases [OF assms] batch_records_def records_of_empty)
qed

text \<open>
  A client of both contracts, a transport and a formatter that does not fail: sending hands over the
  records of the metric, and a batch those of its items in order, in one delivery.
\<close>

locale metric_pipeline = kafka_transport deliver accepted ok + raw_formatter fmt good reading view
  for deliver :: "string \<Rightarrow> kafka_record list \<Rightarrow> 's \<Rightarrow> 's \<times> send_error option"
    and accepted :: "'s \<Rightarrow> tagged list" and ok :: "'s \<Rightarrow> bool"
    and fmt :: formatter and good :: "ears_row \<Rightarrow> string \<Rightarrow> bool"
    and reading :: "string \<Rightarrow> 'a option" and view :: "ears_row \<Rightarrow> string \<Rightarrow> 'a"
begin

lemma send_success:
  assumes "kafka_send deliver jd diff d s = (s', None)" and "ok (ks_transport s)"
    and "ks_formatter s = fmt" and "ks_eqp_info s = Some eqp"
  shows "accepted (ks_transport s') = accepted (ks_transport s) @ tag (ks_topic s) (records_of jd fmt eqp diff d)"
    and "ok (ks_transport s')"
  using assms prepare_records_cases [OF never_fails_format, of jd d eqp diff]
    deliver_all [OF assms(2), of "ks_topic s" "records_of jd fmt eqp diff d"] deliver_ok [OF assms(2)]
  by (auto simp: kafka_send_def records_of_empty split: if_splits prod.splits)

lemma send_batch_success:
  assumes "kafka_send_batch deliver jd diff ds s = (s', None)" and "ok (ks_transport s)"
    and "ks_formatter s = fmt" and "ks_eqp_info s = Some eqp"
  shows "accepted (ks_transport s') = accepted (ks_transport s) @ tag (ks_topic s) (batch_records jd fmt eqp diff 0 ds)"
    and "ok (ks_transport s')"
proof -
  have g: "gather_records jd (ks_formatter s) (ks_eqp_info s) diff 0 [] ds = Inr (batch_records jd fmt eqp diff 0 ds)"
    using gather_records_eq [OF never_fails_format, of jd eqp diff 0 "[]" ds] assms by simp
  show "accepted (ks_transport s') = accepted (ks_transport s) @ tag (ks_topic s) (batch_records jd fmt eqp diff 0 ds)"
    using assms(1) deliver_all [OF assms(2), of "ks_topic s" "batch_records jd fmt eqp diff 0 ds"]
    by (auto simp: kafka_send_batch_def g split: if_splits prod.splits list.splits)
  show "ok (ks_transport s')"
    using assms(1,2) deliver_ok [OF assms(2)]
    by (auto simp: kafka_send_batch_def g split: if_splits prod.splits list.splits)
qed

text \<open>No call of a sender, failed or not, takes anything back.\<close>

lemma send_grows:
  assumes "ok (ks_transport s)"
  shows "prefix (accepted (ks_transport s)) (accepted (ks_transport (fst (kafka_send deliver jd diff d s))))"
  using deliver_grows [OF assms]
  by (auto simp: kafka_send_def split: sum.splits prod.splits prepare_error.splits)
    (metis fst_conv)+

end

interpretation kafkarest: metric_pipeline deliver_system sy_accepted "\<lambda>_. True" grok_format_raw grok_good read_grok grok_view
  ..

interpretation kafka_direct: metric_pipeline "sarama_deliver ctx_done" "\<lambda>q. q" "\<lambda>_. True"
    json_format_raw json_good json_parse json_view
  for ctx_done ..

section \<open>Properties\<close>

text \<open>Sending through the proxy: when \<open>SendBatch\<close> of the Kafka sender over the buffered transport reports
  success, the transport has accepted, in one delivery and under the sender's topic, the records of all
  items of the batch in order (items without rows contribute none) and nothing else.\<close>

theorem kafka_rest_batch_accepted:
  assumes "kafka_send_batch deliver_system jd diff ds s = (s', None)"
    and "ks_formatter s = grok_format_raw" and "ks_eqp_info s = Some eqp"
  shows "sy_accepted (ks_transport s') = sy_accepted (ks_transport s) @
      tag (ks_topic s) (concat (map (\<lambda>(i, d). records_of jd grok_format_raw eqp (diff i) d) (enumerate 0 ds))) \<and>
    step\<^sup>*\<^sup>* (ks_transport s) (ks_transport s')"
proof
  show "sy_accepted (ks_transport s') = sy_accepted (ks_transport s) @
      tag (ks_topic s) (concat (map (\<lambda>(i, d). records_of jd grok_format_raw eqp (diff i) d) (enumerate 0 ds)))"
    using kafkarest.send_batch_success(1) [OF assms(1) _ assms(2,3)] by (simp add: batch_records_def)
  show "step\<^sup>*\<^sup>* (ks_transport s) (ks_transport s')"
    using assms(1) deliver_system_steps
    by (auto simp: kafka_send_batch_def split: if_splits sum.splits list.splits prod.splits)
qed

lemma fresh_batch_succeeds:
  "\<exists>s'. kafka_send_batch deliver_system jd diff ds
     (new_kafka_sender (initial addr cfg) topic (Some eqp) grok_format_raw) = (s', None)"
  using gather_records_eq [OF grok.never_fails_format, of jd eqp diff 0 "[]" ds]
  by (auto simp: kafka_send_batch_def new_kafka_sender_def deliver_system_def deliver_locked_def initial_def
      new_buffered_transport_def Let_def split: list.splits sum.splits prod.splits)

theorem kafka_rest_batch_accepted_witness:
  "\<exists>s'. kafka_send_batch deliver_system no_decoders (\<lambda>i. 0) [sample_metric, sample_metric]
      (new_kafka_sender (initial ''h'' sample_config) ''tp'' (Some sample_eqp) grok_format_raw) = (s', None) \<and>
     sy_accepted (ks_transport s') = tag ''tp'' (records_of no_decoders grok_format_raw sample_eqp 0 sample_metric @
       records_of no_decoders grok_format_raw sample_eqp 0 sample_metric)"
proof -
  obtain s' where "kafka_send_batch deliver_system no_decoders (\<lambda>i. 0) [sample_metric, sample_metric]
      (new_kafka_sender (initial ''h'' sample_config) ''tp'' (Some sample_eqp) grok_format_raw) = (s', None)"
    using fresh_batch_succeeds by blast
  from kafka_rest_batch_accepted [OF this] this show ?thesis
    by (auto simp: new_kafka_sender_def initial_def)
qed

text \<open>C29 Sending straight to Kafka: when \<open>SendBatch\<close> over sarama reports success the producer's channel holds
  the records of all items in order; when the context ends first, it reports that and has queued only
  a prefix of them.\<close>

theorem sarama_batch_queued:
  assumes "kafka_send_batch (sarama_deliver ctx_done) jd diff ds s = (s', result)"
    and "ks_formatter s = json_format_raw" and "ks_eqp_info s = Some eqp" and "\<not> ks_closed s"
  shows "\<exists>pre. prefix pre (concat (map (\<lambda>(i, d). records_of jd json_format_raw eqp (diff i) d) (enumerate 0 ds))) \<and>
    ks_transport s' = ks_transport s @ tag (ks_topic s) pre \<and>
    (result = None \<longleftrightarrow>
       pre = concat (map (\<lambda>(i, d). records_of jd json_format_raw eqp (diff i) d) (enumerate 0 ds))) \<and>
    (result = None \<or> result = Some (Delivery_Failed Context_Done))"
proof -
  let ?rs = "batch_records jd json_format_raw eqp diff 0 ds"
  have g: "gather_records jd (ks_formatter s) (ks_eqp_info s) diff 0 [] ds = Inr ?rs"
    using gather_records_eq [OF mapper.never_fails_format, of jd eqp diff 0 "[]" ds] assms(2,3) by simp
  have "\<exists>pre. prefix pre ?rs \<and> ks_transport s' = ks_transport s @ tag (ks_topic s) pre \<and>
      (result = None \<longleftrightarrow> pre = ?rs) \<and> (result = None \<or> result = Some (Delivery_Failed Context_Done))"
  proof (cases "?rs")
    case Nil
    then show ?thesis using assms(1,4) by (auto simp: kafka_send_batch_def g)
  next
    case (Cons r rs)
    obtain q res where d: "sarama_deliver ctx_done (ks_topic s) ?rs (ks_transport s) = (q, res)" by fastforce
    then have s': "s' = s\<lparr>ks_transport := q\<rparr>" "result = map_option Delivery_Failed res"
      using assms(1,4) Cons by (auto simp: kafka_send_batch_def g)
    from sarama_deliver_from_outcome [OF d [unfolded sarama_deliver_def]] s' show ?thesis by auto
  qed
  then show ?thesis by (simp add: batch_records_def)
qed

theorem sarama_batch_queued_witness:
  "\<exists>pre. prefix pre (records_of no_decoders json_format_raw sample_eqp 0 sample_metric) \<and>
     ks_transport (fst (kafka_send_batch (sarama_deliver (\<lambda>k. k = 1)) no_decoders (\<lambda>i. 0) [sample_metric]
        (new_kafka_sender [] ''tp'' (Some sample_eqp) json_format_raw))) = tag ''tp'' pre"
proof -
  obtain s' r where eq: "kafka_send_batch (sarama_deliver (\<lambda>k. k = 1)) no_decoders (\<lambda>i. 0) [sample_metric]
        (new_kafka_sender [] ''tp'' (Some sample_eqp) json_format_raw) = (s', r)" by fastforce
  obtain pre where "prefix pre (records_of no_decoders json_format_raw sample_eqp 0 sample_metric)" "ks_transport s' = tag ''tp'' pre"
    using sarama_batch_queued [OF eq] by (auto simp: new_kafka_sender_def)
  then show ?thesis unfolding eq fst_conv by blast
qed

end
