(* ===== verification/FileSender.thy ===== *)
theory FileSender
  imports KafkaSender
begin

text \<open>
  \<open>internal/sender/file.go\<close>.  The rotating writer is third-party code: its state has the type \<open>'w\<close> and
  \<open>write\<close> is its \<open>Write\<close>, which says whether it succeeded.  The console goroutine is the queue
  \<open>fs_console_queue\<close> of its channel (capacity 1000) and the lines \<open>fs_printed\<close>.
\<close>

section \<open>State\<close>

record 'w file_sender =
  fs_file_path :: string
  fs_writer :: 'w
  fs_pretty_print :: bool
  fs_console :: bool
  fs_console_queue :: "string list"
  fs_printed :: "string list"
  fs_format :: string
  fs_closed :: bool

datatype file_error = Unsupported_Format string | Mkdir_Failed

definition console_capacity :: nat where
  "console_capacity = 1000"

definition file_format :: "string \<Rightarrow> string" where
  "file_format f = (if f = [] \<or> f = ''legacy'' then ''grok'' else f)"

text \<open>
  \<open>mkdir_ok\<close> says whether the directory of a path is there afterwards; for a path without one, where the code
  has nothing to create, it is true.
\<close>

definition new_file_sender :: "(string \<Rightarrow> bool) \<Rightarrow> (file_config \<Rightarrow> 'w) \<Rightarrow> file_config \<Rightarrow> file_error + 'w file_sender" where
  "new_file_sender mkdir_ok open_writer cfg =
     (let fmt = file_format (fc_format cfg) in
      if fmt \<noteq> ''json'' \<and> fmt \<noteq> ''grok'' then Inl (Unsupported_Format fmt)
      else if \<not> mkdir_ok (fc_file_path cfg) then Inl Mkdir_Failed
      else Inr \<lparr>fs_file_path = fc_file_path cfg, fs_writer = open_writer cfg, fs_pretty_print = fc_pretty cfg,
                fs_console = fc_console cfg, fs_console_queue = [], fs_printed = [], fs_format = fmt,
                fs_closed = False\<rparr>)"

section \<open>Writing\<close>

text \<open>A line for the console is dropped when the channel is full.\<close>

definition offer_console :: "string \<Rightarrow> 'w file_sender \<Rightarrow> 'w file_sender" where
  "offer_console line s =
     (if fs_console s \<and> length (fs_console_queue s) < console_capacity
      then s\<lparr>fs_console_queue := fs_console_queue s @ [line]\<rparr> else s)"

definition json_line :: "bool \<Rightarrow> ears_row \<Rightarrow> string" where
  "json_line pretty row =
     (let v = parsed_data_list_json (to_parsed_data row []) in if pretty then json_indent 0 v else json_print v)"

fun write_lines ::
  "(string \<Rightarrow> 'w \<Rightarrow> 'w \<times> bool) \<Rightarrow> string list \<Rightarrow> 'w file_sender \<Rightarrow> 'w file_sender \<times> sender_error option" where
  "write_lines write [] s = (s, None)"
| "write_lines write (line # lines) s =
     (let (w, ok) = write (line @ [CHR 0x0A]) (fs_writer s) in
      if \<not> ok then (s\<lparr>fs_writer := w\<rparr>, Some Write_Failed)
      else write_lines write lines (offer_console line (s\<lparr>fs_writer := w\<rparr>)))"

definition send_json where
  "send_json write jd data s =
     write_lines write (map (json_line (fs_pretty_print s)) (convert_to_ears_rows jd data)) s"

definition send_grok where
  "send_grok write jd data s = write_lines write (map to_grok_string (convert_to_ears_rows jd data)) s"

definition file_send ::
  "(string \<Rightarrow> 'w \<Rightarrow> 'w \<times> bool) \<Rightarrow> json_decoders \<Rightarrow> metric_data \<Rightarrow> 'w file_sender \<Rightarrow> 'w file_sender \<times> sender_error option" where
  "file_send write jd data s =
     (if fs_closed s then (s, Some Sender_Closed)
      else if fs_format s = ''grok'' then send_grok write jd data s
      else send_json write jd data s)"

fun file_send_batch ::
  "(string \<Rightarrow> 'w \<Rightarrow> 'w \<times> bool) \<Rightarrow> json_decoders \<Rightarrow> metric_data list \<Rightarrow> 'w file_sender \<Rightarrow> 'w file_sender \<times> sender_error option" where
  "file_send_batch write jd [] s = (s, None)"
| "file_send_batch write jd (d # ds) s =
     (case file_send write jd d s of
        (s', Some e) \<Rightarrow> (s', Some e)
      | (s', None) \<Rightarrow> file_send_batch write jd ds s')"

definition set_console :: "bool \<Rightarrow> 'w file_sender \<Rightarrow> 'w file_sender" where
  "set_console enabled s = s\<lparr>fs_console := enabled\<rparr>"

text \<open>One round of the console goroutine; \<open>Close\<close> waits until it has printed everything.\<close>

definition drain_one :: "'w file_sender \<Rightarrow> 'w file_sender" where
  "drain_one s =
     (case fs_console_queue s of
        [] \<Rightarrow> s
      | l # ls \<Rightarrow> s\<lparr>fs_console_queue := ls, fs_printed := fs_printed s @ [l]\<rparr>)"

definition drain_all :: "'w file_sender \<Rightarrow> 'w file_sender" where
  "drain_all s = (drain_one ^^ length (fs_console_queue s)) s"

definition file_close :: "('w \<Rightarrow> 'w \<times> bool) \<Rightarrow> 'w file_sender \<Rightarrow> 'w file_sender \<times> sender_error option" where
  "file_close close_writer s =
     (if fs_closed s then (s, None)
      else let s1 = drain_all (s\<lparr>fs_closed := True\<rparr>); (w, ok) = close_writer (fs_writer s1) in
        (s1\<lparr>fs_writer := w\<rparr>, if ok then None else Some Close_Failed))"

section \<open>Facts\<close>

lemma drain_one_fields [simp]:
  "fs_closed (drain_one s) = fs_closed s" "fs_writer (drain_one s) = fs_writer s"
  "fs_printed (drain_one s) @ fs_console_queue (drain_one s) = fs_printed s @ fs_console_queue s"
  "length (fs_console_queue (drain_one s)) = length (fs_console_queue s) - 1"
  by (simp_all add: drain_one_def split: list.splits)

lemma drain_power:
  "fs_closed ((drain_one ^^ n) s) = fs_closed s \<and> fs_writer ((drain_one ^^ n) s) = fs_writer s \<and>
   fs_printed ((drain_one ^^ n) s) @ fs_console_queue ((drain_one ^^ n) s) = fs_printed s @ fs_console_queue s \<and>
   length (fs_console_queue ((drain_one ^^ n) s)) = length (fs_console_queue s) - n"
  by (induction n) simp_all

lemma drain_all_spec:
  "fs_console_queue (drain_all s) = []" "fs_printed (drain_all s) = fs_printed s @ fs_console_queue s"
  "fs_closed (drain_all s) = fs_closed s" "fs_writer (drain_all s) = fs_writer s"
proof -
  note p = drain_power [of "length (fs_console_queue s)" s]
  then show e: "fs_console_queue (drain_all s) = []"
    by (simp add: drain_all_def)
  show "fs_printed (drain_all s) = fs_printed s @ fs_console_queue s"
    using p e unfolding drain_all_def by (metis append_Nil2)
  show "fs_closed (drain_all s) = fs_closed s" "fs_writer (drain_all s) = fs_writer s"
    using p by (simp_all add: drain_all_def)
qed

text \<open>
  \<open>contents\<close> reads the lines of the file from the state of the writer.  A writer that appends what
  it reports as written gives: a successful send appends exactly the lines of the rows, a failed
  one a proper prefix of them.
\<close>

definition appending :: "(string \<Rightarrow> 'w \<Rightarrow> 'w \<times> bool) \<Rightarrow> ('w \<Rightarrow> string) \<Rightarrow> bool" where
  "appending write contents =
     (\<forall>s w. contents (fst (write s w)) = contents w @ (if snd (write s w) then s else []))"

definition text_of :: "string list \<Rightarrow> string" where
  "text_of lines = concat (map (\<lambda>l. l @ [CHR 0x0A]) lines)"

lemma offer_console_fields [simp]:
  "fs_writer (offer_console l s) = fs_writer s" "fs_closed (offer_console l s) = fs_closed s"
  "fs_printed (offer_console l s) = fs_printed s" "fs_format (offer_console l s) = fs_format s"
  "fs_pretty_print (offer_console l s) = fs_pretty_print s" "fs_console (offer_console l s) = fs_console s"
  by (simp_all add: offer_console_def)

lemma offer_console_bound:
  "length (fs_console_queue s) \<le> console_capacity \<Longrightarrow> length (fs_console_queue (offer_console l s)) \<le> console_capacity"
  by (simp add: offer_console_def)

lemma write_lines_spec:
  assumes "appending write contents" and "write_lines write lines s = (s', res)"
  shows "\<exists>n \<le> length lines. contents (fs_writer s') = contents (fs_writer s) @ text_of (take n lines)
      \<and> (res = None \<longleftrightarrow> n = length lines) \<and> (res = None \<or> res = Some Write_Failed)
      \<and> fs_closed s' = fs_closed s \<and> fs_format s' = fs_format s
      \<and> fs_printed s' = fs_printed s \<and> fs_pretty_print s' = fs_pretty_print s
      \<and> (length (fs_console_queue s) \<le> console_capacity \<longrightarrow> length (fs_console_queue s') \<le> console_capacity)"
  using assms(2)
proof (induction lines arbitrary: s)
  case Nil
  then show ?case by (auto simp: text_of_def)
next
  case (Cons l ls)
  obtain w ok where w: "write (l @ [CHR 0x0A]) (fs_writer s) = (w, ok)" by force
  have c: "contents w = contents (fs_writer s) @ (if ok then l @ [CHR 0x0A] else [])"
    using assms(1) w by (metis appending_def fst_conv snd_conv)
  show ?case
  proof (cases ok)
    case False
    then show ?thesis
      using Cons.prems w c by (intro exI [of _ 0]) (auto simp: text_of_def)
  next
    case True
    let ?s1 = "offer_console l (s\<lparr>fs_writer := w\<rparr>)"
    have "write_lines write ls ?s1 = (s', res)" using Cons.prems w True by simp
    from Cons.IH [OF this] obtain n where n: "n \<le> length ls"
      "contents (fs_writer s') = contents (fs_writer ?s1) @ text_of (take n ls)"
      "res = None \<longleftrightarrow> n = length ls" "res = None \<or> res = Some Write_Failed"
      "fs_closed s' = fs_closed ?s1" "fs_format s' = fs_format ?s1" "fs_printed s' = fs_printed ?s1"
      "fs_pretty_print s' = fs_pretty_print ?s1"
      "length (fs_console_queue ?s1) \<le> console_capacity \<longrightarrow> length (fs_console_queue s') \<le> console_capacity"
      by blast
    then show ?thesis
      using c True offer_console_bound [of "s\<lparr>fs_writer := w\<rparr>" l]
      by (intro exI [of _ "Suc n"]) (auto simp: text_of_def)
  qed
qed

text \<open>The text a metric is written as.\<close>

definition file_lines :: "json_decoders \<Rightarrow> metric_data \<Rightarrow> 'w file_sender \<Rightarrow> string list" where
  "file_lines jd data s =
     map (if fs_format s = ''grok'' then to_grok_string else json_line (fs_pretty_print s)) (convert_to_ears_rows jd data)"

lemma file_send_eq:
  "file_send write jd data s =
     (if fs_closed s then (s, Some Sender_Closed) else write_lines write (file_lines jd data s) s)"
  by (simp add: file_send_def file_lines_def send_grok_def send_json_def)

lemma file_send_fields:
  assumes "appending write contents"
  shows "fs_closed (fst (file_send write jd d s)) = fs_closed s"
    and "fs_format (fst (file_send write jd d s)) = fs_format s"
    and "fs_pretty_print (fst (file_send write jd d s)) = fs_pretty_print s"
    and "prefix (contents (fs_writer s)) (contents (fs_writer (fst (file_send write jd d s))))"
  using write_lines_spec [OF assms, of "file_lines jd d s" s] 
  by (cases "write_lines write (file_lines jd d s) s"; auto simp: file_send_eq)+

lemma file_send_batch_success:
  assumes "appending write contents" and "file_send_batch write jd ds s = (s', None)"
  shows "contents (fs_writer s') = contents (fs_writer s) @ text_of (concat (map (\<lambda>d. file_lines jd d s) ds))"
  using assms(2)
proof (induction ds arbitrary: s)
  case Nil
  then show ?case by (simp add: text_of_def)
next
  case (Cons d ds)
  obtain s1 where s1: "file_send write jd d s = (s1, None)" "file_send_batch write jd ds s1 = (s', None)"
    using Cons.prems by (auto split: prod.splits option.splits)
  then have wl: "write_lines write (file_lines jd d s) s = (s1, None)"
    by (auto simp: file_send_eq split: if_splits)
  from write_lines_spec [OF assms(1) wl]
  have c1: "contents (fs_writer s1) = contents (fs_writer s) @ text_of (file_lines jd d s)"
    and f1: "fs_format s1 = fs_format s" "fs_pretty_print s1 = fs_pretty_print s" by auto
  have "file_lines jd x s1 = file_lines jd x s" for x
    by (simp add: file_lines_def f1)
  then show ?case
    using Cons.IH [OF s1(2)] c1 by (simp add: text_of_def)
qed

section \<open>Properties\<close>

text \<open>The file holds what was sent: with a writer that keeps the bytes it reports as written, a batch
  sent without error appends exactly one line per row, all rows of all metrics in order; a failed \<open>Send\<close>
  reports it and leaves whole lines, a proper prefix of the metric's.\<close>

theorem file_holds_rows:
  assumes "appending write contents"
    and "file_send_batch write jd ds s = (s', None)"
  shows "contents (fs_writer s') = contents (fs_writer s) @
      text_of (concat (map (\<lambda>d. map (if fs_format s = ''grok'' then to_grok_string else json_line (fs_pretty_print s))
        (convert_to_ears_rows jd d)) ds)) \<and>
    (snd (file_send write jd d s) = Some Write_Failed \<longrightarrow>
      (\<exists>n < length (convert_to_ears_rows jd d). contents (fs_writer (fst (file_send write jd d s))) =
         contents (fs_writer s) @ text_of (take n (file_lines jd d s))))"
proof
  show "contents (fs_writer s') = contents (fs_writer s) @
      text_of (concat (map (\<lambda>d. map (if fs_format s = ''grok'' then to_grok_string else json_line (fs_pretty_print s))
        (convert_to_ears_rows jd d)) ds))"
    using file_send_batch_success [OF assms] by (simp add: file_lines_def cong: if_cong)
  obtain t r where send: "file_send write jd d s = (t, r)" by fastforce
  show "snd (file_send write jd d s) = Some Write_Failed \<longrightarrow>
      (\<exists>n < length (convert_to_ears_rows jd d). contents (fs_writer (fst (file_send write jd d s))) =
         contents (fs_writer s) @ text_of (take n (file_lines jd d s)))"
  proof
    assume "snd (file_send write jd d s) = Some Write_Failed"
    then have lines: "write_lines write (file_lines jd d s) s = (t, r)" and r: "r = Some Write_Failed"
      using send by (auto simp: file_send_eq split: if_splits)
    have len: "length (file_lines jd d s) = length (convert_to_ears_rows jd d)" by (simp add: file_lines_def)
    show "\<exists>n < length (convert_to_ears_rows jd d). contents (fs_writer (fst (file_send write jd d s))) =
         contents (fs_writer s) @ text_of (take n (file_lines jd d s))"
      using write_lines_spec [OF assms(1) lines] r send len by (metis fst_conv le_neq_implies_less option.distinct(1))
  qed
qed

definition sample_file :: "string file_sender" where
  "sample_file = \<lparr>fs_file_path = ''f'', fs_writer = [], fs_pretty_print = False, fs_console = False,
     fs_console_queue = [], fs_printed = [], fs_format = ''grok'', fs_closed = False\<rparr>"

theorem file_holds_rows_witness:
  "\<exists>s'. file_send_batch (\<lambda>l w. (w @ l, True)) no_decoders [sample_metric] sample_file = (s', None) \<and>
     fs_writer s' = text_of (map to_grok_string (convert_to_ears_rows no_decoders sample_metric))"
proof -
  have "appending (\<lambda>l w. (w @ l, True)) (\<lambda>w :: string. w)" by (simp add: appending_def)
  moreover have "\<exists>s'. file_send_batch (\<lambda>l w. (w @ l, True)) no_decoders [sample_metric] sample_file = (s', None)"
    by (simp add: file_send_eq sample_file_def file_lines_def sample_metric_def convert_to_ears_rows_def
        convert_uptime_def rows_of_def unmarshal_data_def)
  ultimately show ?thesis using file_holds_rows [of "\<lambda>l w. (w @ l, True)" "\<lambda>w. w" no_decoders "[sample_metric]" sample_file]
    by (fastforce simp: sample_file_def)
qed

text \<open>\<open>Close\<close> of the file sender prints, in order, every line that was still queued for the console, and
  leaves the file as it was; a second \<open>Close\<close> does nothing.\<close>

theorem file_close_drains_console:
  assumes "\<not> fs_closed s"
  shows "fs_printed (fst (file_close close_writer s)) = fs_printed s @ fs_console_queue s \<and>
    fs_console_queue (fst (file_close close_writer s)) = [] \<and>
    fs_writer (fst (file_close close_writer s)) = fst (close_writer (fs_writer s)) \<and>
    file_close close_writer (fst (file_close close_writer s)) = (fst (file_close close_writer s), None)"
  using assms by (simp add: file_close_def Let_def split_def drain_all_spec)

theorem file_close_drains_console_witness:
  "fs_printed (fst (file_close (\<lambda>w. (w, True)) (sample_file\<lparr>fs_console_queue := [''a'', ''b'']\<rparr>))) = [''a'', ''b'']"
  by (subst conjunct1 [OF file_close_drains_console]) (simp_all add: sample_file_def)

end
