(* ===== verification/Sender.thy ===== *)
theory Sender
  imports FileSender
begin

text \<open>
  \<open>internal/sender/sender.go\<close>: the interface \<open>Sender\<close> the agent sends through, as the locale
  \<open>metric_sender\<close>, interpreted on the Kafka sender over the buffered transport, on the one over sarama
  and on the file sender.  \<open>emitted\<close> is what has left a sender so far.
\<close>

section \<open>The contract\<close>

text \<open>A use of a sender: a list of calls, \<open>Some d\<close> for a send and \<open>None\<close> for a close.\<close>

definition sender_call ::
  "(metric_data \<Rightarrow> 's \<Rightarrow> 's \<times> sender_error option) \<Rightarrow> ('s \<Rightarrow> 's \<times> sender_error option) \<Rightarrow>
     metric_data option \<Rightarrow> 's \<Rightarrow> 's" where
  "sender_call send close c s = (case c of Some d \<Rightarrow> fst (send d s) | None \<Rightarrow> fst (close s))"

definition sender_run ::
  "(metric_data \<Rightarrow> 's \<Rightarrow> 's \<times> sender_error option) \<Rightarrow> ('s \<Rightarrow> 's \<times> sender_error option) \<Rightarrow>
     metric_data option list \<Rightarrow> 's \<Rightarrow> 's" where
  "sender_run send close cs s = fold (sender_call send close) cs s"

locale metric_sender =
  fixes send :: "metric_data \<Rightarrow> 's \<Rightarrow> 's \<times> sender_error option"
    and close :: "'s \<Rightarrow> 's \<times> sender_error option"
    and closed :: "'s \<Rightarrow> bool"
    and emitted :: "'s \<Rightarrow> 'o list"
  assumes send_closed: "closed s \<Longrightarrow> send d s = (s, Some Sender_Closed)"
    and send_keeps_open: "closed (fst (send d s)) = closed s"
    and send_output: "prefix (emitted s) (emitted (fst (send d s)))"
    and close_closes: "closed (fst (close s))"
    and close_again: "closed s \<Longrightarrow> close s = (s, None)"
    and close_output: "emitted (fst (close s)) = emitted s"
begin

lemma call_closed: "closed s \<Longrightarrow> sender_call send close c s = s"
  by (simp add: sender_call_def send_closed close_again split: option.splits)

lemma run_closed: "closed s \<Longrightarrow> sender_run send close cs s = s"
  by (induction cs) (simp_all add: sender_run_def call_closed)

lemma run_after_close: "sender_run send close (None # cs) s = fst (close s)"
  using run_closed [OF close_closes] by (simp add: sender_run_def sender_call_def)

lemma run_output: "prefix (emitted s) (emitted (sender_run send close cs s))"
proof (induction cs arbitrary: s)
  case Nil
  then show ?case by (simp add: sender_run_def)
next
  case (Cons c cs)
  have "prefix (emitted s) (emitted (sender_call send close c s))"
    using send_output close_output by (simp add: sender_call_def split: option.splits)
  with Cons [of "sender_call send close c s"] show ?case by (auto simp: sender_run_def)
qed

lemma run_stops_at_close: "emitted (sender_run send close (cs @ None # ds) s) = emitted (sender_run send close cs s)"
  using run_after_close [of ds "sender_run send close cs s"] close_output by (simp add: sender_run_def)

lemma refused_after_close: "snd (send d (sender_run send close (cs @ None # ds) s)) = Some Sender_Closed"
proof -
  have "closed (sender_run send close (cs @ None # ds) s)"
    using run_after_close [of ds "sender_run send close cs s"] close_closes by (simp add: sender_run_def)
  then show ?thesis by (simp add: send_closed)
qed

end

section \<open>The senders of the agent\<close>

text \<open>\<open>Close\<close> of the buffered transport as its caller sees it: no further delivery is accepted.\<close>

definition close_system :: "system \<Rightarrow> system \<times> sender_error option" where
  "close_system s = (s\<lparr>sy_t := close_stop (close_locked (sy_t s))\<rparr>, None)"

lemma kafka_send_closed_eq [simp]: "ks_closed (fst (kafka_send dl jd diff d s)) = ks_closed s"
  by (auto simp: kafka_send_def split: sum.splits prepare_error.splits prod.splits)

interpretation kafkarest_sender: metric_sender "kafka_send deliver_system jd diff"
    "kafka_sender_close close_system" ks_closed "\<lambda>s. sy_accepted (ks_transport s)"
  for jd diff
proof
  show "prefix (sy_accepted (ks_transport s)) (sy_accepted (ks_transport (fst (kafka_send deliver_system jd diff d s))))"
    for d s by (rule kafkarest.send_grows) simp
qed (auto simp: kafka_send_def kafka_sender_close_def close_system_def Let_def
    split: sum.splits prepare_error.splits prod.splits)

interpretation sarama_sender: metric_sender "kafka_send (sarama_deliver ctx_done) jd diff"
    "kafka_sender_close (\<lambda>q. (q, None))" ks_closed ks_transport
  for ctx_done jd diff
proof
  show "prefix (ks_transport s) (ks_transport (fst (kafka_send (sarama_deliver ctx_done) jd diff d s)))"
    for d s by (rule kafka_direct.send_grows) simp
qed (auto simp: kafka_send_def kafka_sender_close_def Let_def
    split: sum.splits prepare_error.splits prod.splits)

text \<open>The file sender on a writer that keeps the bytes and may refuse a write (when \<open>full\<close> says so).\<close>

definition byte_writer :: "(string \<Rightarrow> bool) \<Rightarrow> string \<Rightarrow> string \<Rightarrow> string \<times> bool" where
  "byte_writer full s w = (if full w then (w, False) else (w @ s, True))"

lemma byte_writer_appending: "appending (byte_writer full) (\<lambda>w. w)"
  by (simp add: appending_def byte_writer_def)

interpretation file_sender: metric_sender "file_send (byte_writer full) jd"
    "file_close (\<lambda>w. (w, True))" fs_closed fs_writer
  for full jd
proof
  show "prefix (fs_writer s) (fs_writer (fst (file_send (byte_writer full) jd d s)))" for d s
    using file_send_fields(4) [OF byte_writer_appending] .
  show "fs_closed (fst (file_send (byte_writer full) jd d s)) = fs_closed s" for d s
    using file_send_fields(1) [OF byte_writer_appending] .
qed (auto simp: file_send_def file_close_def Let_def drain_all_spec)

section \<open>Properties\<close>

text \<open>A closed sender is silent: in any sequence of \<open>Send\<close> and \<open>Close\<close> calls on the Kafka sender over
  the buffered transport, nothing is handed to the transport after the first \<open>Close\<close>, and every later
  \<open>Send\<close> is refused.\<close>

theorem kafka_rest_silent_after_close:
  "sy_accepted (ks_transport (sender_run (kafka_send deliver_system jd diff) (kafka_sender_close close_system)
       (cs @ None # ds) s)) =
     sy_accepted (ks_transport (sender_run (kafka_send deliver_system jd diff) (kafka_sender_close close_system) cs s)) \<and>
   snd (kafka_send deliver_system jd diff d (sender_run (kafka_send deliver_system jd diff)
       (kafka_sender_close close_system) (cs @ None # ds) s)) = Some Sender_Closed"
  using kafkarest_sender.run_stops_at_close kafkarest_sender.refused_after_close by blast

text \<open>The same holds of the file sender: after \<open>Close\<close> the file never grows again, whatever the writer
  does, and a metric sent then is refused; before it, the file only ever grows.\<close>

theorem file_silent_after_close:
  "fs_writer (sender_run (file_send (byte_writer full) jd) (file_close (\<lambda>w. (w, True))) (cs @ None # ds) s) =
     fs_writer (sender_run (file_send (byte_writer full) jd) (file_close (\<lambda>w. (w, True))) cs s) \<and>
   snd (file_send (byte_writer full) jd d
     (sender_run (file_send (byte_writer full) jd) (file_close (\<lambda>w. (w, True))) (cs @ None # ds) s)) = Some Sender_Closed \<and>
   prefix (fs_writer s) (fs_writer (sender_run (file_send (byte_writer full) jd) (file_close (\<lambda>w. (w, True))) cs s))"
  using file_sender.run_stops_at_close file_sender.refused_after_close file_sender.run_output by blast

end
