(* ===== verification/Scheduler.thy ===== *)
theory Scheduler
  imports Registry Sender
begin

text \<open>
  \<open>internal/scheduler/scheduler.go\<close>.  One goroutine per enabled collector, started by \<open>Start\<close> and again by
  \<open>Reconfigure\<close>; \<open>Stop\<close> and \<open>Reconfigure\<close> cancel a context and wait for the goroutines to end.  The
  critical sections and the steps of the goroutines are the steps of a transition system; a context
  is a number, the generation, whose cancellation is recorded.  What a collection does with its
  result is the function \<open>collect_once\<close>.
\<close>

section \<open>One collection\<close>

text \<open>
  The tail of \<open>collect\<close>: \<open>result\<close> is what the collector returned, \<open>now\<close> the time at the end.  The state is
  the sender's and the last activity in milliseconds.
\<close>

definition stamp_metric :: "string \<Rightarrow> string \<Rightarrow> metric_data \<Rightarrow> metric_data" where
  "stamp_metric agent_id hostname d = d\<lparr>md_agent_id := agent_id, md_hostname := hostname\<rparr>"

definition collect_once ::
  "(metric_data \<Rightarrow> 's \<Rightarrow> 's \<times> sender_error option) \<Rightarrow> string \<Rightarrow> string \<Rightarrow> gotime \<Rightarrow>
     collect_error + metric_data option \<Rightarrow> 's \<times> int \<Rightarrow> 's \<times> int" where
  "collect_once send agent_id hostname now result st =
     (case result of
        Inl e \<Rightarrow> st
      | Inr None \<Rightarrow> st
      | Inr (Some d) \<Rightarrow>
          (case send (stamp_metric agent_id hostname d) (fst st) of
             (s', Some e) \<Rightarrow> (s', snd st)
           | (s', None) \<Rightarrow> (s', unix_milli now)))"

text \<open>\<open>LastActivity\<close>: the zero time, \<open>None\<close>, before the first success.\<close>

definition last_activity :: "int \<Rightarrow> gotime option" where
  "last_activity ms = (if ms = 0 then None else Some \<lparr>unix_nanos = ms * 1000000, zone_offset = 0\<rparr>)"

section \<open>The goroutines\<close>

datatype routine_phase = Collecting | Waiting

record routine =
  gr_context :: nat
  gr_name :: string
  gr_interval :: int
  gr_phase :: routine_phase

datatype reconf_phase = R_Idle | R_Waiting | R_Joined

text \<open>
  \<open>sd_starting\<close> holds the \<open>Start\<close> calls that have released the mutex and still start goroutines, with the
  collectors left; \<open>sd_enabled\<close> is what \<open>EnabledCollectors\<close> would return.
\<close>

record scheduler =
  sd_running :: bool
  sd_current :: nat
  sd_next :: nat
  sd_cancelled :: "nat set"
  sd_parent_done :: bool
  sd_routines :: "routine list"
  sd_starting :: "(nat \<times> (string \<times> int) list) list"
  sd_reconf :: reconf_phase
  sd_stopping :: bool
  sd_stopped :: bool
  sd_enabled :: "(string \<times> int) list"

definition new_scheduler :: "(string \<times> int) list \<Rightarrow> scheduler" where
  "new_scheduler enabled =
     \<lparr>sd_running = False, sd_current = 0, sd_next = 0, sd_cancelled = {}, sd_parent_done = False, sd_routines = [], sd_starting = [],
      sd_reconf = R_Idle, sd_stopping = False, sd_stopped = False, sd_enabled = enabled\<rparr>"

definition new_routine :: "nat \<Rightarrow> string \<times> int \<Rightarrow> routine" where
  "new_routine g c = \<lparr>gr_context = g, gr_name = fst c, gr_interval = snd c, gr_phase = Collecting\<rparr>"

text \<open>\<open>context.WithCancel (parentCtx)\<close>: a context made after the parent is done is done from the start.\<close>

definition derived_context :: "scheduler \<Rightarrow> nat set" where [simp]:
  "derived_context s = (if sd_parent_done s then insert (sd_next s) (sd_cancelled s) else sd_cancelled s)"

text \<open>The critical section of \<open>Start\<close>, and the start of one goroutine after it.\<close>

definition start_locked :: "scheduler \<Rightarrow> scheduler" where
  "start_locked s =
     (if sd_running s then s
      else s\<lparr>sd_running := True, sd_current := sd_next s, sd_next := Suc (sd_next s),
             sd_cancelled := derived_context s, sd_starting := sd_starting s @ [(sd_next s, sd_enabled s)]\<rparr>)"

definition start_one :: "nat \<Rightarrow> string \<times> int \<Rightarrow> scheduler \<Rightarrow> scheduler" where
  "start_one g c s = s\<lparr>sd_routines := sd_routines s @ [new_routine g c]\<rparr>"

text \<open>The critical section of \<open>Stop\<close>; what follows is the wait for the goroutines.\<close>

definition stop_locked :: "scheduler \<Rightarrow> scheduler" where
  "stop_locked s =
     (if \<not> sd_running s then s
      else s\<lparr>sd_running := False, sd_cancelled := insert (sd_current s) (sd_cancelled s), sd_stopping := True\<rparr>)"

text \<open>The first critical section of \<open>Reconfigure\<close> and, after the wait, the second.\<close>

definition reconfigure_locked :: "scheduler \<Rightarrow> scheduler" where
  "reconfigure_locked s =
     (if \<not> sd_running s then s
      else s\<lparr>sd_cancelled := insert (sd_current s) (sd_cancelled s), sd_reconf := R_Waiting\<rparr>)"

definition restart_locked :: "scheduler \<Rightarrow> scheduler" where
  "restart_locked s =
     (if \<not> sd_running s then s\<lparr>sd_reconf := R_Idle\<rparr>
      else s\<lparr>sd_current := sd_next s, sd_next := Suc (sd_next s),
             sd_cancelled := derived_context s,
             sd_routines := sd_routines s @ map (new_routine (sd_next s)) (sd_enabled s), sd_reconf := R_Idle\<rparr>)"

section \<open>The transition system\<close>

datatype call = Call_Start | Call_Stop | Call_Reconfigure | Internal

text \<open>
  The goroutine ends only in its \<open>select\<close>, when its context is done; a tick may still win there.  The step
  \<open>shutdown\<close> is the cancellation of the parent context, which \<open>run\<close> waits for before it calls \<open>Stop\<close>: it
  cancels the current generation and every one made later.
\<close>

inductive sched_step :: "call \<Rightarrow> scheduler \<Rightarrow> scheduler \<Rightarrow> bool" where
  start: "sched_step Call_Start s (start_locked s)"
| start_next: "sd_starting s = xs @ (g, c # cs) # ys \<Longrightarrow>
    sched_step Internal s ((start_one g c s)\<lparr>sd_starting := xs @ (g, cs) # ys\<rparr>)"
| start_done: "sd_starting s = xs @ (g, []) # ys \<Longrightarrow> sched_step Internal s (s\<lparr>sd_starting := xs @ ys\<rparr>)"
| stop: "sched_step Call_Stop s (stop_locked s)"
| stop_joined: "sd_stopping s \<Longrightarrow> sd_routines s = [] \<Longrightarrow>
    sched_step Internal s (s\<lparr>sd_stopping := False, sd_stopped := True\<rparr>)"
| reconfigure: "sd_reconf s = R_Idle \<Longrightarrow> sched_step Call_Reconfigure s (reconfigure_locked s)"
| reconf_joined: "sd_reconf s = R_Waiting \<Longrightarrow> sd_routines s = [] \<Longrightarrow>
    sched_step Internal s (s\<lparr>sd_reconf := R_Joined\<rparr>)"
| restart: "sd_reconf s = R_Joined \<Longrightarrow> sched_step Internal s (restart_locked s)"
| collected: "sd_routines s = xs @ r # ys \<Longrightarrow> gr_phase r = Collecting \<Longrightarrow> 0 < gr_interval r \<Longrightarrow>
    sched_step Internal s (s\<lparr>sd_routines := xs @ r\<lparr>gr_phase := Waiting\<rparr> # ys\<rparr>)"
| tick: "sd_routines s = xs @ r # ys \<Longrightarrow> gr_phase r = Waiting \<Longrightarrow>
    sched_step Internal s (s\<lparr>sd_routines := xs @ r\<lparr>gr_phase := Collecting\<rparr> # ys\<rparr>)"
| leave: "sd_routines s = xs @ r # ys \<Longrightarrow> gr_phase r = Waiting \<Longrightarrow> gr_context r \<in> sd_cancelled s \<Longrightarrow>
    sched_step Internal s (s\<lparr>sd_routines := xs @ ys\<rparr>)"
| shutdown: "sched_step Internal s (s\<lparr>sd_parent_done := True, sd_cancelled := insert (sd_current s) (sd_cancelled s)\<rparr>)"
| configured: "distinct (map fst enabled) \<Longrightarrow> \<forall>c \<in> set enabled. 0 < snd c \<Longrightarrow>
    sched_step Internal s (s\<lparr>sd_enabled := enabled\<rparr>)"

text \<open>
  The order in which \<open>run\<close> calls the scheduler: \<open>Start\<close> once and first; the watcher that calls \<open>Reconfigure\<close>
  is created after \<open>Start\<close> has returned, and \<open>Stop\<close> is called by the goroutine that called \<open>Start\<close>.
\<close>

definition call_allowed :: "call \<Rightarrow> scheduler \<Rightarrow> bool" where
  "call_allowed a s =
     (case a of
        Call_Start \<Rightarrow> sd_next s = 0
      | Call_Stop \<Rightarrow> sd_starting s = [] \<and> sd_next s \<noteq> 0
      | Call_Reconfigure \<Rightarrow> sd_starting s = [] \<and> sd_next s \<noteq> 0
      | Internal \<Rightarrow> True)"

inductive sched_reachable :: "scheduler \<Rightarrow> bool" where
  init: "distinct (map fst enabled) \<Longrightarrow> \<forall>c \<in> set enabled. 0 < snd c \<Longrightarrow> sched_reachable (new_scheduler enabled)"
| advance: "sched_reachable s \<Longrightarrow> sched_step a s s' \<Longrightarrow> call_allowed a s \<Longrightarrow> sched_reachable s'"

inductive_cases sched_stepE: "sched_step a s s'"

section \<open>The invariant\<close>

text \<open>What the registry promises of the enabled collectors.\<close>

definition enabled_ok :: "(string \<times> int) list \<Rightarrow> bool" where
  "enabled_ok cs = (distinct (map fst cs) \<and> (\<forall>c \<in> set cs. 0 < snd c))"

text \<open>All goroutines belong to the current context, and no two to one collector.\<close>

definition routines_ok :: "scheduler \<Rightarrow> bool" where
  "routines_ok s =
     ((\<forall>r \<in> set (sd_routines s). gr_context r = sd_current s \<and> 0 < gr_interval r) \<and>
      (case sd_starting s of
         [] \<Rightarrow> distinct (map gr_name (sd_routines s))
       | [(g, cs)] \<Rightarrow> g = sd_current s \<and> (\<forall>c \<in> set cs. 0 < snd c) \<and>
           distinct (map gr_name (sd_routines s) @ map fst cs) \<and>
           sd_running s \<and> sd_reconf s = R_Idle
       | _ \<Rightarrow> False))"

text \<open>The phases of the calls under way.\<close>

definition phases_ok :: "scheduler \<Rightarrow> bool" where
  "phases_ok s =
     ((sd_next s = 0 \<longrightarrow> sd_routines s = [] \<and> sd_starting s = [] \<and> \<not> sd_running s \<and> \<not> sd_stopping s \<and>
         \<not> sd_stopped s \<and> sd_reconf s = R_Idle) \<and>
      (sd_next s \<noteq> 0 \<longrightarrow> (sd_running s \<longleftrightarrow> \<not> sd_stopping s \<and> \<not> sd_stopped s)) \<and>
      (sd_next s \<noteq> 0 \<and> \<not> sd_running s \<longrightarrow> sd_current s \<in> sd_cancelled s) \<and>
      (sd_reconf s \<noteq> R_Idle \<longrightarrow> sd_current s \<in> sd_cancelled s) \<and>
      (sd_reconf s = R_Joined \<longrightarrow> sd_routines s = []) \<and>
      (sd_stopped s \<longrightarrow> sd_routines s = [] \<and> \<not> sd_stopping s))"

definition sched_ok :: "scheduler \<Rightarrow> bool" where
  "sched_ok s = (enabled_ok (sd_enabled s) \<and> routines_ok s \<and> phases_ok s)"

lemmas sched_ok_defs = sched_ok_def enabled_ok_def routines_ok_def phases_ok_def

lemma new_routine_simps [simp]:
  "gr_context (new_routine g c) = g" "gr_name (new_routine g c) = fst c"
  "gr_interval (new_routine g c) = snd c" "gr_phase (new_routine g c) = Collecting"
  by (simp_all add: new_routine_def)

lemma sched_ok_init: "enabled_ok enabled \<Longrightarrow> sched_ok (new_scheduler enabled)"
  by (simp add: sched_ok_defs new_scheduler_def)

lemma single_start:
  assumes "routines_ok s" and "sd_starting s = xs @ p # ys"
  shows "xs = [] \<and> ys = []"
proof -
  have "length (sd_starting s) \<le> 1"
    using assms(1) by (cases "sd_starting s"; cases "tl (sd_starting s)") (auto simp: routines_ok_def)
  then show ?thesis using assms(2) by simp
qed

lemma starting_cases:
  assumes "routines_ok s"
  obtains (none) "sd_starting s = []" "distinct (map gr_name (sd_routines s))"
  | (one) cs where "sd_starting s = [(sd_current s, cs)]" "distinct (map gr_name (sd_routines s) @ map fst cs)" "sd_running s"
  using assms by (cases "sd_starting s"; cases "tl (sd_starting s)") (auto simp: routines_ok_def)

lemma sched_ok_step:
  assumes "sched_step a s s'" and "call_allowed a s" and "sched_ok s"
  shows "sched_ok s'"
  using assms(1)
proof (cases rule: sched_step.cases)
  case start
  then show ?thesis using assms(2,3)
    by (auto simp: sched_ok_defs start_locked_def call_allowed_def)
next
  case (start_next xs g c cs ys)
  have "xs = [] \<and> ys = []" using single_start start_next(3) assms(3) by (auto simp: sched_ok_def)
  then show ?thesis using assms(3) start_next
    by (auto simp: sched_ok_defs start_one_def)
next
  case (start_done xs g ys)
  have "xs = [] \<and> ys = []" using single_start start_done(3) assms(3) by (auto simp: sched_ok_def)
  then show ?thesis using assms(3) start_done by (auto simp: sched_ok_defs)
next
  case stop
  then show ?thesis using assms(2,3) by (auto simp: sched_ok_defs stop_locked_def call_allowed_def)
next
  case stop_joined
  then show ?thesis using assms(3) by (auto simp: sched_ok_defs split: list.splits)
next
  case reconfigure
  then show ?thesis using assms(2,3) by (auto simp: sched_ok_defs reconfigure_locked_def call_allowed_def)
next
  case reconf_joined
  then show ?thesis using assms(3) by (auto simp: sched_ok_defs split: list.splits)
next
  case restart
  then show ?thesis using assms(3)
    by (auto simp: sched_ok_defs restart_locked_def comp_def split: list.splits prod.splits)
next
  case (collected xs r ys)
  then show ?thesis using assms(3) by (auto simp: sched_ok_defs split: list.splits)
next
  case (tick xs r ys)
  then show ?thesis using assms(3) by (auto simp: sched_ok_defs split: list.splits)
next
  case (leave xs r ys)
  then show ?thesis using assms(3) by (auto simp: sched_ok_defs split: list.splits)
next
  case shutdown
  then show ?thesis using assms(3) by (auto simp: sched_ok_defs split: list.splits)
next
  case (configured enabled)
  then show ?thesis using assms(3) by (auto simp: sched_ok_defs split: list.splits)
qed

lemma sched_invariant: "sched_reachable s \<Longrightarrow> sched_ok s"
  by (induction rule: sched_reachable.induct)
    (simp add: sched_ok_init enabled_ok_def, blast intro: sched_ok_step)

section \<open>Stopping\<close>

abbreviation internal :: "scheduler \<Rightarrow> scheduler \<Rightarrow> bool" where
  "internal \<equiv> sched_step Internal"

text \<open>The goroutines of a cancelled context can all end, as long as their collections return.\<close>

lemma routines_leave:
  assumes "\<forall>r \<in> set (sd_routines s). gr_context r \<in> sd_cancelled s \<and> 0 < gr_interval r"
  shows "\<exists>s'. internal\<^sup>*\<^sup>* s s' \<and> s' = s\<lparr>sd_routines := []\<rparr>"
  using assms
proof (induction "sd_routines s" arbitrary: s)
  case Nil
  then have "s = s\<lparr>sd_routines := []\<rparr>" by simp
  then show ?case by blast
next
  case (Cons r rs)
  have r: "gr_context r \<in> sd_cancelled s" "0 < gr_interval r"
    using Cons.prems Cons.hyps(2) by (metis list.set_intros(1))+
  obtain q where q: "internal\<^sup>*\<^sup>* s (s\<lparr>sd_routines := q # rs\<rparr>)" "gr_phase q = Waiting" "gr_context q = gr_context r"
  proof (cases "gr_phase r")
    case Collecting
    have "internal s (s\<lparr>sd_routines := [] @ r\<lparr>gr_phase := Waiting\<rparr> # rs\<rparr>)"
      by (rule sched_step.collected [of _ "[]" r rs]) (use Cons.hyps(2) Collecting r in simp_all)
    then show ?thesis using that [of "r\<lparr>gr_phase := Waiting\<rparr>"] by auto
  next
    case Waiting
    have "s\<lparr>sd_routines := r # rs\<rparr> = s" using Cons.hyps(2) by simp
    then show ?thesis using that [of r] Waiting by auto
  qed
  let ?s1 = "s\<lparr>sd_routines := q # rs\<rparr>" and ?s2 = "s\<lparr>sd_routines := rs\<rparr>"
  have "internal ?s1 (?s1\<lparr>sd_routines := [] @ rs\<rparr>)"
    by (rule sched_step.leave [of _ "[]" q rs]) (use q r in simp_all)
  then have "internal\<^sup>*\<^sup>* s ?s2" using q(1) by (auto intro: rtranclp.rtrancl_into_rtrancl)
  moreover have "\<exists>s'. internal\<^sup>*\<^sup>* ?s2 s' \<and> s' = ?s2\<lparr>sd_routines := []\<rparr>"
  proof (rule Cons.hyps(1))
    show "rs = sd_routines ?s2" by simp
    show "\<forall>r \<in> set (sd_routines ?s2). gr_context r \<in> sd_cancelled ?s2 \<and> 0 < gr_interval r"
      using Cons.prems Cons.hyps(2) [symmetric] by simp
  qed
  ultimately show ?case by (auto intro: rtranclp_trans)
qed

lemma reachable_internal: "internal\<^sup>*\<^sup>* s s' \<Longrightarrow> sched_reachable s \<Longrightarrow> sched_reachable s'"
  by (induction rule: rtranclp_induct) (auto intro: sched_reachable.advance simp: call_allowed_def)

section \<open>Properties\<close>

text \<open>A run of the scheduler with two collectors: started, with its goroutines, and then told to stop.\<close>

definition sample_enabled :: "(string \<times> int) list" where
  "sample_enabled = [(''CPU'', 10 * second), (''Memory'', 10 * second)]"

definition sample_started :: scheduler where
  "sample_started =
     (start_locked (new_scheduler sample_enabled))
       \<lparr>sd_starting := [], sd_routines := map (new_routine 0) sample_enabled\<rparr>"

lemma sample_started_reachable: "sched_reachable sample_started"
proof -
  let ?s0 = "new_scheduler sample_enabled"
  let ?s1 = "start_locked ?s0"
  let ?s2 = "(start_one 0 (''CPU'', 10 * second) ?s1)\<lparr>sd_starting := [] @ (0, [(''Memory'', 10 * second)]) # []\<rparr>"
  let ?s3 = "(start_one 0 (''Memory'', 10 * second) ?s2)\<lparr>sd_starting := [] @ (0, []) # []\<rparr>"
  have r0: "sched_reachable ?s0"
    by (rule sched_reachable.init) (simp_all add: sample_enabled_def second_def)
  have r1: "sched_reachable ?s1"
    by (rule sched_reachable.advance [OF r0 sched_step.start]) (simp add: call_allowed_def new_scheduler_def)
  have r2: "sched_reachable ?s2"
    by (rule sched_reachable.advance [OF r1 sched_step.start_next])
      (simp_all add: start_locked_def new_scheduler_def sample_enabled_def call_allowed_def)
  have r3: "sched_reachable ?s3"
    by (rule sched_reachable.advance [OF r2 sched_step.start_next]) (simp_all add: call_allowed_def)
  have "sched_reachable (?s3\<lparr>sd_starting := [] @ []\<rparr>)"
    by (rule sched_reachable.advance [OF r3 sched_step.start_done]) (simp_all add: call_allowed_def)
  moreover have "?s3\<lparr>sd_starting := [] @ []\<rparr> = sample_started"
    by (simp add: sample_started_def start_one_def start_locked_def new_scheduler_def sample_enabled_def)
  ultimately show ?thesis by simp
qed

lemma sample_stopping_reachable: "sched_reachable (stop_locked sample_started)" "sd_stopping (stop_locked sample_started)"
  by (rule sched_reachable.advance [OF sample_started_reachable sched_step.stop])
    (simp_all add: call_allowed_def sample_started_def start_locked_def new_scheduler_def stop_locked_def)

text \<open>C14 A collector is never collected by two goroutines at once: through start, ticks, any number of
  reconfigurations and stop, the live goroutines belong to one context and have different collectors,
  because \<open>Reconfigure\<close> waits for the old ones before it starts new ones.  This is what the collectors
  that keep state between collections rely on.\<close>

theorem collectors_never_overlap:
  assumes "sched_reachable s"
  shows "distinct (map gr_name (sd_routines s)) \<and>
    list_all (\<lambda>r. gr_context r = sd_current s \<and> 0 < gr_interval r) (sd_routines s)"
proof -
  have ok: "routines_ok s" using sched_invariant [OF assms] by (simp add: sched_ok_def)
  have "distinct (map gr_name (sd_routines s))" using ok by (cases rule: starting_cases) auto
  moreover have "list_all (\<lambda>r. gr_context r = sd_current s \<and> 0 < gr_interval r) (sd_routines s)"
    using ok by (simp add: routines_ok_def list_all_iff)
  ultimately show ?thesis ..
qed

theorem collectors_never_overlap_witness:
  "distinct (map gr_name (sd_routines sample_started))"
  using collectors_never_overlap [OF sample_started_reachable] by simp

text \<open>C15 After \<open>Stop\<close> has returned nothing is collected any more: there is no goroutine left, none is about
  to be started, and a reconfiguration that was waiting at the time starts none either.\<close>

theorem stopped_is_quiet:
  assumes "sched_reachable s" and "sd_stopped s"
  shows "sd_routines s = [] \<and> sd_starting s = [] \<and> \<not> sd_running s \<and> sd_routines (restart_locked s) = []"
proof -
  have ok: "routines_ok s" "phases_ok s" using sched_invariant [OF assms(1)] by (simp_all add: sched_ok_def)
  have off: "sd_routines s = []" "\<not> sd_running s" using ok(2) assms(2) by (auto simp: phases_ok_def)
  moreover have "sd_starting s = []" using ok(1) off(2) by (cases rule: starting_cases) auto
  ultimately show ?thesis by (simp add: restart_locked_def)
qed

theorem stopped_is_quiet_witness:
  "\<exists>s. sd_stopped s \<and> sd_routines (s :: scheduler) = [] \<and> sd_routines (restart_locked s) = []"
proof -
  let ?s = "stop_locked sample_started"
  have "\<forall>r \<in> set (sd_routines ?s). gr_context r \<in> sd_cancelled ?s \<and> 0 < gr_interval r"
    by (simp add: sample_started_def start_locked_def new_scheduler_def stop_locked_def sample_enabled_def second_def)
  then have "internal\<^sup>*\<^sup>* ?s (?s\<lparr>sd_routines := []\<rparr>)" using routines_leave by blast
  from reachable_internal [OF this sample_stopping_reachable(1)]
  have "sched_reachable (?s\<lparr>sd_routines := [], sd_stopping := False, sd_stopped := True\<rparr>)"
    using sched_reachable.advance [OF _ sched_step.stop_joined, of "?s\<lparr>sd_routines := []\<rparr>"]
      sample_stopping_reachable(2) by (simp add: call_allowed_def)
  from stopped_is_quiet [OF this] show ?thesis
    by (intro exI [of _ "?s\<lparr>sd_routines := [], sd_stopping := False, sd_stopped := True\<rparr>"]) simp
qed

text \<open>C16 \<open>Stop\<close> can always return: from every reachable state in which it waits, the goroutines can all end by
  themselves, each after the collection it is in, and \<open>Stop\<close> returns.\<close>

theorem stop_can_return:
  assumes "sched_reachable s" and "sd_stopping s"
  shows "\<exists>s'. internal\<^sup>*\<^sup>* s s' \<and> sched_reachable s' \<and> sd_stopped s' \<and> sd_routines s' = []"
proof -
  have inv: "sched_ok s" by (rule sched_invariant [OF assms(1)])
  then have next_: "sd_next s \<noteq> 0" "\<not> sd_running s" "sd_current s \<in> sd_cancelled s"
    using assms(2) by (auto simp: sched_ok_def phases_ok_def)
  have "\<forall>r \<in> set (sd_routines s). gr_context r \<in> sd_cancelled s \<and> 0 < gr_interval r"
    using inv next_(3) by (auto simp: sched_ok_def routines_ok_def)
  then have leave: "internal\<^sup>*\<^sup>* s (s\<lparr>sd_routines := []\<rparr>)" using routines_leave by blast
  let ?s1 = "s\<lparr>sd_routines := []\<rparr>"
  let ?s2 = "?s1\<lparr>sd_stopping := False, sd_stopped := True\<rparr>"
  have "internal ?s1 ?s2" by (rule sched_step.stop_joined) (simp_all add: assms(2))
  then have "internal\<^sup>*\<^sup>* s ?s2" using leave by (rule rtranclp.rtrancl_into_rtrancl [rotated])
  then show ?thesis using reachable_internal [OF _ assms(1)] by (intro exI [of _ ?s2]) simp
qed

theorem stop_can_return_witness:
  "\<exists>s'. internal\<^sup>*\<^sup>* (stop_locked sample_started) s' \<and> sd_stopped s'"
  using stop_can_return [OF sample_stopping_reachable] by blast

text \<open>C17 A reconfiguration takes effect completely: when it restarts, no old goroutine is alive, and afterwards
  there is exactly one goroutine for every collector that is enabled now, with the period the collector
  has now, under the new context; if the scheduler was stopped meanwhile, there is none.\<close>

theorem reconfiguration_takes_effect:
  assumes "sched_reachable s" and "sd_reconf s = R_Joined"
  shows "map (\<lambda>r. (gr_name r, gr_interval r)) (sd_routines (restart_locked s)) =
      (if sd_running s then sd_enabled s else []) \<and>
    list_all (\<lambda>r. gr_context r = sd_current (restart_locked s)) (sd_routines (restart_locked s)) \<and>
    sd_reconf (restart_locked s) = R_Idle \<and> sd_running (restart_locked s) = sd_running s"
  using sched_invariant [OF assms(1)] assms(2)
  by (auto simp: sched_ok_def phases_ok_def restart_locked_def comp_def list_all_iff)

theorem reconfiguration_takes_effect_witness:
  "\<exists>s. sched_reachable s \<and> map (\<lambda>r. (gr_name r, gr_interval r)) (sd_routines (restart_locked s)) = sample_enabled"
proof -
  let ?s = "reconfigure_locked sample_started"
  have s: "sched_reachable ?s"
    by (rule sched_reachable.advance [OF sample_started_reachable sched_step.reconfigure])
      (simp_all add: call_allowed_def sample_started_def start_locked_def new_scheduler_def)
  have "\<forall>r \<in> set (sd_routines ?s). gr_context r \<in> sd_cancelled ?s \<and> 0 < gr_interval r"
    by (simp add: sample_started_def start_locked_def new_scheduler_def reconfigure_locked_def sample_enabled_def second_def)
  then have "internal\<^sup>*\<^sup>* ?s (?s\<lparr>sd_routines := []\<rparr>)" using routines_leave by blast
  from reachable_internal [OF this s] have s1: "sched_reachable (?s\<lparr>sd_routines := []\<rparr>)" .
  let ?s2 = "?s\<lparr>sd_routines := [], sd_reconf := R_Joined\<rparr>"
  have s2: "sched_reachable ?s2"
    using sched_reachable.advance [OF s1 sched_step.reconf_joined]
    by (simp add: call_allowed_def sample_started_def start_locked_def new_scheduler_def reconfigure_locked_def)
  have "map (\<lambda>r. (gr_name r, gr_interval r)) (sd_routines (restart_locked ?s2)) = sample_enabled"
    using reconfiguration_takes_effect [OF s2]
    by (simp add: sample_started_def start_locked_def new_scheduler_def reconfigure_locked_def)
  with s2 show ?thesis by blast
qed

end
