(* ===== verification/Pipeline.thy ===== *)
theory Pipeline
  imports Scheduler
begin

text \<open>
  From a collection to the proxy: the collections of the scheduler, the Kafka sender and the buffered
  transport put together as \<open>run\<close> does for the sender type \<open>kafkarest\<close>.  The scheduler's goroutines call
  \<open>Send\<close> one after the other in some order, interleaved with the steps of the transport.
\<close>

section \<open>The composition\<close>

text \<open>
  A run keeps a log: the metrics, as stamped, whose \<open>Send\<close> reported success, each with the time
  difference used.  \<open>agent_run\<close> relates the log to the sender's state.
\<close>

type_synonym sent_log = "(int \<times> metric_data) list"

definition logged :: "string \<Rightarrow> string \<Rightarrow> int \<Rightarrow> collect_error + metric_data option \<Rightarrow> sender_error option \<Rightarrow> sent_log" where
  "logged agent_id hostname diff result res =
     (case (result, res) of
        (Inr (Some d), None) \<Rightarrow> [(diff, stamp_metric agent_id hostname d)]
      | _ \<Rightarrow> [])"

definition collect_result ::
  "(metric_data \<Rightarrow> 's \<Rightarrow> 's \<times> sender_error option) \<Rightarrow> string \<Rightarrow> string \<Rightarrow> collect_error + metric_data option \<Rightarrow> 's \<Rightarrow>
     sender_error option" where
  "collect_result send agent_id hostname result s =
     (case result of Inr (Some d) \<Rightarrow> snd (send (stamp_metric agent_id hostname d) s) | _ \<Rightarrow> None)"

inductive agent_run ::
  "json_decoders \<Rightarrow> string \<Rightarrow> string \<Rightarrow> string \<Rightarrow> batch_config \<Rightarrow> string \<Rightarrow> eqp_info_config \<Rightarrow>
     sent_log \<Rightarrow> system kafka_sender \<times> int \<Rightarrow> bool"
  for jd agent_id hostname addr cfg topic eqp where
  begin_run: "agent_run jd agent_id hostname addr cfg topic eqp []
      (new_kafka_sender (initial addr cfg) topic (Some eqp) grok_format_raw, 0)"
| collection: "agent_run jd agent_id hostname addr cfg topic eqp lg st \<Longrightarrow>
    st' = collect_once (kafka_send deliver_system jd diff) agent_id hostname now result st \<Longrightarrow>
    agent_run jd agent_id hostname addr cfg topic eqp
      (lg @ logged agent_id hostname diff result
         (collect_result (kafka_send deliver_system jd diff) agent_id hostname result (fst st))) st'"
| transport_step: "agent_run jd agent_id hostname addr cfg topic eqp lg (k, act) \<Longrightarrow>
    step (ks_transport k) t' \<Longrightarrow> sy_accepted t' = sy_accepted (ks_transport k) \<Longrightarrow>
    agent_run jd agent_id hostname addr cfg topic eqp lg (k\<lparr>ks_transport := t'\<rparr>, act)"
| close_sender: "agent_run jd agent_id hostname addr cfg topic eqp lg (k, act) \<Longrightarrow>
    agent_run jd agent_id hostname addr cfg topic eqp lg (fst (kafka_sender_close close_system k), act)"

section \<open>What the log says\<close>

text \<open>The records a log stands for.\<close>

definition log_records :: "json_decoders \<Rightarrow> eqp_info_config \<Rightarrow> sent_log \<Rightarrow> kafka_record list" where
  "log_records jd eqp lg = concat (map (\<lambda>(diff, d). records_of jd grok_format_raw eqp diff d) lg)"

lemma log_records_append [simp]: "log_records jd eqp (xs @ ys) = log_records jd eqp xs @ log_records jd eqp ys"
  by (simp add: log_records_def)

text \<open>The fields of the sender a run never changes.\<close>

definition sender_fixed :: "string \<Rightarrow> eqp_info_config \<Rightarrow> system kafka_sender \<Rightarrow> bool" where
  "sender_fixed topic eqp k = (ks_topic k = topic \<and> ks_eqp_info k = Some eqp \<and> ks_formatter k = grok_format_raw)"

lemma kafka_send_fixed:
  "sender_fixed topic eqp k \<Longrightarrow> sender_fixed topic eqp (fst (kafka_send deliver_system jd diff d k))"
  by (auto simp: sender_fixed_def kafka_send_def split: sum.splits prepare_error.splits prod.splits)

lemma kafka_send_steps: "step\<^sup>*\<^sup>* (ks_transport k) (ks_transport (fst (kafka_send deliver_system jd diff d k)))"
  using deliver_system_steps
  by (auto simp: kafka_send_def split: sum.splits prepare_error.splits prod.splits)

lemma deliver_system_error: "deliver_system topic rs s = (s', Some e) \<Longrightarrow> s' = s"
  by (auto simp: deliver_system_def Let_def split: sum.splits prod.splits if_splits)

lemma kafka_send_accepted:
  assumes "sender_fixed topic eqp k" and "kafka_send deliver_system jd diff d k = (k', res)"
  shows "sy_accepted (ks_transport k') = sy_accepted (ks_transport k) @
    (if res = None then tag topic (records_of jd grok_format_raw eqp diff d) else [])"
proof (cases res)
  case None
  then show ?thesis
    using kafkarest.send_success(1) [of jd diff d k k' eqp] assms by (auto simp: sender_fixed_def)
next
  case (Some e)
  then show ?thesis using assms(2)
    by (auto dest!: deliver_system_error simp: kafka_send_def split: sum.splits prepare_error.splits prod.splits if_splits)
qed

lemma collect_once_cases:
  "collect_once send a h now result st =
     (case result of Inr (Some d) \<Rightarrow>
        (fst (send (stamp_metric a h d) (fst st)),
         if snd (send (stamp_metric a h d) (fst st)) = None then unix_milli now else snd st)
      | _ \<Rightarrow> st)"
  by (auto simp: collect_once_def split: sum.splits option.splits prod.splits)

lemma close_system_steps:
  "step\<^sup>*\<^sup>* (ks_transport k) (ks_transport (fst (kafka_sender_close close_system k)))"
proof (cases "ks_closed k")
  case False
  let ?s = "ks_transport k"
  let ?s1 = "?s\<lparr>sy_t := close_locked (sy_t ?s)\<rparr>"
  have one: "step\<^sup>*\<^sup>* ?s ?s1"
  proof (cases "bt_closed (sy_t ?s)")
    case True
    then have "close_locked (sy_t ?s) = sy_t ?s" by (simp add: close_locked_def)
    then show ?thesis by simp
  qed (blast intro: step.close_lock)
  let ?s2 = "?s1\<lparr>sy_t := close_stop (sy_t ?s1)\<rparr>"
  have two: "step\<^sup>*\<^sup>* ?s1 ?s2"
  proof (cases "bt_stop (sy_t ?s1)")
    case True
    then have "close_stop (sy_t ?s1) = sy_t ?s1" by (simp add: close_stop_def)
    then have "?s2 = ?s1" by simp
    then show ?thesis by simp
  next
    case False
    then have "step ?s1 ?s2" by (intro step.close_signal) simp_all
    then show ?thesis by blast
  qed
  show ?thesis using False rtranclp_trans [OF one two]
    by (simp add: kafka_sender_close_def close_system_def)
qed (simp add: kafka_sender_close_def)

text \<open>The transport is in a reachable state and has accepted exactly what the log stands for.\<close>

lemma agent_run_invariant:
  "agent_run jd agent_id hostname addr cfg topic eqp lg st \<Longrightarrow>
     sender_fixed topic eqp (fst st) \<and> reachable addr cfg (ks_transport (fst st)) \<and>
     sy_accepted (ks_transport (fst st)) = tag topic (log_records jd eqp lg)"
proof (induction rule: agent_run.induct)
  case begin_run
  have "sy_accepted (initial addr cfg) = []" by (simp add: initial_def)
  then show ?case
    by (simp add: sender_fixed_def new_kafka_sender_def reachable.start log_records_def)
next
  case (collection lg st st' diff now result)
  show ?case
  proof (cases "\<exists>d. result = Inr (Some d)")
    case True
    then obtain d where d: "result = Inr (Some d)" by blast
    obtain k' res where send: "kafka_send deliver_system jd diff (stamp_metric agent_id hostname d) (fst st) = (k', res)"
      by fastforce
    have st': "fst st' = k'" using collection.hyps(2) d send by (simp add: collect_once_cases)
    have acc: "sy_accepted (ks_transport k') = sy_accepted (ks_transport (fst st)) @
        (if res = None then tag topic (records_of jd grok_format_raw eqp diff (stamp_metric agent_id hostname d)) else [])"
      using kafka_send_accepted collection.IH send by blast
    have lg: "logged agent_id hostname diff result (collect_result (kafka_send deliver_system jd diff) agent_id hostname result (fst st))
        = (if res = None then [(diff, stamp_metric agent_id hostname d)] else [])"
      using d send by (simp add: logged_def collect_result_def split: option.splits)
    have "sender_fixed topic eqp k'"
      using kafka_send_fixed [of topic eqp "fst st" jd diff "stamp_metric agent_id hostname d"] collection.IH send by simp
    moreover have "reachable addr cfg (ks_transport k')"
      using kafka_send_steps [of "fst st" jd diff "stamp_metric agent_id hostname d"] collection.IH send
      by (auto intro: reachable_steps)
    ultimately show ?thesis using acc collection.IH st' by (simp add: lg log_records_def)
  next
    case False
    then have "st' = st" "logged agent_id hostname diff result r = []" for r
      using collection.hyps(2) by (auto simp: collect_once_cases logged_def split: sum.splits option.splits)
    then show ?thesis using collection.IH by simp
  qed
next
  case (transport_step lg k act t')
  then show ?case by (auto simp: sender_fixed_def intro: reachable.step)
next
  case (close_sender lg k act)
  have "sy_accepted (ks_transport (fst (kafka_sender_close close_system k))) = sy_accepted (ks_transport k)"
    using kafkarest_sender.close_output by simp
  then show ?case
    using close_sender.IH reachable_steps [OF close_system_steps]
    by (auto simp: sender_fixed_def kafka_sender_close_def close_system_def)
qed

lemma logged_stamped:
  "agent_run jd agent_id hostname addr cfg topic eqp lg st \<Longrightarrow>
     list_all (\<lambda>(diff, d). md_agent_id d = agent_id \<and> md_hostname d = hostname) lg"
  by (induction rule: agent_run.induct) (auto simp: logged_def stamp_metric_def split: sum.splits option.splits)

lemma subseq_first: "subseq (xs @ ys) zs \<Longrightarrow> subseq xs zs"
  by (rule subseq_order.trans [OF _ _]) (auto intro: list_emb_prefix)

lemma subseq_subset: "subseq xs ys \<Longrightarrow> set xs \<subseteq> set ys"
  by (induction rule: list_emb.induct) auto

lemma tagged_topic: "\<forall>p \<in> set xs. fst p = t \<Longrightarrow> of_topic t xs = xs"
  by (simp add: of_topic_def)

lemma tag_fst: "p \<in> set (tag t rs) \<Longrightarrow> fst p = t"
  by (auto simp: tag_def)

text \<open>What has left for the proxy is in the log, in order.\<close>

lemma delivered_in_order:
  assumes "agent_run jd agent_id hostname addr cfg topic eqp lg st" and "0 \<le> bc_max_buffered_records cfg"
  shows "subseq (sy_delivered (ks_transport (fst st))) (tag topic (log_records jd eqp lg))"
proof -
  let ?s = "ks_transport (fst st)"
  note inv = agent_run_invariant [OF assms(1)]
  note ok = reachable_invariants [OF conjunct1 [OF conjunct2 [OF inv]] assms(2)]
  have "mset (sy_delivered ?s) \<subseteq># mset (sy_accepted ?s)"
    using ok by (simp add: ledger_ok_def)
  then have "set (sy_delivered ?s) \<subseteq> set (tag topic (log_records jd eqp lg))"
    using inv by (metis set_mset_mono set_mset_mset)
  then have "of_topic topic (sy_delivered ?s) = sy_delivered ?s"
    by (intro tagged_topic) (auto dest: tag_fst)
  moreover have "of_topic topic (sy_accepted ?s) = tag topic (log_records jd eqp lg)"
    using inv by simp
  moreover have "subseq (of_topic topic (sy_delivered ?s @ in_flight (sy_loop ?s) @ tag_entries (bt_buffer (sy_t ?s))))
      (of_topic topic (sy_accepted ?s))"
    using ok by (simp add: fifo_ok_def)
  ultimately show ?thesis by (auto dest: subseq_first)
qed

section \<open>Properties\<close>

text \<open>A run in which one metric is collected and sent.\<close>

definition sample_run :: "system kafka_sender \<times> int" where
  "sample_run = collect_once (kafka_send deliver_system no_decoders 0) ''E1'' ''host'' (md_timestamp sample_metric)
     (Inr (Some sample_metric)) (new_kafka_sender (initial ''h'' sample_config) ''tp'' (Some sample_eqp) grok_format_raw, 0)"

lemma sample_run_reached:
  "\<exists>lg. agent_run no_decoders ''E1'' ''host'' ''h'' sample_config ''tp'' sample_eqp lg sample_run"
  using agent_run.collection [OF agent_run.begin_run sample_run_def] by blast




text \<open>The same run; the timer takes the buffer and the first batch is acknowledged.\<close>

lemma flush_first_batch:
  assumes "sy_loop s = Idle" and "bt_buffer (sy_t s) = [\<lparr>be_topic = t, be_records = r # rs\<rparr>]"
    and "0 < bc_max_batch_size (bt_cfg (sy_t s))" and "send_batch (bt_cfg (sy_t s)) posts = (True, n)"
  shows "\<exists>s1 s2. step s s1 \<and> step s1 s2 \<and> sy_accepted s1 = sy_accepted s \<and> sy_accepted s2 = sy_accepted s \<and>
    (t, r) \<in> set (sy_delivered s2)"
proof -
  let ?gs = "group_by_topic (bt_buffer (sy_t s))"
  obtain t' where t': "take_buffer (sy_t s) = (bt_buffer (sy_t s), t')" "bt_cfg t' = bt_cfg (sy_t s)"
    using assms(2) by (simp add: take_buffer_def)
  have gs: "?gs = [(t, r # rs)]" using assms(2) by (simp add: group_by_topic_def)
  obtain k where k: "nat (bc_max_batch_size (bt_cfg (sy_t s))) = Suc k"
    using assms(3) by (metis gr0_conv_Suc zero_less_nat_eq)
  obtain bs where bs: "flush_batches (bt_cfg t') ?gs = (t, r # take k rs) # bs"
    using assms(3) t'(2) k
    by (simp add: gs flush_batches_def batches_def split_batches.simps [of "Suc k" "r # rs"])
  let ?s1 = "start_flush ?gs False t' s"
  have one: "step s ?s1" using step.timer [OF assms(1) t'(1) refl] .
  let ?s2 = "?s1\<lparr>sy_loop := Sending bs False, sy_delivered := sy_delivered ?s1 @ tag t (r # take k rs)\<rparr>"
  have two: "step ?s1 ?s2"
    using step.sent [of ?s1 t "r # take k rs" bs False posts n] bs assms(4) t'(2) by (simp add: start_flush_def)
  have "(t, r) \<in> set (sy_delivered ?s2)" by (simp add: tag_def)
  moreover have "sy_accepted ?s1 = sy_accepted s" "sy_accepted ?s2 = sy_accepted s" by (simp_all add: start_flush_def)
  ultimately show ?thesis using one two by blast
qed

definition sample_sent :: "system kafka_sender" where
  "sample_sent = fst (kafka_send deliver_system no_decoders 0 (stamp_metric ''E1'' ''host'' sample_metric)
     (new_kafka_sender (initial ''h'' sample_config) ''tp'' (Some sample_eqp) grok_format_raw))"

lemma sample_row_count:
  "length (records_of no_decoders grok_format_raw sample_eqp 0 (stamp_metric ''E1'' ''host'' sample_metric)) \<in> {1, 2, 3}"
  by (simp add: records_of_def grok.prepare_records_eq stamp_metric_def sample_metric_def convert_to_ears_rows_def
      convert_uptime_def rows_of_def unmarshal_data_def Let_def)

lemma sample_sent_state:
  "\<exists>r rs. sy_loop (ks_transport sample_sent) = Idle \<and>
     bt_buffer (sy_t (ks_transport sample_sent)) = [\<lparr>be_topic = ''tp'', be_records = r # rs\<rparr>] \<and>
     bt_cfg (sy_t (ks_transport sample_sent)) = sample_config"
proof -
  let ?d = "stamp_metric ''E1'' ''host'' sample_metric"
  let ?rs = "records_of no_decoders grok_format_raw sample_eqp 0 ?d"
  obtain r rs where r: "?rs = r # rs" using sample_row_count by (cases ?rs) auto
  have len: "length ?rs \<le> 3" using sample_row_count by auto
  have prep: "prepare_records no_decoders grok_format_raw ?d (Some sample_eqp) 0 = Inr ?rs"
    using r by (auto simp: records_of_def split: sum.splits)
  have "deliver_system ''tp'' (r # rs) (initial ''h'' sample_config) =
      (let d = deliver_system ''tp'' (r # rs) (initial ''h'' sample_config) in d)" by simp
  have st: "ks_transport sample_sent = fst (deliver_system ''tp'' ?rs (initial ''h'' sample_config))"
    using prep r by (simp add: sample_sent_def kafka_send_def new_kafka_sender_def split: prod.splits)
  show ?thesis unfolding st using r len
    by (simp add: deliver_system_def deliver_locked_def accept_def deliver_after_def initial_def
      new_buffered_transport_def sample_config_def Let_def split: prod.splits)
qed

lemma sample_sent_result:
  "snd (kafka_send deliver_system no_decoders 0 (stamp_metric ''E1'' ''host'' sample_metric)
     (new_kafka_sender (initial ''h'' sample_config) ''tp'' (Some sample_eqp) grok_format_raw)) = None"
proof -
  let ?d = "stamp_metric ''E1'' ''host'' sample_metric"
  let ?rs = "records_of no_decoders grok_format_raw sample_eqp 0 ?d"
  have "prepare_records no_decoders grok_format_raw ?d (Some sample_eqp) 0 = Inr ?rs"
    using sample_row_count by (auto simp: records_of_def split: sum.splits)
  moreover have "?rs \<noteq> []" using sample_row_count by auto
  ultimately show ?thesis
    by (simp add: kafka_send_def deliver_system_def deliver_locked_def initial_def new_kafka_sender_def
      new_buffered_transport_def Let_def split: prod.splits)
qed

text \<open>A run whose log has one entry and whose proxy has acknowledged a record.\<close>

lemma sample_delivery:
  "\<exists>st p. agent_run no_decoders ''E1'' ''host'' ''h'' sample_config ''tp'' sample_eqp
      [(0, stamp_metric ''E1'' ''host'' sample_metric)] st \<and> p \<in> set (sy_delivered (ks_transport (fst st)))"
proof -
  let ?lg = "[(0, stamp_metric ''E1'' ''host'' sample_metric)]"
  obtain r rs where st: "sy_loop (ks_transport sample_sent) = Idle"
    "bt_buffer (sy_t (ks_transport sample_sent)) = [\<lparr>be_topic = ''tp'', be_records = r # rs\<rparr>]"
    "bt_cfg (sy_t (ks_transport sample_sent)) = sample_config" using sample_sent_state by blast
  have "send_batch (bt_cfg (sy_t (ks_transport sample_sent))) (\<lambda>i. Response 200) = (True, 1)"
    by (simp add: st(3) sample_config_def send_batch_def send_attempts.simps do_post_def)
  then obtain s1 s2 where two: "step (ks_transport sample_sent) s1" "step s1 s2"
    "sy_accepted s1 = sy_accepted (ks_transport sample_sent)"
    "sy_accepted s2 = sy_accepted (ks_transport sample_sent)" "(''tp'', r) \<in> set (sy_delivered s2)"
    using flush_first_batch [OF st(1,2), of "\<lambda>i. Response 200" 1] by (auto simp: st(3) sample_config_def)
  obtain act where r0: "agent_run no_decoders ''E1'' ''host'' ''h'' sample_config ''tp'' sample_eqp ?lg (sample_sent, act)"
    using agent_run.collection [OF agent_run.begin_run refl, of no_decoders "''E1''" "''host''" "''h''" sample_config
        "''tp''" sample_eqp 0 "Inr (Some sample_metric)" "md_timestamp sample_metric"] sample_sent_result
    by (auto simp: collect_once_cases collect_result_def logged_def sample_sent_def)
  from agent_run.transport_step [OF r0 two(1,3)]
  have r1: "agent_run no_decoders ''E1'' ''host'' ''h'' sample_config ''tp'' sample_eqp ?lg
      (sample_sent\<lparr>ks_transport := s1\<rparr>, act)" .
  from agent_run.transport_step [OF r1, of s2] two
  show ?thesis by fastforce
qed


end
