(* ===== verification/LhmProvider.thy ===== *)
theory LhmProvider
  imports Sensors GoStd "HOL-Library.Word"
begin

text \<open>
  \<open>internal/collector/lhm_provider_windows.go\<close> and its Unix stub: the helper process that reads the
  hardware sensors, its cache, its restarts and their backoff.  The answers of the operating system
  and of the helper are the arguments \<open>launch_outcome\<close> and \<open>request_outcome\<close>; time is in nanoseconds.  The
  mutex is held during a whole call except while \<open>restartWithBackoff\<close> sleeps, so that a call is one step,
  or two steps around its sleep, of the relation \<open>lhm_step\<close>.
\<close>

section \<open>The provider\<close>

text \<open>
  A started helper is a number, the generation, which also stands for its pipes.  \<open>lp_running\<close> are the
  processes that have not exited, \<open>lp_leaked\<close> the generations whose pipes a worker goroutine left behind
  by \<open>killAndDrain\<close> may still read.
\<close>

record lhm_provider =
  lp_data :: "lhm_data option"
  lp_last_update :: "int option"
  lp_cache_ttl :: int
  lp_helper_path :: "string option"
  lp_process :: "nat option"
  lp_next :: nat
  lp_running :: "nat set"
  lp_leaked :: "nat set"
  lp_failures :: nat
  lp_last_start :: "int option"
  lp_timeouts :: nat
  lp_started :: bool

definition get_lhm_provider :: lhm_provider where
  "get_lhm_provider =
     \<lparr>lp_data = None, lp_last_update = None, lp_cache_ttl = 5 * 10 ^ 9, lp_helper_path = None, lp_process = None,
      lp_next = 0, lp_running = {}, lp_leaked = {}, lp_failures = 0, lp_last_start = None, lp_timeouts = 0,
      lp_started = False\<rparr>"

definition empty_lhm_data :: lhm_data where
  "empty_lhm_data =
     \<lparr>lhm_sensors = [], lhm_fans = [], lhm_gpus = [], lhm_storages = [], lhm_voltages = [],
      lhm_motherboard_temps = [], lhm_error = []\<rparr>"

definition set_cache_ttl :: "int \<Rightarrow> lhm_provider \<Rightarrow> lhm_provider" where
  "set_cache_ttl ttl p = p\<lparr>lp_cache_ttl := ttl\<rparr>"

definition invalidate :: "lhm_provider \<Rightarrow> lhm_provider" where
  "invalidate p = p\<lparr>lp_data := None, lp_last_update := None\<rparr>"

text \<open>\<open>time.Since\<close>: saturated at the largest duration for the zero time.\<close>

definition time_since :: "int option \<Rightarrow> int \<Rightarrow> int" where
  "time_since t now = (case t of None \<Rightarrow> 2 ^ 63 - 1 | Some u \<Rightarrow> now - u)"

section \<open>One request\<close>

datatype lhm_error =
    Pipes_Unavailable | Request_Io | Request_Cancelled | Request_Timed_Out | Helper_Reported string
  | Pipe_Creation | Exec_Failed | Initial_Failed lhm_error | Initial_Reported string
  | Restart_Cancelled | Stopped_During_Backoff | Restart_Failed nat lhm_error | Request_Failed lhm_error
  | Helper_Not_Found | Start_Failed lhm_error

text \<open>
  What the race in \<open>doRequestWithTimeout\<close> comes to.  \<open>Io_Failed\<close> is any error the worker reports, parse
  errors included.  On a cancellation or timeout \<open>killed\<close> says whether the process went away and \<open>drained\<close>
  whether the worker unwound within the two seconds.
\<close>

datatype request_outcome =
  Answered lhm_data | Io_Failed | Cancelled (killed: bool) (drained: bool) | Timed_Out (killed: bool) (drained: bool)

definition kill_and_drain :: "nat \<Rightarrow> bool \<Rightarrow> bool \<Rightarrow> lhm_provider \<Rightarrow> lhm_provider" where
  "kill_and_drain g kill_ok drain_ok p =
     p\<lparr>lp_running := (if kill_ok then lp_running p - {g} else lp_running p),
       lp_leaked := (if drain_ok then lp_leaked p else insert g (lp_leaked p))\<rparr>"

definition do_request :: "request_outcome \<Rightarrow> lhm_provider \<Rightarrow> lhm_provider \<times> (lhm_error + lhm_data)" where
  "do_request r p =
     (case lp_process p of
        None \<Rightarrow> (p, Inl Pipes_Unavailable)
      | Some g \<Rightarrow>
          (case r of
             Answered d \<Rightarrow> (p\<lparr>lp_timeouts := 0\<rparr>, Inr d)
           | Io_Failed \<Rightarrow> (p, Inl Request_Io)
           | Cancelled k d \<Rightarrow> (kill_and_drain g k d p, Inl Request_Cancelled)
           | Timed_Out k d \<Rightarrow>
               (kill_and_drain g k d (p\<lparr>lp_timeouts := Suc (lp_timeouts p)\<rparr>), Inl Request_Timed_Out)))"

section \<open>Starting and stopping the process\<close>

text \<open>\<open>stopProcess\<close> returns when the process has exited, by itself or killed.\<close>

definition stop_process :: "lhm_provider \<Rightarrow> lhm_provider" where
  "stop_process p =
     (case lp_process p of
        None \<Rightarrow> p
      | Some g \<Rightarrow> p\<lparr>lp_process := None, lp_running := lp_running p - {g}\<rparr>)"

datatype launch_outcome = No_Pipe | No_Exec | Launched request_outcome

definition start_process :: "launch_outcome \<Rightarrow> int \<Rightarrow> lhm_provider \<Rightarrow> lhm_provider \<times> lhm_error option" where
  "start_process l now p =
     (case l of
        No_Pipe \<Rightarrow> (p, Some Pipe_Creation)
      | No_Exec \<Rightarrow> (p, Some Exec_Failed)
      | Launched r \<Rightarrow>
          (let p1 = p\<lparr>lp_process := Some (lp_next p), lp_next := Suc (lp_next p),
                      lp_running := insert (lp_next p) (lp_running p), lp_timeouts := 0\<rparr> in
           case do_request r p1 of
             (p2, Inl e) \<Rightarrow> (stop_process p2, Some (Initial_Failed e))
           | (p2, Inr d) \<Rightarrow>
               if lhm_error d \<noteq> [] then (stop_process p2, Some (Initial_Reported (lhm_error d)))
               else (p2\<lparr>lp_data := Some d, lp_last_update := Some now, lp_failures := 0\<rparr>, None)))"

definition is_process_alive :: "lhm_provider \<Rightarrow> bool" where
  "is_process_alive p = (case lp_process p of None \<Rightarrow> False | Some g \<Rightarrow> g \<in> lp_running p)"

text \<open>
  \<open>findLhmHelper\<close>: the places it looks at, with \<open>filepath.Join\<close> and the directory of the executable, if
  that is known, as parameters, and the first of them that \<open>exec.LookPath\<close> finds.
\<close>

definition lhm_candidates :: "(string list \<Rightarrow> string) \<Rightarrow> string option \<Rightarrow> string list" where
  "lhm_candidates join exe_dir =
     [''LhmHelper.exe'', ''./LhmHelper.exe'', join [''.'', ''utils'', ''LhmHelper.exe''],
      join [''.'', ''utils'', ''lhm-helper'', ''LhmHelper.exe'']] @
     (case exe_dir of
        None \<Rightarrow> []
      | Some d \<Rightarrow>
          [join [d, ''LhmHelper.exe''], join [d, ''utils'', ''LhmHelper.exe''],
           join [d, ''utils'', ''lhm-helper'', ''LhmHelper.exe''],
           join [d, ''..'', ''..'', ''utils'', ''lhm-helper'', ''LhmHelper.exe'']]) @
     map (join_with (CHR 0x5C))
       [[''C:'', ''Program Files'', ''ResourceAgent'', ''LhmHelper.exe''],
        [''C:'', ''Program Files'', ''ResourceAgent'', ''utils'', ''LhmHelper.exe''],
        [''C:'', ''Program Files'', ''ResourceAgent'', ''utils'', ''lhm-helper'', ''LhmHelper.exe'']]"

definition find_lhm_helper ::
  "(string list \<Rightarrow> string) \<Rightarrow> string option \<Rightarrow> (string \<Rightarrow> string option) \<Rightarrow> string option" where
  "find_lhm_helper join exe_dir look_path =
     (case filter (\<lambda>c. look_path c \<noteq> None) (lhm_candidates join exe_dir) of [] \<Rightarrow> None | c # cs \<Rightarrow> look_path c)"

definition lhm_start :: "string option \<Rightarrow> launch_outcome \<Rightarrow> int \<Rightarrow> lhm_provider \<Rightarrow> lhm_provider \<times> lhm_error option" where
  "lhm_start found l now p =
     (if lp_started p then (p, None)
      else case (case lp_helper_path p of None \<Rightarrow> found | Some path \<Rightarrow> Some path) of
        None \<Rightarrow> (p, Some Helper_Not_Found)
      | Some path \<Rightarrow>
          (case start_process l now (p\<lparr>lp_helper_path := Some path, lp_started := True\<rparr>) of
             (p1, None) \<Rightarrow> (p1, None)
           | (p1, Some e) \<Rightarrow> (p1\<lparr>lp_started := False\<rparr>, Some (Start_Failed e))))"

text \<open>\<open>diagnoseStartupFailure\<close>: whether the hint is appended to an error with this text.\<close>

definition diagnose_startup_failure :: "string \<Rightarrow> bool" where
  "diagnose_startup_failure text =
     (let msg = to_lower text in
      contains msg ''pipe is being closed'' \<or> contains msg ''broken pipe'' \<or>
      contains msg ''file already closed'' \<or> contains msg ''initial collection failed'')"

definition lhm_stop :: "lhm_provider \<Rightarrow> lhm_provider" where
  "lhm_stop p = (if \<not> lp_started p then p else stop_process (p\<lparr>lp_started := False\<rparr>))"

section \<open>Backoff\<close>

text \<open>
  The wait before a restart.  \<open>1 << n\<close> is a shift of a 64-bit \<open>int\<close>, and a \<open>Duration\<close> is one too.
\<close>

definition backoff :: "nat \<Rightarrow> int" where
  "backoff n =
     (let s = sint (push_bit n (1 :: 64 word));
          s' = (if s > 60 then 60 else s)
      in sint (word_of_int s' * word_of_int 1000000000 :: 64 word))"

text \<open>What \<open>restartWithBackoff\<close> does once it need not wait any more.\<close>

definition restart_now :: "launch_outcome \<Rightarrow> int \<Rightarrow> int \<Rightarrow> lhm_provider \<Rightarrow> lhm_provider \<times> lhm_error option" where
  "restart_now l attempt now p =
     (case start_process l now (stop_process (p\<lparr>lp_last_start := Some attempt\<rparr>)) of
        (p1, None) \<Rightarrow> (p1, None)
      | (p1, Some e) \<Rightarrow> (p1\<lparr>lp_failures := Suc (lp_failures p1)\<rparr>, Some (Restart_Failed (Suc (lp_failures p1)) e)))"

section \<open>GetData\<close>

text \<open>
  \<open>clock\<close> gives the times the call reads, in order: 0 for the age of the cache, 1 for the backoff, 2 for
  the start attempt, 3 after the first request to a new helper, 4 after the request.
\<close>

definition refresh :: "request_outcome \<Rightarrow> int \<Rightarrow> lhm_provider \<Rightarrow> lhm_provider \<times> (lhm_error + lhm_data)" where
  "refresh r now p =
     (case do_request r p of
        (p1, Inl e) \<Rightarrow> (stop_process (p1\<lparr>lp_failures := Suc (lp_failures p1)\<rparr>), Inl (Request_Failed e))
      | (p1, Inr d) \<Rightarrow>
          if lhm_error d \<noteq> [] then (p1, Inl (Helper_Reported (lhm_error d)))
          else (p1\<lparr>lp_data := Some d, lp_last_update := Some now, lp_failures := 0\<rparr>, Inr d))"

definition restart_and_refresh ::
  "launch_outcome \<Rightarrow> request_outcome \<Rightarrow> (nat \<Rightarrow> int) \<Rightarrow> lhm_provider \<Rightarrow> lhm_provider \<times> (lhm_error + lhm_data)" where
  "restart_and_refresh l r clock p =
     (case restart_now l (clock 2) (clock 3) p of
        (p1, Some e) \<Rightarrow> (p1, Inl e)
      | (p1, None) \<Rightarrow> refresh r (clock 4) p1)"

text \<open>A call up to its end or, with the time to wait, up to its sleep.\<close>

datatype call_state = Returned "lhm_error + lhm_data" | Sleeps int

definition get_stale ::
  "launch_outcome \<Rightarrow> request_outcome \<Rightarrow> (nat \<Rightarrow> int) \<Rightarrow> lhm_provider \<Rightarrow> lhm_provider \<times> call_state" where
  "get_stale l r clock p =
     (if is_process_alive p then apsnd Returned (refresh r (clock 4) p)
      else
        (let elapsed = time_since (lp_last_start p) (clock 1); b = backoff (lp_failures p) in
         if elapsed < b then (p, Sleeps (b - elapsed))
         else apsnd Returned (restart_and_refresh l r clock p)))"

definition get_data ::
  "launch_outcome \<Rightarrow> request_outcome \<Rightarrow> (nat \<Rightarrow> int) \<Rightarrow> lhm_provider \<Rightarrow> lhm_provider \<times> call_state" where
  "get_data l r clock p =
     (if \<not> lp_started p then (p, Returned (Inr empty_lhm_data))
      else case lp_data p of
        Some d \<Rightarrow>
          if time_since (lp_last_update p) (clock 0) < lp_cache_ttl p then (p, Returned (Inr d))
          else get_stale l r clock p
      | None \<Rightarrow> get_stale l r clock p)"

text \<open>What a call does that has slept: the provider may have been stopped meanwhile.\<close>

definition after_sleep ::
  "launch_outcome \<Rightarrow> request_outcome \<Rightarrow> (nat \<Rightarrow> int) \<Rightarrow> lhm_provider \<Rightarrow> lhm_provider \<times> (lhm_error + lhm_data)" where
  "after_sleep l r clock p =
     (if \<not> lp_started p then (p, Inl Stopped_During_Backoff) else restart_and_refresh l r clock p)"

text \<open>The stub of the other platforms.\<close>

record lhm_provider_unix =
  lu_cache_ttl :: int

definition get_lhm_provider_unix :: lhm_provider_unix where
  "get_lhm_provider_unix = \<lparr>lu_cache_ttl = 5 * 10 ^ 9\<rparr>"

definition set_cache_ttl_unix :: "int \<Rightarrow> lhm_provider_unix \<Rightarrow> lhm_provider_unix" where
  "set_cache_ttl_unix ttl p = p\<lparr>lu_cache_ttl := ttl\<rparr>"

definition lhm_start_unix :: "lhm_provider_unix \<Rightarrow> lhm_provider_unix \<times> lhm_error option" where
  "lhm_start_unix p = (p, None)"

definition lhm_stop_unix :: "lhm_provider_unix \<Rightarrow> lhm_provider_unix" where
  "lhm_stop_unix p = p"

definition invalidate_unix :: "lhm_provider_unix \<Rightarrow> lhm_provider_unix" where
  "invalidate_unix p = p"

definition get_data_unix :: "lhm_provider_unix \<Rightarrow> lhm_error + lhm_data" where
  "get_data_unix p = Inr empty_lhm_data"

section \<open>Calls side by side\<close>

record lhm_system =
  ls_provider :: lhm_provider
  ls_now :: int
  ls_sleeping :: "int list"  \<comment> \<open>when the sleeping calls wake up\<close>

definition advance :: "lhm_provider \<Rightarrow> int \<Rightarrow> lhm_system \<Rightarrow> lhm_system" where
  "advance p now s = s\<lparr>ls_provider := p, ls_now := now\<rparr>"

text \<open>
  A sleeping call may end with \<open>Restart_Cancelled\<close> at any time, for its context is the agent's.  The last
  two steps are the operating system's: a helper exits, a worker left behind unwinds.
\<close>

inductive lhm_step :: "lhm_system \<Rightarrow> lhm_system \<Rightarrow> bool" where
  lhm_started: "ls_now s \<le> now \<Longrightarrow> lhm_start found l now (ls_provider s) = (p, res) \<Longrightarrow>
    lhm_step s (advance p now s)"
| lhm_stopped: "lhm_step s (s\<lparr>ls_provider := lhm_stop (ls_provider s)\<rparr>)"
| lhm_called: "mono clock \<Longrightarrow> ls_now s \<le> clock 0 \<Longrightarrow>
    get_data l r clock (ls_provider s) = (p, Returned res) \<Longrightarrow> lhm_step s (advance p (clock 4) s)"
| lhm_slept: "mono clock \<Longrightarrow> ls_now s \<le> clock 0 \<Longrightarrow>
    get_data l r clock (ls_provider s) = (p, Sleeps w) \<Longrightarrow>
    lhm_step s ((advance p (clock 1) s)\<lparr>ls_sleeping := ls_sleeping s @ [clock 1 + w]\<rparr>)"
| lhm_woken: "ls_sleeping s = xs @ w # ys \<Longrightarrow> mono clock \<Longrightarrow> ls_now s \<le> clock 0 \<Longrightarrow> w \<le> clock 2 \<Longrightarrow>
    after_sleep l r clock (ls_provider s) = (p, res) \<Longrightarrow>
    lhm_step s ((advance p (clock 4) s)\<lparr>ls_sleeping := xs @ ys\<rparr>)"
| lhm_cancelled: "ls_sleeping s = xs @ w # ys \<Longrightarrow> lhm_step s (s\<lparr>ls_sleeping := xs @ ys\<rparr>)"
| lhm_invalidated: "lhm_step s (s\<lparr>ls_provider := invalidate (ls_provider s)\<rparr>)"
| lhm_ttl: "lhm_step s (s\<lparr>ls_provider := set_cache_ttl ttl (ls_provider s)\<rparr>)"
| lhm_exited: "lhm_step s (s\<lparr>ls_provider := (ls_provider s)\<lparr>lp_running := lp_running (ls_provider s) - {g}\<rparr>\<rparr>)"
| lhm_unwound: "lhm_step s (s\<lparr>ls_provider := (ls_provider s)\<lparr>lp_leaked := lp_leaked (ls_provider s) - {g}\<rparr>\<rparr>)"

inductive lhm_reachable :: "lhm_system \<Rightarrow> bool" where
  lhm_initial: "lhm_reachable \<lparr>ls_provider = get_lhm_provider, ls_now = t0, ls_sleeping = []\<rparr>"
| lhm_advanced: "lhm_reachable s \<Longrightarrow> lhm_step s s' \<Longrightarrow> lhm_reachable s'"

section \<open>The invariant\<close>

definition lhm_ok :: "int \<Rightarrow> lhm_provider \<Rightarrow> bool" where
  "lhm_ok now p =
     ((\<forall>g \<in> lp_running p. lp_process p = Some g) \<and>
      (\<forall>g. lp_process p = Some g \<longrightarrow> lp_started p \<and> g < lp_next p \<and> g \<notin> lp_leaked p) \<and>
      (\<forall>g \<in> lp_leaked p. g < lp_next p) \<and>
      (\<forall>d. lp_data p = Some d \<longrightarrow> lhm_error d = [] \<and> (\<exists>t. lp_last_update p = Some t \<and> t \<le> now)))"

lemma lhm_ok_initial [inv_intros]: "lhm_ok now get_lhm_provider"
  by (simp add: lhm_ok_def get_lhm_provider_def)

lemma lhm_ok_later [inv_intros]: "lhm_ok now p \<Longrightarrow> now \<le> now' \<Longrightarrow> lhm_ok now' p"
  by (fastforce simp: lhm_ok_def)

lemma lhm_ok_simple [inv_intros]:
  "lhm_ok now p \<Longrightarrow> lhm_ok now (set_cache_ttl ttl p)"
  "lhm_ok now p \<Longrightarrow> lhm_ok now (invalidate p)"
  "lhm_ok now p \<Longrightarrow> lhm_ok now (p\<lparr>lp_running := lp_running p - {g}\<rparr>)"
  "lhm_ok now p \<Longrightarrow> lhm_ok now (p\<lparr>lp_leaked := lp_leaked p - {g}\<rparr>)"
  "lhm_ok now p \<Longrightarrow> lhm_ok now (p\<lparr>lp_failures := n\<rparr>)"
  "lhm_ok now p \<Longrightarrow> lhm_ok now (p\<lparr>lp_last_start := t\<rparr>)"
  by (auto simp: lhm_ok_def set_cache_ttl_def invalidate_def)

text \<open>
  A failed request may leave a worker at the current pipes; the process is stopped right after it.
  \<open>lhm_nearly\<close> is the invariant without the clause that this breaks.
\<close>

definition lhm_nearly :: "int \<Rightarrow> lhm_provider \<Rightarrow> bool" where
  "lhm_nearly now p =
     ((\<forall>g \<in> lp_running p. lp_process p = Some g) \<and>
      (\<forall>g. lp_process p = Some g \<longrightarrow> g < lp_next p) \<and> (\<forall>g \<in> lp_leaked p. g < lp_next p) \<and>
      (\<forall>d. lp_data p = Some d \<longrightarrow> lhm_error d = [] \<and> (\<exists>t. lp_last_update p = Some t \<and> t \<le> now)))"

lemma stop_process_ok [inv_intros]: "lhm_nearly now p \<Longrightarrow> lhm_ok now (stop_process p)"
  by (fastforce simp: lhm_nearly_def lhm_ok_def stop_process_def split: option.splits)

lemma lhm_ok_nearly [intro]: "lhm_ok now p \<Longrightarrow> lhm_nearly now p"
  by (fastforce simp: lhm_nearly_def lhm_ok_def)

lemma lhm_nearly_failures [simp]: "lhm_nearly now (p\<lparr>lp_failures := n\<rparr>) = lhm_nearly now p"
  by (simp add: lhm_nearly_def)

lemma lhm_nearly_started [simp]: "lhm_nearly now (p\<lparr>lp_started := b\<rparr>) = lhm_nearly now p"
  by (simp add: lhm_nearly_def)

lemma stop_process_fields [simp]:
  "lp_process (stop_process p) = None" "lp_started (stop_process p) = lp_started p"
  "lp_failures (stop_process p) = lp_failures p" "lp_last_start (stop_process p) = lp_last_start p"
  "lp_data (stop_process p) = lp_data p" "lp_last_update (stop_process p) = lp_last_update p"
  by (auto simp: stop_process_def split: option.splits)

lemma do_request_nearly:
  "lhm_nearly now p \<Longrightarrow> do_request r p = (p', res) \<Longrightarrow> lhm_nearly now p'"
  by (auto simp: do_request_def kill_and_drain_def lhm_nearly_def split: option.splits request_outcome.splits if_splits)

lemma do_request_ok:
  "lhm_ok now p \<Longrightarrow> do_request r p = (p', Inr d) \<Longrightarrow> lhm_ok now p'"
  by (auto simp: do_request_def lhm_ok_def split: option.splits request_outcome.splits)

lemma do_request_success:
  "do_request r p = (p', Inr d) \<longleftrightarrow>
     r = Answered d \<and> lp_process p \<noteq> None \<and> p' = p\<lparr>lp_timeouts := 0\<rparr>"
  by (auto simp: do_request_def split: option.splits request_outcome.splits)

lemma do_request_fields:
  "do_request r p = (p', res) \<Longrightarrow>
     lp_started p' = lp_started p \<and> lp_failures p' = lp_failures p \<and> lp_data p' = lp_data p \<and>
     lp_last_update p' = lp_last_update p \<and> lp_last_start p' = lp_last_start p \<and> lp_process p' = lp_process p"
  by (auto simp: do_request_def kill_and_drain_def split: option.splits request_outcome.splits)

lemma lhm_ok_cached:
  "lhm_ok now p \<Longrightarrow> lhm_error d = [] \<Longrightarrow> lhm_ok now (p\<lparr>lp_data := Some d, lp_last_update := Some now, lp_failures := 0\<rparr>)"
  by (simp add: lhm_ok_def)

lemma start_process_ok [inv_intros]:
  assumes ok: "lhm_ok now p" and "lp_started p" and "lp_process p = None" and "start_process l now p = (p', res)"
  shows "lhm_ok now p'"
proof (cases l)
  case (Launched r)
  define p1 where "p1 = p\<lparr>lp_process := Some (lp_next p), lp_next := Suc (lp_next p),
    lp_running := insert (lp_next p) (lp_running p), lp_timeouts := 0\<rparr>"
  have p1: "lhm_ok now p1"
    using ok assms(2,3) by (fastforce simp: lhm_ok_def p1_def less_Suc_eq)
  obtain p2 r2 where req: "do_request r p1 = (p2, r2)" by fastforce
  have "lhm_nearly now p2" using do_request_nearly [OF lhm_ok_nearly [OF p1] req] .
  moreover have "lhm_ok now p2" if "r2 = Inr d" for d using do_request_ok [OF p1] req that by blast
  ultimately show ?thesis
    using assms(4) Launched req
    by (auto simp: start_process_def Let_def simp flip: p1_def intro: stop_process_ok lhm_ok_cached
        split: sum.splits if_splits)
qed (use assms in \<open>auto simp: start_process_def\<close>)

lemma refresh_ok [inv_intros]: "lhm_ok now p \<Longrightarrow> refresh r now p = (p', res) \<Longrightarrow> lhm_ok now p'"
  by (auto simp: refresh_def intro!: stop_process_ok lhm_ok_cached dest: do_request_ok do_request_nearly [OF lhm_ok_nearly]
      split: prod.splits sum.splits if_splits)

lemma restart_and_refresh_ok [inv_intros]:
  assumes "lhm_ok now p" and "lp_started p" and "now \<le> clock 2" and "mono clock"
    and "restart_and_refresh l r clock p = (p', res)"
  shows "lhm_ok (clock 4) p'"
proof -
  have times: "now \<le> clock 3" "clock 3 \<le> clock 4"
    using assms(3,4) monoD [of clock 2 3] monoD [of clock 3 4] by simp_all
  let ?p0 = "stop_process (p\<lparr>lp_last_start := Some (clock 2)\<rparr>)"
  obtain p1 e where start: "start_process l (clock 3) ?p0 = (p1, e)" by fastforce
  have "lhm_ok (clock 3) ?p0"
    using assms(1) times(1) by (blast intro: inv_intros)
  then have p1: "lhm_ok (clock 4) p1"
    using start_process_ok [OF _ _ _ start] assms(2) lhm_ok_later times(2) by auto
  then show ?thesis
    using assms(5) start
    by (auto simp: restart_and_refresh_def restart_now_def intro: inv_intros split: option.splits)
qed

lemma get_stale_ok:
  assumes "lhm_ok now p" and "lp_started p" and "mono clock" and "now \<le> clock 0" and "get_stale l r clock p = (p', c)"
  shows "lhm_ok (case c of Returned _ \<Rightarrow> clock 4 | Sleeps _ \<Rightarrow> clock 1) p'"
proof -
  have times: "now \<le> clock 1" "now \<le> clock 2" "now \<le> clock 4"
    using assms(3,4) monoD [of clock 0 1] monoD [of clock 0 2] monoD [of clock 0 4] by simp_all
  show ?thesis
  proof (cases "is_process_alive p")
    case True
    then obtain res where "refresh r (clock 4) p = (p', res)" "c = Returned res"
      using assms(5) by (cases "refresh r (clock 4) p") (auto simp: get_stale_def)
    then show ?thesis using refresh_ok lhm_ok_later [OF assms(1) times(3)] by auto
  next
    case False
    show ?thesis
    proof (cases "time_since (lp_last_start p) (clock 1) < backoff (lp_failures p)")
      case True
      then show ?thesis using assms(5) False lhm_ok_later [OF assms(1) times(1)] by (auto simp: get_stale_def)
    next
      case wait: False
      then obtain res where "restart_and_refresh l r clock p = (p', res)" "c = Returned res"
        using assms(5) False by (cases "restart_and_refresh l r clock p") (auto simp: get_stale_def)
      then show ?thesis using restart_and_refresh_ok [OF assms(1,2) times(2) assms(3)] by auto
    qed
  qed
qed

lemma get_data_ok [inv_intros]:
  assumes "lhm_ok now p" and "mono clock" and "now \<le> clock 0" and "get_data l r clock p = (p', c)"
  shows "lhm_ok (case c of Returned _ \<Rightarrow> clock 4 | Sleeps _ \<Rightarrow> clock 1) p'"
proof -
  have "now \<le> clock 4" using assms(2,3) monoD [of clock 0 4] by simp
  from lhm_ok_later [OF assms(1) this] show ?thesis
    using assms get_stale_ok [OF assms(1) _ assms(2,3)]
    by (auto simp: get_data_def split: if_splits option.splits)
qed

lemma lhm_start_ok [inv_intros]:
  assumes "lhm_ok now p" and "lhm_start found l now p = (p', res)"
  shows "lhm_ok now p'"
proof (cases "lp_started p")
  case False
  then have none: "lp_process p = None" "lp_running p = {}"
    using assms(1) by (auto simp: lhm_ok_def)
  have "lhm_ok now (p\<lparr>lp_helper_path := x, lp_started := True\<rparr>)" for x
    using assms(1) none by (auto simp: lhm_ok_def)
  then have started: "lhm_ok now q"
    if "start_process l now (p\<lparr>lp_helper_path := x, lp_started := True\<rparr>) = (q, e)" for q x e
    using start_process_ok [OF _ _ _ that] none by simp
  moreover have "lhm_ok now (q\<lparr>lp_started := False\<rparr>)"
    if "start_process l now (p\<lparr>lp_helper_path := x, lp_started := True\<rparr>) = (q, Some e)" for q x e
  proof -
    have "lp_process q = None"
      using that none by (auto simp: start_process_def Let_def split: launch_outcome.splits prod.splits sum.splits if_splits)
    then show ?thesis using started [OF that] by (auto simp: lhm_ok_def)
  qed
  ultimately show ?thesis
    using assms none False
    by (auto simp: lhm_start_def split: option.splits prod.splits)
qed (use assms in \<open>simp add: lhm_start_def\<close>)

lemma lhm_stop_ok [inv_intros]: "lhm_ok now p \<Longrightarrow> lhm_ok now (lhm_stop p)"
  by (auto simp: lhm_stop_def intro!: stop_process_ok)

lemma lhm_step_ok:
  assumes "lhm_step s s'" and ok: "lhm_ok (ls_now s) (ls_provider s)"
  shows "lhm_ok (ls_now s') (ls_provider s')"
  using assms(1)
proof cases
  case (lhm_called clock l r p res)
  then show ?thesis using get_data_ok [OF ok lhm_called(2,3,4)] by (simp add: advance_def)
next
  case (lhm_slept clock l r p w)
  then show ?thesis using get_data_ok [OF ok lhm_slept(2,3,4)] by (simp add: advance_def)
next
  case (lhm_woken xs w ys clock l r p res)
  have "ls_now s \<le> clock 2" "ls_now s \<le> clock 4"
    using lhm_woken(3,4) monoD [of clock 0 2] monoD [of clock 0 4] by simp_all
  then show ?thesis
    using lhm_woken ok restart_and_refresh_ok [OF ok, of clock l r p res]
    by (auto simp: advance_def after_sleep_def intro: lhm_ok_later split: if_splits)
qed (use ok in \<open>auto simp: advance_def intro: inv_intros\<close>)

lemma lhm_reachable_ok: "lhm_reachable s \<Longrightarrow> lhm_ok (ls_now s) (ls_provider s)"
  by (induction rule: lhm_reachable.induct) (auto intro: lhm_ok_initial lhm_step_ok)

section \<open>What a call returns\<close>

lemma start_process_success:
  "start_process l now p = (p', None) \<Longrightarrow> lp_process p' \<noteq> None \<and> lp_started p' = lp_started p"
  by (auto simp: start_process_def Let_def do_request_success split: launch_outcome.splits prod.splits sum.splits if_splits)

lemma start_process_failure:
  "start_process l now p = (p', Some e) \<Longrightarrow> lp_process p = None \<Longrightarrow>
     lp_process p' = None \<and> lp_started p' = lp_started p \<and> lp_failures p' = lp_failures p"
  by (auto simp: start_process_def Let_def dest!: do_request_fields
      split: launch_outcome.splits prod.splits sum.splits if_splits)

lemma refresh_success:
  "refresh r now p = (p', Inr d) \<longleftrightarrow>
     r = Answered d \<and> lhm_error d = [] \<and> lp_process p \<noteq> None \<and>
     p' = p\<lparr>lp_timeouts := 0, lp_data := Some d, lp_last_update := Some now, lp_failures := 0\<rparr>"
  by (cases "do_request r p") (auto simp: refresh_def do_request_def split: option.splits request_outcome.splits if_splits)

lemma refresh_failure:
  "refresh r now p = (p', Inl e) \<Longrightarrow>
     lp_started p' = lp_started p \<and>
     ((\<exists>m. m \<noteq> [] \<and> e = Helper_Reported m) \<or> lp_process p' = None \<and> lp_failures p' = Suc (lp_failures p))"
  by (auto simp: refresh_def dest!: do_request_fields split: prod.splits sum.splits if_splits)

lemma restart_and_refresh_success:
  "restart_and_refresh l r clock p = (p', Inr d) \<Longrightarrow>
     r = Answered d \<and> lhm_error d = [] \<and> lp_process p' \<noteq> None \<and> lp_data p' = Some d \<and>
     lp_last_update p' = Some (clock 4) \<and> lp_failures p' = 0 \<and> lp_started p' = lp_started p"
  by (auto simp: restart_and_refresh_def restart_now_def refresh_success dest!: start_process_success
      split: option.splits prod.splits)

lemma restart_and_refresh_failure:
  "restart_and_refresh l r clock p = (p', Inl e) \<Longrightarrow>
     lp_started p' = lp_started p \<and>
     ((\<exists>m. m \<noteq> [] \<and> e = Helper_Reported m) \<or> lp_process p' = None \<and> 0 < lp_failures p')"
  by (auto simp: restart_and_refresh_def restart_now_def dest!: start_process_success start_process_failure refresh_failure
      split: option.splits prod.splits)

section \<open>The backoff in numbers\<close>

lemma sint_two_power:
  "sint ((2 :: 64 word) ^ n) = (if n < 63 then 2 ^ n else if n = 63 then - (2 ^ 63) else 0)"
proof -
  have eq: "(2 :: 64 word) ^ n = word_of_int (2 ^ n)" by simp
  consider "n < 63" | "n = 63" | "64 \<le> n" by linarith
  then show ?thesis
  proof cases
    case 1
    then have "(2::int) ^ n < 2 ^ 63" by (intro power_strict_increasing) auto
    moreover have "- (2 ^ 63) \<le> (2::int) ^ n" by (rule order_trans [OF _ zero_le_power]) simp_all
    ultimately have "signed_take_bit 63 ((2::int) ^ n) = 2 ^ n"
      by (simp add: signed_take_bit_int_eq_self_iff)
    then show ?thesis using 1 by (simp only: eq sint_sbintrunc') simp
  next
    case 2
    then show ?thesis by simp
  next
    case 3
    then have "(2::int) ^ 64 dvd 2 ^ n" by (rule le_imp_power_dvd)
    then have "word_of_int (2 ^ n) = (0 :: 64 word)"
      using 3 by (simp add: word_of_int_eq_0_iff)
    then show ?thesis using 3 by (simp only: eq) simp
  qed
qed

lemma backoff_eq: "backoff n = (if n < 63 then min (2 ^ n) 60 * 1000000000 else 0)"
proof -
  consider "n < 6" | "6 \<le> n" "n < 63" | "n = 63" | "63 < n" by linarith
  then show ?thesis
  proof cases
    case 1
    then have "n \<in> {0, 1, 2, 3, 4, 5}" by auto
    then show ?thesis by (auto simp: backoff_def Let_def)
  next
    case 2
    have "(2::int) ^ 6 \<le> 2 ^ n" using 2(1) by (intro power_increasing) auto
    then have "sint (push_bit n (1 :: 64 word)) > 60" using 2(2) by (simp add: sint_two_power)
    then have "backoff n = 60 * 1000000000" by (simp add: backoff_def Let_def)
    then show ?thesis using 2 \<open>2 ^ 6 \<le> 2 ^ n\<close> by simp
  next
    case 3
    then show ?thesis by (simp add: backoff_def Let_def)
  next
    case 4
    then have "sint (push_bit n (1 :: 64 word)) = 0" by (simp add: sint_two_power)
    then show ?thesis using 4 by (simp add: backoff_def Let_def)
  qed
qed

lemma backoff_le: "backoff n \<le> 60 * 10 ^ 9"
  by (simp add: backoff_eq)

section \<open>Properties\<close>

definition sample_answer :: lhm_data where
  "sample_answer = empty_lhm_data\<lparr>lhm_fans := [\<lparr>lf_name = ''CPU Fan'', lf_rpm = f64_of_int 900\<rparr>]\<rparr>"

definition sample_helper :: lhm_provider where
  "sample_helper = fst (lhm_start (Some ''LhmHelper.exe'') (Launched (Answered sample_answer)) 0 get_lhm_provider)"

lemma sample_answer_simps [simp]: "lhm_error sample_answer = []" "lhm_error empty_lhm_data = []"
  by (simp_all add: sample_answer_def empty_lhm_data_def)

lemma sample_helper_eq:
  "sample_helper = get_lhm_provider\<lparr>lp_helper_path := Some ''LhmHelper.exe'', lp_started := True, lp_process := Some 0,
     lp_next := 1, lp_running := {0}, lp_data := Some sample_answer, lp_last_update := Some 0\<rparr>"
  by (simp add: sample_helper_def lhm_start_def get_lhm_provider_def start_process_def do_request_def Let_def)

definition sample_lhm :: "lhm_provider \<Rightarrow> int \<Rightarrow> int list \<Rightarrow> lhm_system" where
  "sample_lhm p now ws = \<lparr>ls_provider = p, ls_now = now, ls_sleeping = ws\<rparr>"

lemma sample_lhm_started: "lhm_reachable (sample_lhm sample_helper 0 [])"
  using lhm_advanced [OF lhm_initial lhm_started, of 0 0 "Some ''LhmHelper.exe''" "Launched (Answered sample_answer)" sample_helper None]
  by (simp add: sample_helper_def sample_lhm_def advance_def lhm_start_def get_lhm_provider_def start_process_def
      do_request_def Let_def)

text \<open>C23 In every state, between any of the calls that collectors make side by side and whatever the helper
  and the operating system do: at most one helper process runs, and it is the one whose pipes the
  provider holds; none runs once the provider is stopped; a worker goroutine that could not be drained
  belongs to an earlier helper, so it cannot read the answers of the current one; and the cache never
  holds an error answer.\<close>

theorem one_helper_at_a_time:
  assumes "lhm_reachable s"
  shows "lp_running (ls_provider s) \<subseteq> set_option (lp_process (ls_provider s)) \<and>
    (\<not> lp_started (ls_provider s) \<longrightarrow> lp_running (ls_provider s) = {} \<and> lp_process (ls_provider s) = None) \<and>
    lp_leaked (ls_provider s) \<inter> set_option (lp_process (ls_provider s)) = {} \<and>
    (\<forall>d. lp_data (ls_provider s) = Some d \<longrightarrow> lhm_error d = [])"
  using lhm_reachable_ok [OF assms] by (fastforce simp: lhm_ok_def)

theorem one_helper_at_a_time_witness:
  "lp_running (ls_provider (sample_lhm sample_helper 0 [])) = {0} \<and>
   lp_leaked (ls_provider (sample_lhm sample_helper 0 [])) \<inter> {0} = {}"
  using one_helper_at_a_time [OF sample_lhm_started] by (simp add: sample_helper_eq sample_lhm_def)

lemma apsnd_Returned [simp]: "apsnd Returned x = (p, Returned res) \<longleftrightarrow> x = (p, res)"
  by (cases x) auto

lemma get_stale_returns:
  assumes "get_stale l r clock p = (p', Returned res)"
  shows "lp_started p' = lp_started p \<and>
    (case res of
       Inr d \<Rightarrow> lhm_error d = [] \<and> r = Answered d \<and> lp_data p' = Some d \<and> lp_last_update p' = Some (clock 4) \<and>
         lp_failures p' = 0 \<and> lp_process p' \<noteq> None
     | Inl e \<Rightarrow> (\<exists>m. m \<noteq> [] \<and> e = Helper_Reported m) \<or> lp_process p' = None \<and> 0 < lp_failures p')"
proof (cases "is_process_alive p")
  case True
  then have "refresh r (clock 4) p = (p', res)" using assms by (simp add: get_stale_def)
  then show ?thesis by (cases res) (auto simp: refresh_success dest!: refresh_failure)
next
  case False
  then have "restart_and_refresh l r clock p = (p', res)"
    using assms by (simp add: get_stale_def Let_def split: if_splits)
  then show ?thesis by (cases res) (auto dest!: restart_and_refresh_success restart_and_refresh_failure)
qed



text \<open>C25 The helper always comes back: in every state of a started provider, however many failures it has
  counted, a single \<open>GetData\<close> made sixty seconds after the last start attempt or later does not wait, and
  if the helper then starts and answers, the collector has its data in that very call.\<close>

theorem helper_recovers:
  assumes "lhm_reachable s" and "lp_started (ls_provider s)"
    and "60 * 10 ^ 9 \<le> time_since (lp_last_start (ls_provider s)) (clock 1)"
    and "lhm_error d0 = []" and "lhm_error d = []"
  shows "\<exists>p' d'. get_data (Launched (Answered d0)) (Answered d) clock (ls_provider s) = (p', Returned (Inr d')) \<and>
    (d' = d \<or> lp_data (ls_provider s) = Some d')"
proof -
  let ?p = "ls_provider s"
  have refreshes: "\<exists>p'. refresh (Answered d) t p = (p', Inr d)" if "lp_process p \<noteq> None" for p t
    using that assms(5) refresh_success by blast
  have restarts: "\<exists>p1. restart_now (Launched (Answered d0)) t1 t2 p = (p1, None) \<and> lp_process p1 \<noteq> None" for t1 t2 p
    using assms(4) by (simp add: restart_now_def start_process_def do_request_def Let_def)
  have "\<not> time_since (lp_last_start ?p) (clock 1) < backoff (lp_failures ?p)"
    using assms(3) backoff_le [of "lp_failures ?p"] by simp
  moreover have "\<exists>p'. restart_and_refresh (Launched (Answered d0)) (Answered d) clock ?p = (p', Inr d)"
    using restarts [of "clock 2" "clock 3" ?p] refreshes by (fastforce simp: restart_and_refresh_def)
  moreover have "\<exists>p'. refresh (Answered d) (clock 4) ?p = (p', Inr d)" if "is_process_alive ?p"
    using refreshes that by (auto simp: is_process_alive_def split: option.splits)
  ultimately have "\<exists>p'. get_stale (Launched (Answered d0)) (Answered d) clock ?p = (p', Returned (Inr d))"
    by (auto simp: get_stale_def)
  then show ?thesis using assms(2) by (auto simp: get_data_def split: option.splits)
qed

theorem helper_recovers_witness:
  "\<exists>p' d'. get_data (Launched (Answered sample_answer)) (Answered empty_lhm_data) (\<lambda>_. 6 * 10 ^ 9) sample_helper =
     (p', Returned (Inr d')) \<and> (d' = empty_lhm_data \<or> d' = sample_answer)"
  using helper_recovers [OF sample_lhm_started, of "\<lambda>_. 6 * 10 ^ 9" sample_answer empty_lhm_data]
  by (simp add: sample_lhm_def sample_helper_eq get_lhm_provider_def time_since_def eq_commute)

text \<open>The wait before a restart grows as documented, 1, 2, 4, 8, 16, 32 seconds and then 60, but only up to
  62 failures in a row; from the 63rd on the shift has overflowed and there is no wait at all.\<close>

theorem backoff_exact:
  "backoff n = (if n < 63 then min (2 ^ n) 60 * 1000000000 else 0)"
  by (rule backoff_eq)

text \<open>
  A run: the helper exits; a restart at ten seconds fails, so two calls half a second later wait out
  the backoff of two seconds side by side.
\<close>

definition sample_failed :: lhm_provider where
  "sample_failed = sample_helper\<lparr>lp_running := {}, lp_process := None, lp_last_start := Some (10 * 10 ^ 9), lp_failures := 1\<rparr>"

definition sample_restarted :: lhm_provider where
  "sample_restarted = sample_failed\<lparr>lp_process := Some 1, lp_next := 2, lp_running := {1},
     lp_last_start := Some (12 * 10 ^ 9), lp_last_update := Some (12 * 10 ^ 9), lp_failures := 0\<rparr>"

lemmas lhm_defs = get_data_def get_stale_def restart_and_refresh_def restart_now_def start_process_def stop_process_def
  do_request_def refresh_def is_process_alive_def after_sleep_def time_since_def backoff_eq Let_def advance_def
  sample_lhm_def sample_helper_eq sample_failed_def sample_restarted_def get_lhm_provider_def

lemma sample_lhm_failed: "lhm_reachable (sample_lhm sample_failed (10 * 10 ^ 9) [])"
proof -
  have "lhm_reachable (sample_lhm (sample_helper\<lparr>lp_running := {}\<rparr>) 0 [])"
    using lhm_advanced [OF sample_lhm_started lhm_exited [of _ 0]] by (simp add: lhm_defs)
  moreover have "lhm_step (sample_lhm (sample_helper\<lparr>lp_running := {}\<rparr>) 0 []) (sample_lhm sample_failed (10 * 10 ^ 9) [])"
    using lhm_called [of "\<lambda>_. 10 * 10 ^ 9" "sample_lhm (sample_helper\<lparr>lp_running := {}\<rparr>) 0 []" No_Exec Io_Failed
        sample_failed "Inl (Restart_Failed 1 Exec_Failed)"]
    by (simp add: lhm_defs mono_def)
  ultimately show ?thesis by (rule lhm_advanced)
qed

lemma sample_lhm_sleeps:
  assumes "lhm_reachable (sample_lhm sample_failed t ws)" and "t \<le> 105 * 10 ^ 8"
  shows "lhm_reachable (sample_lhm sample_failed (105 * 10 ^ 8) (ws @ [12 * 10 ^ 9]))"
  using lhm_advanced [OF assms(1) lhm_slept, of "\<lambda>_. 105 * 10 ^ 8" No_Exec Io_Failed sample_failed "15 * 10 ^ 8"] assms(2)
  by (simp add: lhm_defs mono_def)

text \<open>A call that has waited for a restart does not look again: of several collectors waiting together,
  each restarts the helper when it wakes, also when the one before it has just started it successfully
  and filled the cache; a healthy helper with a fresh answer in the cache is stopped and replaced.\<close>

theorem woken_call_replaces_healthy_helper:
  "\<exists>s s'. lhm_reachable s \<and> lhm_step s s' \<and> is_process_alive (ls_provider s) \<and>
     time_since (lp_last_update (ls_provider s)) (ls_now s) < lp_cache_ttl (ls_provider s) \<and>
     lp_running (ls_provider s) = {1} \<and> lp_running (ls_provider s') = {2}"
proof -
  let ?ok = "Launched (Answered sample_answer)" and ?now = "\<lambda>_::nat. 12 * 10 ^ 9 :: int"
  let ?before = "sample_lhm sample_failed (105 * 10 ^ 8) [12 * 10 ^ 9, 12 * 10 ^ 9]"
  let ?s = "sample_lhm sample_restarted (12 * 10 ^ 9) [12 * 10 ^ 9]"
  let ?p' = "sample_restarted\<lparr>lp_process := Some 2, lp_next := 3, lp_running := {2}\<rparr>"
  have waiting: "lhm_reachable ?before"
    using sample_lhm_sleeps [OF sample_lhm_sleeps [OF sample_lhm_failed]] by simp
  have "lhm_step ?before ?s"
    using lhm_woken [of ?before "[]" "12 * 10 ^ 9" "[12 * 10 ^ 9]" ?now ?ok "Answered sample_answer" sample_restarted
        "Inr sample_answer"]
    by (simp add: lhm_defs mono_def)
  then have "lhm_reachable ?s" by (rule lhm_advanced [OF waiting])
  moreover have "lhm_step ?s (sample_lhm ?p' (12 * 10 ^ 9) [])"
    using lhm_woken [of ?s "[]" "12 * 10 ^ 9" "[]" ?now ?ok "Answered sample_answer" ?p' "Inr sample_answer"]
    by (simp add: lhm_defs mono_def)
  moreover have "is_process_alive (ls_provider ?s)" "lp_running (ls_provider ?s) = {1}"
    "time_since (lp_last_update (ls_provider ?s)) (ls_now ?s) < lp_cache_ttl (ls_provider ?s)"
    "lp_running (ls_provider (sample_lhm ?p' (12 * 10 ^ 9) [])) = {2}"
    by (simp_all add: lhm_defs)
  ultimately show ?thesis by blast
qed

end
