(* ===== verification/Scanner.thy ===== *)
theory Scanner
  imports GoStd
begin

text \<open>
  \<open>bufio.Scanner\<close> over lines with its default buffer: a carriage return before the newline is dropped, an
  empty rest is not a line, and scanning ends with an error at a line of 64 KiB or more, which does not fit
  the buffer.  The flag says whether it ended so.
\<close>

definition max_token :: nat where
  "max_token = 65536"

definition drop_cr :: "string \<Rightarrow> string" where
  "drop_cr l = (if l \<noteq> [] \<and> last l = CHR 0x0D then butlast l else l)"

function scan_lines :: "nat \<Rightarrow> string \<Rightarrow> string list \<times> bool" where
  "scan_lines limit s =
     (if s = [] then ([], False)
      else
        (let line = takeWhile (\<lambda>c. c \<noteq> CHR 0x0A) s in
         if limit \<le> length line then ([], True)
         else (let (lines, too_long) = scan_lines limit (drop (Suc (length line)) s) in (drop_cr line # lines, too_long))))"
  by pat_completeness auto
termination
  by (relation "measure (\<lambda>(limit, s). length s)") auto

declare scan_lines.simps [simp del]

lemma scan_lines_Nil [simp]: "scan_lines limit [] = ([], False)"
  by (simp add: scan_lines.simps)

lemma scan_lines_line:
  assumes "CHR 0x0A \<notin> set l" and "length l < limit"
  shows "scan_lines limit (l @ CHR 0x0A # s) = (drop_cr l # fst (scan_lines limit s), snd (scan_lines limit s))"
proof -
  have "takeWhile (\<lambda>c. c \<noteq> CHR 0x0A) (l @ CHR 0x0A # s) = l"
    using assms(1) by (induction l) auto
  then show ?thesis using assms(2) by (subst scan_lines.simps) (simp add: Let_def split_beta)
qed

lemma scan_lines_long:
  assumes "CHR 0x0A \<notin> set l" and "limit \<le> length l" and "l \<noteq> []"
  shows "scan_lines limit (l @ s) = ([], True)"
proof -
  have "takeWhile (\<lambda>c. c \<noteq> CHR 0x0A) (l @ s) = l @ takeWhile (\<lambda>c. c \<noteq> CHR 0x0A) s"
    using assms(1) by (intro takeWhile_append2) auto
  then show ?thesis using assms(2,3) by (subst scan_lines.simps) simp
qed

lemma scan_lines_short:
  assumes "\<forall>l \<in> set ls. CHR 0x0A \<notin> set l \<and> length l < limit"
  shows "scan_lines limit (concat (map (\<lambda>l. l @ [CHR 0x0A]) ls) @ s) =
    (map drop_cr ls @ fst (scan_lines limit s), snd (scan_lines limit s))"
  using assms by (induction ls) (auto simp: scan_lines_line)

end
