(* ===== verification/Daemon.thy ===== *)
theory Daemon
  imports LhmProvider Scanner
begin

text \<open>
  The helper's side of \<open>internal/collector/lhm_provider_windows.go\<close>: the goroutine that forwards its standard error
  to the log, and the stand-in for the helper that the repository's tests run, \<open>testdata/fake_daemon.go\<close>, with
  what the provider makes of each of its modes.
\<close>

section \<open>Standard error\<close>

text \<open>
  How the pipe ends: closed by the helper, with an error (as when \<open>stopProcess\<close> closes it first), or with a
  panic of the reader.  A panic loses the line that was being read.
\<close>

datatype stderr_end = Stderr_Eof | Stderr_Failed | Stderr_Panics

datatype stderr_log = Forwarded string | Scanner_Error | Panic_Recovered

definition complete_lines :: "string \<Rightarrow> string" where
  "complete_lines s = rev (dropWhile (\<lambda>c. c \<noteq> CHR 0x0A) (rev s))"

definition drain_stderr :: "stderr_end \<Rightarrow> string \<Rightarrow> stderr_log list" where
  "drain_stderr ends s =
     (let (lines, too_long) = scan_lines max_token (if ends = Stderr_Panics then complete_lines s else s) in
      map Forwarded lines @
      (if too_long then [Scanner_Error]
       else case ends of Stderr_Eof \<Rightarrow> [] | Stderr_Failed \<Rightarrow> [Scanner_Error] | Stderr_Panics \<Rightarrow> [Panic_Recovered]))"

text \<open>What the helper writes to its standard error is logged line by line; but the first line of 64 KiB ends the
  forwarding, and nothing that follows is read, although the helper runs on.\<close>

theorem long_stderr_line_ends_forwarding:
  assumes "\<forall>l \<in> set ls. CHR 0x0A \<notin> set l \<and> length l < 65536"
  shows "drain_stderr Stderr_Eof (concat (map (\<lambda>l. l @ [CHR 0x0A]) ls)) = map (Forwarded \<circ> drop_cr) ls"
    and "65536 \<le> length long \<Longrightarrow> CHR 0x0A \<notin> set long \<Longrightarrow>
      drain_stderr ends (concat (map (\<lambda>l. l @ [CHR 0x0A]) ls) @ long @ CHR 0x0A # s @ [CHR 0x0A]) =
        map (Forwarded \<circ> drop_cr) ls @ [Scanner_Error]"
proof -
  note short = scan_lines_short [of ls max_token, unfolded max_token_def, OF assms]
  show "drain_stderr Stderr_Eof (concat (map (\<lambda>l. l @ [CHR 0x0A]) ls)) = map (Forwarded \<circ> drop_cr) ls"
    using short [of "[]"] by (simp add: drain_stderr_def max_token_def)
  assume long: "65536 \<le> length long" "CHR 0x0A \<notin> set long"
  let ?s = "concat (map (\<lambda>l. l @ [CHR 0x0A]) ls) @ long @ CHR 0x0A # s @ [CHR 0x0A]"
  have "complete_lines ?s = ?s" by (simp add: complete_lines_def)
  moreover have "scan_lines 65536 ?s = (map drop_cr ls, True)"
    using short [of "long @ CHR 0x0A # s @ [CHR 0x0A]"] scan_lines_long [OF long(2,1)] long(1) by (cases "long = []") auto
  ultimately show "drain_stderr ends ?s = map (Forwarded \<circ> drop_cr) ls @ [Scanner_Error]"
    by (simp add: drain_stderr_def max_token_def)
qed

theorem long_stderr_line_ends_forwarding_witness:
  "drain_stderr Stderr_Eof (''a'' @ [CHR 0x0A]) = [Forwarded ''a'']"
  using long_stderr_line_ends_forwarding(1) [of "[''a'']"] by (simp add: drop_cr_def)

section \<open>The stand-in\<close>

text \<open>
  A document stands for the line of JSON it is printed as.  \<open>daemon_start\<close> is what happens before the first
  line is read, \<open>daemon_line\<close> what each line read makes the process do; with the status it exits with, if it
  exits.  At the end of its input the process exits with status 0.
\<close>

definition sample_data :: lhm_data where
  "sample_data =
     (let temp = F64 False 65 in
      \<lparr>lhm_sensors = [\<lparr>ln_name = ''CPU Package'', ln_temperature = temp, ln_high = F64 False 100, ln_critical = F64 False 105\<rparr>],
       lhm_fans = [\<lparr>lf_name = ''CPU Fan'', lf_rpm = F64 False 1200\<rparr>],
       lhm_gpus = [\<lparr>lg_name = ''Intel HD Graphics'', lg_temperature = Some temp, lg_core_load = None, lg_memory_load = None,
         lg_fan_speed = None, lg_power = None, lg_core_clock = None, lg_memory_clock = None\<rparr>],
       lhm_storages = [\<lparr>lt_name = ''Samsung SSD'', lt_type = ''SSD'', lt_temperature = None, lt_remaining_life = None,
         lt_media_errors = None, lt_power_cycles = None, lt_unsafe_shutdowns = None, lt_power_on_hours = None,
         lt_total_bytes_written = None\<rparr>],
       lhm_voltages = [\<lparr>lv_name = ''CPU Vcore'', lv_voltage = F64 False (5 / 4)\<rparr>],
       lhm_motherboard_temps = [\<lparr>lm_name = ''System'', lm_temperature = F64 False 42\<rparr>],
       lhm_error = []\<rparr>)"

definition error_data :: "string \<Rightarrow> lhm_data" where
  "error_data text = empty_lhm_data\<lparr>lhm_error := text\<rparr>"

definition daemon_mode :: "string \<Rightarrow> string" where
  "daemon_mode env = (if env = [] then ''normal'' else env)"

definition daemon_start :: "string \<Rightarrow> lhm_data option \<times> nat option" where
  "daemon_start mode =
     (if mode = ''open_fail'' then (Some (error_data ''computer.Open() failed: PawnIO driver not found''), Some 1)
      else (None, None))"

definition daemon_line :: "string \<Rightarrow> lhm_data option \<times> nat option" where
  "daemon_line mode =
     (if mode = ''slow'' then (None, None)
      else if mode = ''normal'' then (Some sample_data, None)
      else if mode = ''crash'' then (Some sample_data, Some 1)
      else if mode = ''error'' then (Some (error_data ''sensor read failed''), None)
      else (None, None))"

text \<open>The documents and the exit status of a run that is given \<open>n\<close> lines.\<close>

fun daemon_loop :: "string \<Rightarrow> nat \<Rightarrow> lhm_data list \<times> nat" where
  "daemon_loop mode 0 = ([], 0)"
| "daemon_loop mode (Suc n) =
     (case daemon_line mode of
        (out, Some status) \<Rightarrow> (case out of None \<Rightarrow> [] | Some d \<Rightarrow> [d], status)
      | (out, None) \<Rightarrow> apfst (\<lambda>ds. (case out of None \<Rightarrow> [] | Some d \<Rightarrow> [d]) @ ds) (daemon_loop mode n))"

definition fake_daemon :: "string \<Rightarrow> nat \<Rightarrow> lhm_data list \<times> nat" where
  "fake_daemon env n =
     (case daemon_start (daemon_mode env) of
        (Some d, Some status) \<Rightarrow> ([d], status)
      | _ \<Rightarrow> daemon_loop (daemon_mode env) n)"

text \<open>
  The request after \<open>n\<close> answered ones, as the provider sees it: the next document, the end of the output of
  a process that has exited, or no answer within the time-out, upon which the process is killed.
\<close>

definition daemon_answer :: "string \<Rightarrow> nat \<Rightarrow> request_outcome" where
  "daemon_answer env n =
     (let mode = daemon_mode env; out = fst (fake_daemon env (Suc n)) in
      if n < length out then Answered (out ! n)
      else if snd (daemon_start mode) \<noteq> None \<or> (0 < n \<and> snd (daemon_line mode) \<noteq> None) then Io_Failed
      else Timed_Out True True)"

lemma daemon_loop_repeat:
  "daemon_line mode = (Some d, None) \<Longrightarrow> daemon_loop mode n = (replicate n d, 0)"
  by (induction n) (auto simp: apfst_def map_prod_def split: prod.splits)

lemma daemon_loop_silent: "daemon_line mode = (None, None) \<Longrightarrow> daemon_loop mode n = ([], 0)"
  by (induction n) (auto simp: apfst_def map_prod_def split: prod.splits)

lemma daemon_loop_exits: "daemon_line mode = (Some d, Some k) \<Longrightarrow> daemon_loop mode n = (if n = 0 then ([], 0) else ([d], k))"
  by (cases n) auto

text \<open>The answers in each of the modes the file's comment lists.\<close>

lemma daemon_answers:
  "daemon_answer ''normal'' n = Answered sample_data"
  "daemon_answer [] n = Answered sample_data"
  "daemon_answer ''crash'' n = (if n = 0 then Answered sample_data else Io_Failed)"
  "daemon_answer ''slow'' n = Timed_Out True True"
  "daemon_answer ''error'' n = Answered (error_data ''sensor read failed'')"
  "daemon_answer ''open_fail'' n =
     (if n = 0 then Answered (error_data ''computer.Open() failed: PawnIO driver not found'') else Io_Failed)"
  by (auto simp: daemon_answer_def fake_daemon_def daemon_mode_def daemon_start_def daemon_line_def daemon_loop_repeat
      daemon_loop_silent daemon_loop_exits nth_Cons' simp del: daemon_loop.simps)

text \<open>What the provider makes of each mode.  A stand-in that answers starts the provider and every later request
  refreshes its data.  One that crashes after its first answer starts it, too, but the call that finds it
  dead and restarts it fails with the request that follows the restart.  One that is silent, that reports
  an error or that cannot open the hardware lets the start fail, and then no process is left.\<close>

theorem stand_in_modes:
  defines "p0 \<equiv> get_lhm_provider"
  shows "lhm_start (Some path) (Launched (daemon_answer ''normal'' 0)) now p0 = (p, res) \<Longrightarrow>
      res = None \<and> lp_started p \<and> is_process_alive p \<and> lp_data p = Some sample_data \<and>
      snd (refresh (daemon_answer ''normal'' (Suc n)) t p) = Inr sample_data"
    and "lhm_start (Some path) (Launched (daemon_answer ''crash'' 0)) now p0 = (p, res) \<Longrightarrow>
      res = None \<and> lp_started p \<and>
      (let dead = p\<lparr>lp_running := {}\<rparr>;
           (q, r) = restart_and_refresh (Launched (daemon_answer ''crash'' 0)) (daemon_answer ''crash'' 1) clock dead
       in r = Inl (Request_Failed Request_Io) \<and> lp_data q = Some sample_data \<and> lp_running q = {} \<and> lp_failures q = 1)"
    and "mode \<in> {''slow'', ''error'', ''open_fail''} \<Longrightarrow>
      lhm_start (Some path) (Launched (daemon_answer mode 0)) now p0 = (p, res) \<Longrightarrow>
      res \<noteq> None \<and> \<not> lp_started p \<and> lp_process p = None \<and> lp_running p = {} \<and> lp_data p = None"
proof -
  have [simp]: "lhm_error sample_data = []" "\<And>t. lhm_error (error_data t) = t"
    by (simp_all add: sample_data_def error_data_def Let_def)
  note defs = p0_def get_lhm_provider_def lhm_start_def start_process_def do_request_def daemon_answers Let_def
    stop_process_def kill_and_drain_def
  show "lhm_start (Some path) (Launched (daemon_answer ''normal'' 0)) now p0 = (p, res) \<Longrightarrow>
      res = None \<and> lp_started p \<and> is_process_alive p \<and> lp_data p = Some sample_data \<and>
      snd (refresh (daemon_answer ''normal'' (Suc n)) t p) = Inr sample_data"
    by (auto simp: defs refresh_def is_process_alive_def)
  show "lhm_start (Some path) (Launched (daemon_answer ''crash'' 0)) now p0 = (p, res) \<Longrightarrow>
      res = None \<and> lp_started p \<and>
      (let dead = p\<lparr>lp_running := {}\<rparr>;
           (q, r) = restart_and_refresh (Launched (daemon_answer ''crash'' 0)) (daemon_answer ''crash'' 1) clock dead
       in r = Inl (Request_Failed Request_Io) \<and> lp_data q = Some sample_data \<and> lp_running q = {} \<and> lp_failures q = 1)"
    by (auto simp: defs restart_and_refresh_def restart_now_def refresh_def)
  show "mode \<in> {''slow'', ''error'', ''open_fail''} \<Longrightarrow>
      lhm_start (Some path) (Launched (daemon_answer mode 0)) now p0 = (p, res) \<Longrightarrow>
      res \<noteq> None \<and> \<not> lp_started p \<and> lp_process p = None \<and> lp_running p = {} \<and> lp_data p = None"
    by (elim insertE emptyE) (auto simp: defs)
qed

end
