(* ===== verification/Heartbeat.thy ===== *)
theory Heartbeat
  imports Scheduler
begin

text \<open>
  What the agent writes to Redis besides its data: \<open>internal/heartbeat/heartbeat.go\<close> (a key that expires
  unless it is renewed), \<open>internal/timediff/timediff.go\<close> (the difference of the clocks, which every record
  carries) and \<open>internal/metainfo/metainfo.go\<close> (the version).  A database is a map from keys to values with
  the time they expire at; whether a command reaches the server is a parameter.  Times are in
  nanoseconds.
\<close>

section \<open>Redis\<close>

type_synonym redis_db = "string \<rightharpoonup> (string \<times> int option)"

definition redis_get :: "redis_db \<Rightarrow> int \<Rightarrow> string \<Rightarrow> string option" where
  "redis_get db now key =
     (case db key of
        None \<Rightarrow> None
      | Some (v, None) \<Rightarrow> Some v
      | Some (v, Some e) \<Rightarrow> if now < e then Some v else None)"

definition redis_setex :: "int \<Rightarrow> string \<Rightarrow> string \<Rightarrow> int \<Rightarrow> redis_db \<Rightarrow> redis_db" where
  "redis_setex now key v ttl db = db(key \<mapsto> (v, Some (now + ttl)))"

definition redis_set :: "string \<Rightarrow> string \<Rightarrow> redis_db \<Rightarrow> redis_db" where
  "redis_set key v db = db(key \<mapsto> (v, None))"

section \<open>Heartbeat\<close>

definition heartbeat_interval :: int where "heartbeat_interval = 10 * second"
definition heartbeat_ttl :: int where "heartbeat_ttl = 30 * second"
definition staleness_threshold :: int where "staleness_threshold = 90 * second"

definition heartbeat_key :: "string \<Rightarrow> string \<Rightarrow> string \<Rightarrow> string \<Rightarrow> string" where
  "heartbeat_key agent_group process model eqp_id =
     ''AgentHealth'' @ '':'' @ agent_group @ '':'' @ process @ ''-'' @ model @ ''-'' @ eqp_id"

record heartbeat_sender =
  hb_key :: string
  hb_start :: int
  hb_interval :: int
  hb_ttl :: int

definition new_heartbeat :: "int \<Rightarrow> string \<Rightarrow> string \<Rightarrow> string \<Rightarrow> heartbeat_sender" where
  "new_heartbeat now process model eqp_id =
     \<lparr>hb_key = heartbeat_key ''resource_agent'' process model eqp_id, hb_start = now,
      hb_interval = heartbeat_interval, hb_ttl = heartbeat_ttl\<rparr>"

text \<open>\<open>int64(d.Seconds())\<close>.\<close>

definition uptime_seconds :: "heartbeat_sender \<Rightarrow> int \<Rightarrow> int" where
  "uptime_seconds h now = f64_trunc (duration_seconds (now - hb_start h))"

definition heartbeat_value :: "string \<Rightarrow> string \<Rightarrow> int \<Rightarrow> string" where
  "heartbeat_value status reason uptime =
     (if reason \<noteq> [] then status @ '':'' @ itoa uptime @ '':'' @ reason else status @ '':'' @ itoa uptime)"

text \<open>
  \<open>sendOnce\<close>: \<open>check\<close> is what the health check returns now, when one is set; \<open>client\<close> and \<open>sent\<close> say whether a
  client exists and whether the command succeeds.
\<close>

definition send_once ::
  "bool \<Rightarrow> bool \<Rightarrow> (string \<times> string) option \<Rightarrow> int \<Rightarrow> heartbeat_sender \<Rightarrow> redis_db \<Rightarrow> redis_db" where
  "send_once client sent check now h db =
     (if \<not> client then db
      else
        (let (status, reason) = (case check of None \<Rightarrow> (''OK'', []) | Some x \<Rightarrow> x);
             v = heartbeat_value status reason (uptime_seconds h now)
         in if sent then redis_setex now (hb_key h) v (hb_ttl h) db else db))"

definition send_shutdown :: "bool \<Rightarrow> bool \<Rightarrow> int \<Rightarrow> heartbeat_sender \<Rightarrow> redis_db \<Rightarrow> redis_db" where
  "send_shutdown client sent now h db =
     (if client \<and> sent
      then redis_setex now (hb_key h) (''SHUTDOWN'' @ '':'' @ itoa (uptime_seconds h now)) (hb_ttl h) db
      else db)"

text \<open>The health check \<open>run\<close> installs: the age of the scheduler's last success.\<close>

definition scheduler_health :: "int \<Rightarrow> gotime option \<Rightarrow> string \<times> string" where
  "scheduler_health now seen =
     (case seen of
        None \<Rightarrow> (''OK'', [])
      | Some t \<Rightarrow> if now - unix_nanos t > staleness_threshold then (''WARN'', ''no_collection'') else (''OK'', []))"

text \<open>
  The heartbeats of a run: \<open>Start\<close> sends one, the ticker one every interval; each with the time it is
  made, the answers of the environment and of the health check.
\<close>

record beat =
  beat_now :: int
  beat_client :: bool
  beat_sent :: bool
  beat_check :: "(string \<times> string) option"

definition run_beats :: "heartbeat_sender \<Rightarrow> beat list \<Rightarrow> redis_db \<Rightarrow> redis_db" where
  "run_beats h bs db = fold (\<lambda>b. send_once (beat_client b) (beat_sent b) (beat_check b) (beat_now b) h) bs db"

text \<open>
  The life of the sender: \<open>Start\<close>, the goroutine of the ticker, \<open>SetHealthCheck\<close> from the moment the scheduler
  runs, and \<open>Stop\<close> in its three parts - cancelling, waiting for the goroutine, and the last write.  A tick
  that is ready may win against the cancelled context.  \<open>hy_ended\<close> is when the last write was made, for
  the theorems.  \<open>None\<close> as a health check is the one not set yet.
\<close>

record heartbeat_system =
  hy_sender :: heartbeat_sender
  hy_now :: int
  hy_client :: bool
  hy_checked :: bool
  hy_started :: bool
  hy_loop :: bool
  hy_cancelled :: bool
  hy_ended :: "(int \<times> bool) option"
  hy_db :: redis_db

definition heartbeat_initial :: "int \<Rightarrow> string \<Rightarrow> string \<Rightarrow> string \<Rightarrow> redis_db \<Rightarrow> heartbeat_system" where
  "heartbeat_initial now process model eqp_id db =
     \<lparr>hy_sender = new_heartbeat now process model eqp_id, hy_now = now, hy_client = False, hy_checked = False,
      hy_started = False, hy_loop = False, hy_cancelled = False, hy_ended = None, hy_db = db\<rparr>"

text \<open>\<open>sendOnce\<close> on the system; a client is created when there is none, which cannot fail.\<close>

definition beat_step :: "bool \<Rightarrow> string \<times> string \<Rightarrow> heartbeat_system \<Rightarrow> heartbeat_system" where
  "beat_step sent health s =
     s\<lparr>hy_client := True,
       hy_db := send_once True sent (if hy_checked s then Some health else None) (hy_now s) (hy_sender s) (hy_db s)\<rparr>"

definition shutdown_step :: "bool \<Rightarrow> heartbeat_system \<Rightarrow> heartbeat_system" where
  "shutdown_step sent s =
     s\<lparr>hy_client := False, hy_ended := Some (hy_now s, sent),
       hy_db := send_shutdown True sent (hy_now s) (hy_sender s) (hy_db s)\<rparr>"

inductive heartbeat_step :: "heartbeat_system \<Rightarrow> heartbeat_system \<Rightarrow> bool" where
  hb_time: "hy_now s \<le> t \<Longrightarrow> heartbeat_step s (s\<lparr>hy_now := t\<rparr>)"
| hb_begin: "\<not> hy_started s \<Longrightarrow> hy_ended s = None \<Longrightarrow>
    heartbeat_step s ((beat_step sent health s)\<lparr>hy_started := True, hy_loop := True\<rparr>)"
| hb_check: "hy_started s \<Longrightarrow> heartbeat_step s (s\<lparr>hy_checked := True\<rparr>)"
| hb_tick: "hy_loop s \<Longrightarrow> heartbeat_step s (beat_step sent health s)"
| hb_cancel: "hy_started s \<Longrightarrow> heartbeat_step s (s\<lparr>hy_cancelled := True\<rparr>)"
| hb_leave: "hy_loop s \<Longrightarrow> hy_cancelled s \<Longrightarrow> heartbeat_step s (s\<lparr>hy_loop := False\<rparr>)"
| hb_end: "hy_cancelled s \<Longrightarrow> \<not> hy_loop s \<Longrightarrow> hy_ended s = None \<Longrightarrow> heartbeat_step s (shutdown_step sent s)"

inductive heartbeat_reachable :: "heartbeat_system \<Rightarrow> bool" where
  hb_initial: "heartbeat_reachable (heartbeat_initial now process model eqp_id db)"
| hb_advance: "heartbeat_reachable s \<Longrightarrow> heartbeat_step s s' \<Longrightarrow> heartbeat_reachable s'"

definition beat_ok :: "beat \<Rightarrow> bool" where
  "beat_ok b = (beat_client b \<and> beat_sent b)"

definition beat_value :: "heartbeat_sender \<Rightarrow> beat \<Rightarrow> string" where
  "beat_value h b =
     (case beat_check b of
        None \<Rightarrow> heartbeat_value ''OK'' [] (uptime_seconds h (beat_now b))
      | Some (status, reason) \<Rightarrow> heartbeat_value status reason (uptime_seconds h (beat_now b)))"

section \<open>Time difference\<close>

record syncer =
  ts_diff :: int
  ts_eqp_id :: string
  ts_interval :: int
  ts_client :: bool

text \<open>The seconds become a \<open>Duration\<close> of 64 bits, whose product wraps.\<close>

definition wrap64 :: "int \<Rightarrow> int" where
  "wrap64 i = signed_take_bit 63 i"

lemma wrap64_id [simp]: "- (2 ^ 63) \<le> i \<Longrightarrow> i < 2 ^ 63 \<Longrightarrow> wrap64 i = i"
  by (simp add: wrap64_def signed_take_bit_int_eq_self)

definition new_syncer :: "string \<Rightarrow> int \<Rightarrow> syncer" where
  "new_syncer eqp_id interval_sec =
     \<lparr>ts_diff = 0, ts_eqp_id = eqp_id, ts_interval = wrap64 (interval_sec * second), ts_client = False\<rparr>"

datatype sync_error = No_Client | Time_Failed | Set_Failed

definition diff_key :: "string \<Rightarrow> string" where
  "diff_key eqp_id = ''EQP_DIFF'' @ '':'' @ eqp_id"

text \<open>\<open>syncOnce\<close>: the server's time, if it answers, the own time, and whether the \<open>SET\<close> succeeds.\<close>

definition sync_once ::
  "gotime option \<Rightarrow> gotime \<Rightarrow> bool \<Rightarrow> syncer \<times> redis_db \<Rightarrow> (syncer \<times> redis_db) \<times> sync_error option" where
  "sync_once server now set_ok s =
     (if \<not> ts_client (fst s) then (s, Some No_Client)
      else case server of
        None \<Rightarrow> (s, Some Time_Failed)
      | Some t \<Rightarrow>
          (let diff = unix_milli now - unix_milli t in
           if \<not> set_ok then (s, Some Set_Failed)
           else (((fst s)\<lparr>ts_diff := diff\<rparr>, redis_set (diff_key (ts_eqp_id (fst s))) (itoa diff) (snd s)), None)))"

text \<open>\<open>Start\<close>: the client is kept only if the first sync succeeds.\<close>

definition start_syncer ::
  "gotime option \<Rightarrow> gotime \<Rightarrow> bool \<Rightarrow> syncer \<times> redis_db \<Rightarrow> (syncer \<times> redis_db) \<times> sync_error option" where
  "start_syncer server now set_ok s =
     (case sync_once server now set_ok ((fst s)\<lparr>ts_client := True\<rparr>, snd s) of
        (s', None) \<Rightarrow> (s', None)
      | (s', Some e) \<Rightarrow> (((fst s')\<lparr>ts_client := False\<rparr>, snd s'), Some e))"

definition stop_syncer :: "syncer \<Rightarrow> syncer" where
  "stop_syncer s = s\<lparr>ts_client := False\<rparr>"

text \<open>\<open>time.NewTicker\<close> in \<open>loop\<close> panics unless the interval is positive.\<close>

definition sync_loop_starts :: "syncer \<Rightarrow> bool" where
  "sync_loop_starts s = (0 < ts_interval s)"

text \<open>The periodic syncs; an error is only logged.\<close>

fun run_syncs :: "(gotime option \<times> gotime \<times> bool) list \<Rightarrow> syncer \<times> redis_db \<Rightarrow> syncer \<times> redis_db" where
  "run_syncs [] s = s"
| "run_syncs ((server, now, set_ok) # xs) s = run_syncs xs (fst (sync_once server now set_ok s))"

section \<open>Version\<close>

definition meta_key :: "string \<Rightarrow> string \<Rightarrow> string" where
  "meta_key process model = ''ResourceAgentMetaInfo'' @ '':'' @ process @ ''-'' @ model"

definition write_version ::
  "bool \<Rightarrow> string \<Rightarrow> string \<Rightarrow> string \<Rightarrow> string \<Rightarrow> (string \<times> string \<rightharpoonup> string) \<Rightarrow> (string \<times> string \<rightharpoonup> string)" where
  "write_version sent process model eqp_id version hashes =
     (if sent then hashes((meta_key process model, eqp_id) \<mapsto> version) else hashes)"

section \<open>Facts\<close>

lemma send_once_eq:
  "send_once c s k now h db =
     (if c \<and> s then redis_setex now (hb_key h) (beat_value h \<lparr>beat_now = now, beat_client = c, beat_sent = s, beat_check = k\<rparr>)
        (hb_ttl h) db else db)"
  by (auto simp: send_once_def beat_value_def Let_def split: option.splits prod.splits)

lemma run_beats_snoc: "run_beats h (bs @ [b]) db =
    (if beat_ok b then redis_setex (beat_now b) (hb_key h) (beat_value h b) (hb_ttl h) (run_beats h bs db)
     else run_beats h bs db)"
  by (cases b) (simp add: run_beats_def send_once_eq beat_ok_def)

text \<open>What another process reads is the last beat that got through, while it is fresh.\<close>

lemma run_beats_key:
  "run_beats h bs db (hb_key h) =
     (case filter beat_ok (rev bs) of
        [] \<Rightarrow> db (hb_key h)
      | b # _ \<Rightarrow> Some (beat_value h b, Some (beat_now b + hb_ttl h)))"
proof (induction bs rule: rev_induct)
  case (snoc b bs)
  then show ?case by (simp add: run_beats_snoc redis_setex_def)
qed (simp add: run_beats_def)

text \<open>The last beat that got through is one of the last three, if any of them did.\<close>

lemma last_ok_index:
  assumes "filter beat_ok (rev bs) = b # cs" and "\<exists>b \<in> set (drop k bs). beat_ok b"
  shows "\<exists>i. i < length bs \<and> k \<le> i \<and> bs ! i = b"
  using assms
proof (induction bs rule: rev_induct)
  case (snoc x xs)
  show ?case
  proof (cases "beat_ok x")
    case True
    then have "b = x" using snoc.prems(1) by simp
    moreover have "k \<le> length xs" using snoc.prems(2) by (cases "k \<le> length xs") auto
    ultimately show ?thesis by (intro exI [of _ "length xs"]) simp
  next
    case False
    then have "filter beat_ok (rev xs) = b # cs" "\<exists>b \<in> set (drop k xs). beat_ok b"
      using snoc.prems by (auto simp: drop_append dest: in_set_dropD split: if_splits)
    then obtain i where "i < length xs" "k \<le> i" "xs ! i = b" using snoc.IH by blast
    then show ?thesis by (intro exI [of _ i]) (simp add: nth_append)
  qed
qed simp

lemma sync_once_agrees:
  assumes "redis_get (snd s) t (diff_key (ts_eqp_id (fst s))) = Some (itoa (ts_diff (fst s)))"
  shows "redis_get (snd (fst (sync_once sv now ok s))) t (diff_key (ts_eqp_id (fst (fst (sync_once sv now ok s))))) =
    Some (itoa (ts_diff (fst (fst (sync_once sv now ok s)))))"
  using assms by (auto simp: sync_once_def redis_get_def redis_set_def Let_def split: option.splits)

lemma run_syncs_agrees:
  "redis_get (snd s) t (diff_key (ts_eqp_id (fst s))) = Some (itoa (ts_diff (fst s))) \<Longrightarrow>
     redis_get (snd (run_syncs xs s)) t (diff_key (ts_eqp_id (fst (run_syncs xs s)))) =
       Some (itoa (ts_diff (fst (run_syncs xs s))))"
  by (induction xs s rule: run_syncs.induct) (auto intro: sync_once_agrees)

lemma sync_once_eqp_id [simp]: "ts_eqp_id (fst (fst (sync_once sv now ok s))) = ts_eqp_id (fst s)"
  by (auto simp: sync_once_def Let_def split: option.splits)

lemma run_syncs_eqp_id [simp]: "ts_eqp_id (fst (run_syncs xs s)) = ts_eqp_id (fst s)"
  by (induction xs s rule: run_syncs.induct) auto

text \<open>Once the last write is made nothing writes any more.\<close>

definition shutdown_written :: "heartbeat_system \<Rightarrow> bool" where
  "shutdown_written s =
     (hb_ttl (hy_sender s) = heartbeat_ttl \<and> (hy_cancelled s \<longrightarrow> hy_started s) \<and> (hy_loop s \<longrightarrow> hy_started s) \<and>
      (\<forall>t sent. hy_ended s = Some (t, sent) \<longrightarrow>
         hy_started s \<and> \<not> hy_loop s \<and> t \<le> hy_now s \<and> \<not> hy_client s \<and>
         (sent \<longrightarrow> hy_db s (hb_key (hy_sender s)) =
            Some (''SHUTDOWN'' @ '':'' @ itoa (uptime_seconds (hy_sender s) t), Some (t + heartbeat_ttl)))))"

lemma heartbeat_step_written: "heartbeat_step s s' \<Longrightarrow> shutdown_written s \<Longrightarrow> shutdown_written s'"
  by (induction rule: heartbeat_step.induct)
    (auto simp: shutdown_written_def beat_step_def shutdown_step_def send_shutdown_def redis_setex_def)

lemma heartbeat_reachable_written: "heartbeat_reachable s \<Longrightarrow> shutdown_written s"
proof (induction rule: heartbeat_reachable.induct)
  case (hb_initial now process model eqp_id db)
  show ?case by (simp add: shutdown_written_def heartbeat_initial_def new_heartbeat_def)
qed (rule heartbeat_step_written)

section \<open>Properties\<close>

text \<open>What others see of the agent: the value of the last heartbeat that reached Redis, for as long as its
  time to live; later nothing.  With one of the last three beats of the ticker through, that is always
  something.\<close>

theorem heartbeat_visible:
  assumes "h = new_heartbeat t0 process model eqp_id"
    and "bs \<noteq> []" and "\<forall>i < length bs. beat_now (bs ! i) = t0 + int i * heartbeat_interval"
    and "\<exists>b \<in> set (drop (length bs - 3) bs). beat_ok b"
    and "now < t0 + int (length bs) * heartbeat_interval"
  shows "\<exists>b \<in> set bs. beat_ok b \<and> redis_get (run_beats h bs db) now (hb_key h) = Some (beat_value h b)"
proof -
  obtain b cs where first: "filter beat_ok (rev bs) = b # cs"
    using assms(4) set_drop_subset [of "length bs - 3" bs]
    by (cases "filter beat_ok (rev bs)") (auto simp: filter_empty_conv)
  then have b: "b \<in> set bs" "beat_ok b"
    by (metis filter_is_subset list.set_intros(1) set_rev subsetD, metis filter_eq_ConsD)
  obtain i where i: "i < length bs" "length bs - 3 \<le> i" "bs ! i = b"
    using last_ok_index [OF first assms(4)] by blast
  have "int (length bs) \<le> int i + 3" using i(2) by linarith
  then have "now < beat_now b + hb_ttl h"
    using assms(1,3,5) i by (auto simp: new_heartbeat_def heartbeat_interval_def heartbeat_ttl_def second_def)
  then show ?thesis using b by (auto simp: redis_get_def run_beats_key first)
qed

theorem heartbeat_visible_witness:
  "redis_get (run_beats (new_heartbeat 0 ''P'' ''M'' ''E1'')
      (map (\<lambda>(i, ok). \<lparr>beat_now = i * heartbeat_interval, beat_client = True, beat_sent = ok, beat_check = None\<rparr>)
         [(0, True), (1, False), (2, False)]) Map.empty) 29000000000 ''AgentHealth:resource_agent:P-M-E1'' \<noteq> None"
proof -
  let ?bs = "map (\<lambda>(i, ok). \<lparr>beat_now = i * heartbeat_interval, beat_client = True, beat_sent = ok, beat_check = None\<rparr>)
    [(0, True), (1, False), (2, False)]"
  have "\<forall>i < length ?bs. beat_now (?bs ! i) = 0 + int i * heartbeat_interval"
    by (auto simp: less_Suc_eq)
  from heartbeat_visible [OF refl _ this, of 29000000000 "''P''" "''M''" "''E1''" Map.empty]
  show ?thesis
    by (auto simp: beat_ok_def heartbeat_interval_def second_def new_heartbeat_def heartbeat_key_def)
qed

text \<open>A heartbeat reads back: its colon-separated parts are the status, the uptime in seconds and, when there
  is one, the reason.\<close>

theorem heartbeat_reads_back:
  assumes "CHR '':'' \<notin> set status" and "CHR '':'' \<notin> set reason"
  shows "split_on CHR '':'' (heartbeat_value status reason uptime) =
      [status, itoa uptime] @ (if reason = [] then [] else [reason]) \<and>
    parse_int (split_on CHR '':'' (heartbeat_value status reason uptime) ! 1) = Some uptime"
proof -
  have "split_on CHR '':'' (heartbeat_value status reason uptime) =
      [status, itoa uptime] @ (if reason = [] then [] else [reason])"
    using assms by (simp add: heartbeat_value_def split_on_append split_on_no_sep)
  then show ?thesis by simp
qed

theorem heartbeat_reads_back_witness:
  "split_on CHR '':'' (heartbeat_value ''WARN'' ''no_collection'' 3600) = [''WARN'', ''3600'', ''no_collection'']"
proof -
  have "itoa 3600 = ''3600''" by code_simp
  then show ?thesis using heartbeat_reads_back [of "''WARN''" "''no_collection''" 3600] by simp
qed

text \<open>The watchdog: once a collection has been sent successfully, the heartbeat says \<open>OK\<close> for ninety seconds
  (short of the millisecond the time is kept to) and warns after that, until the next success.\<close>

theorem heartbeat_reports_activity:
  assumes "snd (send (stamp_metric a host d) s) = None" and "1000000 \<le> unix_nanos now"
    and "collect_once send a host now (Inr (Some d)) (s, ms) = (s', ms')"
  shows "(t - unix_nanos now \<le> staleness_threshold - 1000000 \<longrightarrow> scheduler_health t (last_activity ms') = (''OK'', [])) \<and>
    (t - unix_nanos now > staleness_threshold \<longrightarrow>
       scheduler_health t (last_activity ms') = (''WARN'', ''no_collection''))"
proof -
  have ms: "ms' = unix_nanos now div 1000000"
    using assms(1,3) by (auto simp: collect_once_def unix_milli_def split: prod.splits)
  have "ms' \<noteq> 0" using ms assms(2) by auto
  moreover have "ms' * 1000000 \<le> unix_nanos now" "unix_nanos now < ms' * 1000000 + 1000000"
    unfolding ms by linarith+
  ultimately show ?thesis
    by (auto simp: scheduler_health_def last_activity_def)
qed

theorem heartbeat_reports_activity_witness:
  "scheduler_health (5000000 + 91 * second) (last_activity 5) = (''WARN'', ''no_collection'')"
proof -
  have "collect_once (\<lambda>d s. (s, None)) ''a'' ''h'' \<lparr>unix_nanos = 5000000, zone_offset = 0\<rparr> (Inr (Some sample_metric)) ((), 0)
      = ((), 5)"
    by (simp add: collect_once_def unix_milli_def)
  from heartbeat_reports_activity [OF _ _ this, of "5000000 + 91 * second"] show ?thesis
    by (simp add: second_def staleness_threshold_def)
qed

text \<open>The time difference every record carries is the one stored in Redis for the equipment: after a
  successful start and any periodic syncs, failed ones included, the two agree; and right after a
  successful sync it is the own time minus the server's, in milliseconds.\<close>

theorem time_diff_agrees:
  assumes "start_syncer server now set_ok (new_syncer eqp_id k, db) = (s, None)"
  shows "redis_get (snd (run_syncs xs s)) t (diff_key eqp_id) = Some (itoa (ts_diff (fst (run_syncs xs s)))) \<and>
    (\<exists>st. server = Some st \<and> ts_diff (fst s) = unix_milli now - unix_milli st)"
proof -
  have s: "redis_get (snd s) t (diff_key (ts_eqp_id (fst s))) = Some (itoa (ts_diff (fst s)))" "ts_eqp_id (fst s) = eqp_id"
    "\<exists>st. server = Some st \<and> ts_diff (fst s) = unix_milli now - unix_milli st"
    using assms by (auto simp: start_syncer_def sync_once_def new_syncer_def redis_get_def redis_set_def Let_def
        split: option.splits if_splits)
  then show ?thesis using run_syncs_agrees [OF s(1), of xs] by simp
qed

theorem time_diff_agrees_witness:
  "redis_get (snd (run_syncs [(None, \<lparr>unix_nanos = 0, zone_offset = 0\<rparr>, True)]
     ((new_syncer ''E1'' 60)\<lparr>ts_client := True, ts_diff := 5\<rparr>, redis_set (diff_key ''E1'') ''5'' Map.empty))) 0 (diff_key ''E1'') =
   Some ''5''"
proof -
  have five: "itoa 5 = ''5''" by code_simp
  have start: "start_syncer (Some \<lparr>unix_nanos = 0, zone_offset = 0\<rparr>) \<lparr>unix_nanos = 5000000, zone_offset = 0\<rparr> True
      (new_syncer ''E1'' 60, Map.empty) =
    (((new_syncer ''E1'' 60)\<lparr>ts_client := True, ts_diff := 5\<rparr>, redis_set (diff_key ''E1'') ''5'' Map.empty), None)"
    by (simp add: start_syncer_def sync_once_def new_syncer_def unix_milli_def five Let_def)
  from time_diff_agrees [OF start, of "[(None, \<lparr>unix_nanos = 0, zone_offset = 0\<rparr>, True)]" 0]
  show ?thesis by (simp add: sync_once_def new_syncer_def five)
qed

text \<open>C27 The farewell is final: however the ticker, the health check and \<open>Stop\<close> interleave, once \<open>Stop\<close> has
  written \<open>SHUTDOWN\<close> no late heartbeat overwrites it; readers see it for thirty seconds and then nothing,
  and no client is left open.\<close>

theorem shutdown_is_final:
  assumes "heartbeat_reachable s" and "hy_ended s = Some (t, True)"
  shows "redis_get (hy_db s) now (hb_key (hy_sender s)) =
      (if now < t + 30 * second then Some (''SHUTDOWN'' @ '':'' @ itoa (uptime_seconds (hy_sender s) t)) else None) \<and>
    \<not> hy_loop s \<and> \<not> hy_client s"
  using heartbeat_reachable_written [OF assms(1)] assms(2)
  by (auto simp: shutdown_written_def redis_get_def heartbeat_ttl_def)

theorem shutdown_is_final_witness:
  "\<exists>s. heartbeat_reachable s \<and> 
     redis_get (hy_db s) 0 (hb_key (hy_sender s)) = Some (''SHUTDOWN'' @ '':'' @ itoa (uptime_seconds (hy_sender s) 0)) \<and> \<not> hy_loop s"
proof -
  let ?s0 = "heartbeat_initial 0 ''P'' ''M'' ''E1'' Map.empty"
  let ?s1 = "(beat_step True (''OK'', []) ?s0)\<lparr>hy_started := True, hy_loop := True\<rparr>"
  let ?s2 = "?s1\<lparr>hy_cancelled := True\<rparr>"
  let ?s3 = "?s2\<lparr>hy_loop := False\<rparr>"
  let ?s4 = "shutdown_step True ?s3"
  have "heartbeat_reachable ?s1"
    by (rule hb_advance [OF hb_initial hb_begin]) (simp_all add: heartbeat_initial_def)
  then have "heartbeat_reachable ?s2" by (rule hb_advance [OF _ hb_cancel]) simp
  then have "heartbeat_reachable ?s3" by (rule hb_advance [OF _ hb_leave]) simp_all
  then have r: "heartbeat_reachable ?s4"
    by (rule hb_advance [OF _ hb_end]) (simp_all add: beat_step_def heartbeat_initial_def)
  have e: "hy_ended ?s4 = Some (0, True)" by (simp add: shutdown_step_def beat_step_def heartbeat_initial_def)
  show ?thesis using shutdown_is_final [OF r e, of 0] r by (intro exI [of _ ?s4]) (simp add: second_def)
qed

end
