(* ===== verification/Discovery.thy ===== *)
theory Discovery
  imports Config
begin

text \<open>
  How the agent finds out where it is: \<open>internal/network/ipdetect.go\<close> (its addresses),
  \<open>internal/eqpinfo/eqpinfo.go\<close> (the equipment registered for them in Redis) and
  \<open>internal/discovery/discovery.go\<close> (the services of that equipment).  Network interfaces, the answers
  of Redis and of the HTTP endpoint, compiled regular expressions and the JSON decoder are parameters.
\<close>

section \<open>Addresses of the machine\<close>

datatype nic_addr = V4 nat nat nat nat | V6 string | No_Ip

record nic =
  nic_loopback :: bool
  nic_up :: bool
  nic_addrs :: "nic_addr list option"

definition ip_string :: "nic_addr \<Rightarrow> string" where
  "ip_string a =
     (case a of
        V4 p q r s \<Rightarrow> join_with CHR ''.'' (map (\<lambda>k. itoa (int k)) [p, q, r, s])
      | V6 t \<Rightarrow> t
      | No_Ip \<Rightarrow> [])"

definition usable_addr :: "nic_addr \<Rightarrow> bool" where
  "usable_addr a = (case a of V4 p q r s \<Rightarrow> p \<noteq> 127 | V6 _ \<Rightarrow> False | No_Ip \<Rightarrow> False)"

definition detect_ipv4_addresses :: "nic list option \<Rightarrow> string list option" where
  "detect_ipv4_addresses ifaces =
     map_option (\<lambda>ns. concat (map (\<lambda>n.
       if nic_loopback n \<or> \<not> nic_up n then []
       else case nic_addrs n of
         None \<Rightarrow> []
       | Some addrs \<Rightarrow> map ip_string (filter usable_addr addrs)) ns)) ifaces"

record ip_info =
  ip_addr :: string
  ip_addr_local :: string
  ip_all :: "string list"
  ip_matching :: "string list"

text \<open>The loop over the addresses in \<open>DetectIPs\<close>.\<close>

fun match_loop :: "(string \<Rightarrow> bool) \<Rightarrow> string \<Rightarrow> string list \<Rightarrow> ip_info \<Rightarrow> ip_info" where
  "match_loop matches override [] info = info"
| "match_loop matches override (ip # ips) info =
     match_loop matches override ips
       (if \<not> matches ip then info
        else
          (let info1 = info\<lparr>ip_matching := ip_matching info @ [ip]\<rparr> in
           if ip_addr_local info1 \<noteq> ''_'' then info1
           else
             (let info2 = info1\<lparr>ip_addr_local := ip\<rparr> in
              if override \<noteq> [] then info2
              else case filter (\<lambda>c. c \<noteq> ip) (ip_all info2) of
                [] \<Rightarrow> info2
              | c # _ \<Rightarrow> info2\<lparr>ip_addr := c\<rparr>)))"

datatype ip_error = Invalid_Pattern string | Detect_Failed

text \<open>\<open>compile\<close> is \<open>regexp.Compile\<close>: the matcher of a valid pattern.\<close>

definition detect_ips ::
  "(string \<Rightarrow> (string \<Rightarrow> bool) option) \<Rightarrow> nic list option \<Rightarrow> string \<Rightarrow> string \<Rightarrow> ip_error + ip_info" where
  "detect_ips compile ifaces pattern override =
     (if pattern \<noteq> [] \<and> compile pattern = None then Inl (Invalid_Pattern pattern)
      else case detect_ipv4_addresses ifaces of
        None \<Rightarrow> Inl Detect_Failed
      | Some all_ips \<Rightarrow>
          (let info = \<lparr>ip_addr = (if override \<noteq> [] then override else case all_ips of [] \<Rightarrow> [] | ip # _ \<Rightarrow> ip),
                       ip_addr_local = ''_'', ip_all = all_ips, ip_matching = []\<rparr>
           in Inr (if pattern = [] then info
                   else match_loop (\<lambda>ip. case compile pattern of Some m \<Rightarrow> m ip | None \<Rightarrow> False) override all_ips info)))"

text \<open>\<open>DetectIPByDial\<close>: the local address of a connection; \<open>None\<close> when it is not a TCP address.\<close>

datatype dial_error = Dial_Failed | Unexpected_Address_Type

definition detect_ip_by_dial :: "nic_addr option option \<Rightarrow> dial_error + string" where
  "detect_ip_by_dial conn =
     (case conn of
        None \<Rightarrow> Inl Dial_Failed
      | Some None \<Rightarrow> Inl Unexpected_Address_Type
      | Some (Some a) \<Rightarrow> Inr (ip_string a))"

section \<open>Equipment information\<close>

datatype eqp_error = Invalid_Eqp_Info nat | Redis_Failed string

definition parse_eqp_info_value :: "string \<Rightarrow> eqp_error + eqp_info_config" where
  "parse_eqp_info_value value =
     (let parts = split_on CHR '':'' value in
      if length parts < 6 then Inl (Invalid_Eqp_Info (length parts))
      else Inr \<lparr>eq_process = parts ! 0, eq_model = parts ! 1, eq_id = parts ! 2, eq_line = parts ! 3,
                eq_line_desc = parts ! 4, eq_index = parts ! 5\<rparr>)"

datatype hget_answer = Hget_Nil | Hget_Error | Hget_Value string

type_synonym ip_candidate = "string \<times> string"

definition hash_key :: "ip_candidate \<Rightarrow> string" where
  "hash_key c = fst c @ '':'' @ snd c"

definition fetch_eqp_info ::
  "(string \<Rightarrow> hget_answer) \<Rightarrow> ip_candidate \<Rightarrow> eqp_error + eqp_info_config option" where
  "fetch_eqp_info hget c =
     (case hget (hash_key c) of
        Hget_Nil \<Rightarrow> Inr None
      | Hget_Error \<Rightarrow> Inl (Redis_Failed (hash_key c))
      | Hget_Value v \<Rightarrow> map_sum id Some (parse_eqp_info_value v))"

fun fetch_eqp_info_multi ::
  "(string \<Rightarrow> hget_answer) \<Rightarrow> ip_candidate list \<Rightarrow> eqp_error + (eqp_info_config \<times> ip_candidate) option" where
  "fetch_eqp_info_multi hget [] = Inr None"
| "fetch_eqp_info_multi hget (c # cs) =
     (case hget (hash_key c) of
        Hget_Nil \<Rightarrow> fetch_eqp_info_multi hget cs
      | Hget_Error \<Rightarrow> Inl (Redis_Failed (hash_key c))
      | Hget_Value v \<Rightarrow> map_sum id (\<lambda>info. Some (info, c)) (parse_eqp_info_value v))"

section \<open>Services\<close>

datatype http_answer = No_Request | No_Response | Answer int string

datatype discovery_error =
  Request_Not_Created | Request_Unanswered | Http_Answer int | Unreadable_Answer | Missing_Service string

definition services_url :: "string \<Rightarrow> int \<Rightarrow> string \<Rightarrow> string" where
  "services_url virtual_ip port eqp_index =
     ''http://'' @ virtual_ip @ '':'' @ itoa port @ ''/EARS/Service/Multi?index='' @ eqp_index"

definition fetch_services ::
  "(string \<Rightarrow> (string \<times> string) list option) \<Rightarrow> (string \<Rightarrow> http_answer) \<Rightarrow> string \<Rightarrow> int \<Rightarrow> string \<Rightarrow>
     discovery_error + (string \<times> string) list" where
  "fetch_services decode get virtual_ip port eqp_index =
     (case get (services_url virtual_ip port eqp_index) of
        No_Request \<Rightarrow> Inl Request_Not_Created
      | No_Response \<Rightarrow> Inl Request_Unanswered
      | Answer status body \<Rightarrow>
          if status \<noteq> 200 then Inl (Http_Answer status)
          else case decode body of None \<Rightarrow> Inl Unreadable_Answer | Some services \<Rightarrow> Inr services)"

definition fetch_external_ip :: "(string \<Rightarrow> http_answer) \<Rightarrow> string \<Rightarrow> discovery_error + string" where
  "fetch_external_ip post ears_if_addr =
     (case post (''http://'' @ ears_if_addr @ ''/EARS/Interface'') of
        No_Request \<Rightarrow> Inl Request_Not_Created
      | No_Response \<Rightarrow> Inl Request_Unanswered
      | Answer status body \<Rightarrow> if status \<noteq> 200 then Inl (Http_Answer status) else Inr (trim_space body))"

definition service_address :: "string \<Rightarrow> (string \<times> string) list \<Rightarrow> discovery_error + string" where
  "service_address name services =
     (case map_of services name of
        None \<Rightarrow> Inl (Missing_Service name)
      | Some addr \<Rightarrow> if addr = [] then Inl (Missing_Service name) else Inr addr)"

definition get_kafka_rest_address :: "(string \<times> string) list \<Rightarrow> discovery_error + string" where
  "get_kafka_rest_address services = service_address ''KafkaRest'' services"

definition get_ears_interface_srv_address :: "(string \<times> string) list \<Rightarrow> discovery_error + string" where
  "get_ears_interface_srv_address services = service_address ''EARSInterfaceSrv'' services"

section \<open>Facts\<close>

lemma service_address_nonempty: "service_address name services = Inr addr \<Longrightarrow> addr \<noteq> [] \<and> map_of services name = Some addr"
  by (auto simp: service_address_def split: option.splits if_splits)

text \<open>The loop of \<open>DetectIPs\<close> in closed form.\<close>

lemma match_loop_local:
  "ip_addr_local info \<noteq> ''_'' \<Longrightarrow>
     match_loop m override ips info = info\<lparr>ip_matching := ip_matching info @ filter m ips\<rparr>"
  by (induction ips arbitrary: info) auto

lemma match_loop_eq:
  assumes "ip_addr_local info = ''_''" and "''_'' \<notin> set ips"
  shows "match_loop m override ips info =
    (case filter m ips of
       [] \<Rightarrow> info
     | ip # _ \<Rightarrow>
         info\<lparr>ip_matching := ip_matching info @ filter m ips, ip_addr_local := ip,
              ip_addr := (if override \<noteq> [] then ip_addr info
                          else case filter (\<lambda>c. c \<noteq> ip) (ip_all info) of [] \<Rightarrow> ip_addr info | c # _ \<Rightarrow> c)\<rparr>)"
  using assms
proof (induction ips arbitrary: info)
  case (Cons ip ips)
  show ?case
  proof (cases "m ip")
    case True
    have "ip \<noteq> ''_''" using Cons.prems(2) by auto
    with True Cons.prems(1) show ?thesis
      by (auto simp: Let_def match_loop_local split: list.splits)
  next
    case False
    then show ?thesis using Cons by (simp split: list.split)
  qed
qed simp

lemma ip_string_V4_no_underscore: "usable_addr a \<Longrightarrow> ip_string a \<noteq> ''_''"
  by (auto simp: usable_addr_def ip_string_def split: nic_addr.splits dest!: arg_cong [of _ _ length])

lemma detected_no_underscore: "detect_ipv4_addresses ifaces = Some ips \<Longrightarrow> ''_'' \<notin> set ips"
  by (auto simp: detect_ipv4_addresses_def dest!: ip_string_V4_no_underscore [THEN not_sym] split: if_splits option.splits)

section \<open>Properties\<close>


definition sample_nics :: "nic list" where
  "sample_nics = [\<lparr>nic_loopback = True, nic_up = True, nic_addrs = Some [V4 127 0 0 1]\<rparr>,
     \<lparr>nic_loopback = False, nic_up = True, nic_addrs = Some [V4 10 0 0 1, V6 ''fe80::1'', V4 192 168 0 2]\<rparr>]"

definition sample_compile :: "string \<Rightarrow> (string \<Rightarrow> bool) option" where
  "sample_compile pattern = Some (\<lambda>ip. has_prefix ip pattern)"


text \<open>The equipment found by \<open>FetchEqpInfoMulti\<close> is that of the first candidate registered in Redis; a failed
  query before that, or a malformed value, is reported; no candidate is skipped.\<close>

theorem first_registered_candidate:
  "fetch_eqp_info_multi hget cs =
    (case dropWhile (\<lambda>c. hget (hash_key c) = Hget_Nil) cs of
       [] \<Rightarrow> Inr None
     | c # _ \<Rightarrow>
         (case hget (hash_key c) of
            Hget_Value v \<Rightarrow> map_sum id (\<lambda>info. Some (info, c)) (parse_eqp_info_value v)
          | _ \<Rightarrow> Inl (Redis_Failed (hash_key c))))"
  by (induction cs) (auto split: hget_answer.splits)

text \<open>An equipment record whose fields hold no colon is read back from the text it is stored as, also when
  further segments follow; a text of fewer than six segments is refused with their number.\<close>

theorem eqp_info_reads_back:
  assumes "list_all (\<lambda>f. CHR '':'' \<notin> set f)
    ([eq_process e, eq_model e, eq_id e, eq_line e, eq_line_desc e, eq_index e] @ extra)"
  shows "parse_eqp_info_value (join_with CHR '':''
      ([eq_process e, eq_model e, eq_id e, eq_line e, eq_line_desc e, eq_index e] @ extra)) = Inr e"
proof -
  let ?fields = "[eq_process e, eq_model e, eq_id e, eq_line e, eq_line_desc e, eq_index e] @ extra"
  have "split_on CHR '':'' (join_with CHR '':'' ?fields) = ?fields"
    by (rule split_join) (use assms in \<open>simp_all add: list_all_iff\<close>)
  then show ?thesis by (simp only: parse_eqp_info_value_def Let_def) simp
qed

theorem eqp_info_reads_back_witness:
  "parse_eqp_info_value ''P:M:E1:L:D:1:x'' =
     Inr \<lparr>eq_process = ''P'', eq_model = ''M'', eq_id = ''E1'', eq_line = ''L'', eq_line_desc = ''D'', eq_index = ''1''\<rparr>"
  using eqp_info_reads_back [of
      "\<lparr>eq_process = ''P'', eq_model = ''M'', eq_id = ''E1'', eq_line = ''L'', eq_line_desc = ''D'', eq_index = ''1''\<rparr>"
      "[''x'']"]
  by simp

text \<open>The external address may match the private pattern all the same: with two private addresses, the second
  is reported as the external one.\<close>

theorem external_address_may_be_private:
  "map_sum id (\<lambda>info. (ip_addr info, ip_matching info)) (detect_ips sample_compile
      (Some [\<lparr>nic_loopback = False, nic_up = True, nic_addrs = Some [V4 10 0 0 1, V4 10 0 0 2, V4 192 168 0 2]\<rparr>]) ''10.'' []) =
    Inr (''10.0.0.2'', [''10.0.0.1'', ''10.0.0.2''])"
  by code_simp

end
