(* ===== verification/Refresher.thy ===== *)
theory Refresher
  imports Discovery KafkaSender
begin

text \<open>
  \<open>internal/discovery/refresher.go\<close>: \<open>refreshOnce\<close> and the goroutine around it, over the Kafka sender whose
  transport it swaps (\<open>run\<close> wires \<open>swapTransport\<close> to \<open>KafkaSender.SwapTransport\<close>).  A transport is known by
  the number it was created under and the address it was created for; the ledger of the ones that
  were created and closed is part of the state, for the theorems speak of it.
\<close>

section \<open>State\<close>

record transport_handle =
  th_id :: nat
  th_addr :: string

record refresher =
  rf_interval :: int
  rf_current :: string
  rf_sender :: "transport_handle kafka_sender"
  rf_created :: nat
  rf_closed :: "nat list"     \<comment> \<open>transports whose \<open>Close\<close> has been called, in order\<close>
  rf_closing :: "nat list"    \<comment> \<open>handed to \<open>go r.closeOld\<close>\<close>

definition new_refresher :: "int \<Rightarrow> string \<Rightarrow> transport_handle kafka_sender \<Rightarrow> refresher" where
  "new_refresher interval addr s =
     \<lparr>rf_interval = interval, rf_current = addr, rf_sender = s, rf_created = 1, rf_closed = [], rf_closing = []\<rparr>"

text \<open>
  \<open>refreshOnce\<close>: \<open>fetched\<close> is the answer of \<open>fetchAddr\<close>, \<open>factory\<close> says for which addresses a transport can be
  built.
\<close>

definition refresh_once :: "discovery_error + string \<Rightarrow> (string \<Rightarrow> bool) \<Rightarrow> refresher \<Rightarrow> refresher" where
  "refresh_once fetched factory r =
     (case fetched of
        Inl _ \<Rightarrow> r
      | Inr new_addr \<Rightarrow>
          if new_addr = rf_current r then r
          else if \<not> factory new_addr then r
          else
            (let new = \<lparr>th_id = rf_created r, th_addr = new_addr\<rparr>; r1 = r\<lparr>rf_created := Suc (rf_created r)\<rparr> in
             case swap_transport new (rf_sender r1) of
               (s, Inl _) \<Rightarrow> r1\<lparr>rf_sender := s, rf_closed := rf_closed r1 @ [th_id new]\<rparr>
             | (s, Inr old) \<Rightarrow>
                 r1\<lparr>rf_sender := s, rf_current := new_addr, rf_closing := rf_closing r1 @ [th_id old]\<rparr>))"

text \<open>\<open>Close\<close> of the sender closes the transport it holds.\<close>

definition close_sender_transport :: "refresher \<Rightarrow> refresher" where
  "close_sender_transport r =
     (if ks_closed (rf_sender r) then r
      else r\<lparr>rf_sender := fst (kafka_sender_close (\<lambda>t. (t, None)) (rf_sender r)),
             rf_closed := rf_closed r @ [th_id (ks_transport (rf_sender r))]\<rparr>)"

text \<open>
  The goroutine makes one \<open>refreshOnce\<close> after the other: the first after the interval and a jitter below
  it, the next ones with a ticker.  It is started only for a positive interval.
\<close>

definition first_refresh_after :: "int \<Rightarrow> int \<Rightarrow> int" where
  "first_refresh_after interval jitter = interval + jitter"

definition refresher_starts :: "int \<Rightarrow> bool" where
  "refresher_starts interval = (0 < interval)"

datatype refresh_event =
    Refresh "discovery_error + string" "string \<Rightarrow> bool"
  | Close_Old nat
  | Close_Sender

fun refresh_event_step :: "refresh_event \<Rightarrow> refresher \<Rightarrow> refresher" where
  "refresh_event_step (Refresh fetched factory) r = (if refresher_starts (rf_interval r) then refresh_once fetched factory r else r)"
| "refresh_event_step (Close_Old t) r =
     (if t \<in> set (rf_closing r) then r\<lparr>rf_closing := remove1 t (rf_closing r), rf_closed := rf_closed r @ [t]\<rparr> else r)"
| "refresh_event_step Close_Sender r = close_sender_transport r"

definition refresh_run :: "refresh_event list \<Rightarrow> refresher \<Rightarrow> refresher" where
  "refresh_run es r = fold refresh_event_step es r"

section \<open>The invariant\<close>

text \<open>
  Every transport created is exactly one of: the one the sender holds open, closed, about to be
  closed.  The sender sends to the address the refresher takes for the current one.
\<close>

definition refresher_ok :: "refresher \<Rightarrow> bool" where
  "refresher_ok r =
     (mset (rf_closed r @ rf_closing r @ (if ks_closed (rf_sender r) then [] else [th_id (ks_transport (rf_sender r))])) =
        mset [0..<rf_created r] \<and>
      th_addr (ks_transport (rf_sender r)) = rf_current r)"

lemma refresher_ok_init:
  "\<not> ks_closed s \<Longrightarrow> ks_transport s = \<lparr>th_id = 0, th_addr = addr\<rparr> \<Longrightarrow> refresher_ok (new_refresher interval addr s)"
  by (simp add: refresher_ok_def new_refresher_def)

lemma refresh_once_ok [inv_intros]: "refresher_ok r \<Longrightarrow> refresher_ok (refresh_once fetched factory r)"
  by (auto simp: refresher_ok_def refresh_once_def swap_transport_def Let_def atLeast0_lessThan_Suc split: sum.splits)

lemma close_sender_ok [inv_intros]: "refresher_ok r \<Longrightarrow> refresher_ok (close_sender_transport r)"
  by (auto simp: refresher_ok_def close_sender_transport_def kafka_sender_close_def)

lemma close_old_ok: "refresher_ok r \<Longrightarrow> refresher_ok (refresh_event_step (Close_Old t) r)"
  by (auto simp: refresher_ok_def)

lemma refresh_event_ok [inv_intros]: "refresher_ok r \<Longrightarrow> refresher_ok (refresh_event_step e r)"
  using close_old_ok by (cases e) (auto intro: inv_intros)

lemma refresh_run_ok: "refresher_ok r \<Longrightarrow> refresher_ok (refresh_run es r)"
  unfolding refresh_run_def by (induction es arbitrary: r) (auto intro: inv_intros)

lemma refresher_ok_ledger:
  assumes "refresher_ok r"
  shows "th_addr (ks_transport (rf_sender r)) = rf_current r" and "distinct (rf_closed r @ rf_closing r)"
    and "set (rf_closed r @ rf_closing r) =
      (if ks_closed (rf_sender r) then {0..<rf_created r} else {0..<rf_created r} - {th_id (ks_transport (rf_sender r))})"
proof -
  let ?live = "if ks_closed (rf_sender r) then [] else [th_id (ks_transport (rf_sender r))]"
  have eq: "mset (rf_closed r @ rf_closing r @ ?live) = mset [0..<rf_created r]"
    using assms by (simp add: refresher_ok_def)
  then have dist: "distinct (rf_closed r @ rf_closing r @ ?live)"
    using mset_eq_imp_distinct_iff [OF eq] by simp
  have "set (rf_closed r @ rf_closing r @ ?live) = {0..<rf_created r}"
    using mset_eq_setD [OF eq] by simp
  then show "th_addr (ks_transport (rf_sender r)) = rf_current r" and "distinct (rf_closed r @ rf_closing r)"
    and "set (rf_closed r @ rf_closing r) =
      (if ks_closed (rf_sender r) then {0..<rf_created r} else {0..<rf_created r} - {th_id (ks_transport (rf_sender r))})"
    using dist assms by (auto simp: refresher_ok_def split: if_splits)
qed

section \<open>Properties\<close>

definition sample_refresher :: refresher where
  "sample_refresher = new_refresher 600 ''h1'' (new_kafka_sender \<lparr>th_id = 0, th_addr = ''h1''\<rparr> ''tp'' None grok_format_raw)"

text \<open>Address refreshes lose no transport: after any sequence of refreshes, of closings of replaced
  transports and of the close of the sender itself, the sender sends to the address the refresher holds
  for the current one, and every transport ever created is closed exactly once, waits for its close, or
  is the one in use; after the sender is closed none is in use.\<close>

theorem transports_accounted_for:
  assumes "\<not> ks_closed s" and "ks_transport s = \<lparr>th_id = 0, th_addr = addr\<rparr>"
    and "r = refresh_run es (new_refresher interval addr s)"
  shows "th_addr (ks_transport (rf_sender r)) = rf_current r \<and>
    distinct (rf_closed r @ rf_closing r) \<and>
    set (rf_closed r @ rf_closing r) =
      (if ks_closed (rf_sender r) then {0..<rf_created r}
       else {0..<rf_created r} - {th_id (ks_transport (rf_sender r))})"
  using refresher_ok_ledger [of r] refresh_run_ok [OF refresher_ok_init [OF assms(1,2)]] assms(3) by blast

theorem transports_accounted_for_witness:
  "rf_current (refresh_run [Refresh (Inr ''h2'') (\<lambda>_. True), Close_Sender, Refresh (Inr ''h3'') (\<lambda>_. True)] sample_refresher) = ''h2'' \<and>
   set (rf_closed (refresh_run [Refresh (Inr ''h2'') (\<lambda>_. True), Close_Sender, Refresh (Inr ''h3'') (\<lambda>_. True)] sample_refresher) @ [0]) =
     {0..<3}"
  using transports_accounted_for [of "new_kafka_sender \<lparr>th_id = 0, th_addr = ''h1''\<rparr> ''tp'' None grok_format_raw" "''h1''" _
      "[Refresh (Inr ''h2'') (\<lambda>_. True), Close_Sender, Refresh (Inr ''h3'') (\<lambda>_. True)]" 600, OF _ _ refl]
  by (simp add: sample_refresher_def new_refresher_def new_kafka_sender_def refresh_run_def refresher_starts_def
      refresh_once_def swap_transport_def close_sender_transport_def kafka_sender_close_def Let_def eval_nat_numeral)

text \<open>A refresh changes something only when the discovery answers with a different address for which a
  transport can be built and the sender is still open; then the sender sends to that address from there
  on.\<close>

theorem refresh_changes_only_address:
  "refresh_once fetched factory r =
     (if (\<exists>a. fetched = Inr a \<and> a \<noteq> rf_current r \<and> factory a) then
        (if ks_closed (rf_sender r)
         then r\<lparr>rf_created := Suc (rf_created r), rf_closed := rf_closed r @ [rf_created r]\<rparr>
         else r\<lparr>rf_created := Suc (rf_created r), rf_current := projr fetched,
                rf_sender := (rf_sender r)\<lparr>ks_transport := \<lparr>th_id = rf_created r, th_addr = projr fetched\<rparr>\<rparr>,
                rf_closing := rf_closing r @ [th_id (ks_transport (rf_sender r))]\<rparr>)
      else r)"
  by (auto simp: refresh_once_def swap_transport_def Let_def split: sum.splits)

end
