(* ===== verification/Factory.thy ===== *)
theory Factory
  imports Sender Validate
begin

text \<open>
  \<open>internal/sender/factory.go\<close>: which sender a configuration asks for, and the broker address derived
  from the proxy's.  \<open>net.SplitHostPort\<close> is modelled; a missing equipment info or a transport that
  cannot be built is an error value.
\<close>

section \<open>Addresses\<close>

definition last_colon :: "string \<Rightarrow> nat option" where
  "last_colon s =
     (if CHR '':'' \<in> set s then Some (length s - Suc (length (takeWhile (\<lambda>c. c \<noteq> CHR '':'') (rev s)))) else None)"

definition index_of :: "char \<Rightarrow> string \<Rightarrow> nat option" where
  "index_of c s = (if c \<in> set s then Some (length (takeWhile (\<lambda>x. x \<noteq> c) s)) else None)"

definition split_host_port :: "string \<Rightarrow> (string \<times> string) option" where
  "split_host_port hp =
     (case last_colon hp of
        None \<Rightarrow> None
      | Some i \<Rightarrow>
          (let port = drop (Suc i) hp in
           if has_prefix hp ''['' then
             (case index_of CHR '']'' hp of
                None \<Rightarrow> None
              | Some e \<Rightarrow>
                  if Suc e \<noteq> i then None
                  else if CHR ''['' \<in> set (drop 1 hp) \<or> CHR '']'' \<in> set (drop (Suc e) hp) then None
                  else Some (take (e - 1) (drop 1 hp), port))
           else if CHR '':'' \<in> set (take i hp) then None
           else if CHR ''['' \<in> set hp \<or> CHR '']'' \<in> set hp then None
           else Some (take i hp, port)))"

definition extract_host :: "string \<Rightarrow> string" where
  "extract_host addr =
     (let a = trim_prefix (trim_prefix addr ''http://'') ''https://'' in
      case split_host_port a of None \<Rightarrow> a | Some (host, _) \<Rightarrow> host)"

datatype factory_error =
    Empty_Kafka_Rest_Address
  | Unknown_Sender_Type string
  | Transport_Failed
  | File_Sender_Failed file_error
  | Nil_Equipment_Info

definition resolve_broker_addr :: "string \<Rightarrow> int \<Rightarrow> factory_error + string" where
  "resolve_broker_addr addr port =
     (let host = extract_host addr in
      if host = [] then Inl Empty_Kafka_Rest_Address
      else Inr (host @ '':'' @ itoa (if port \<le> 0 then 9092 else port)))"

section \<open>The factory\<close>

text \<open>What is created: a Kafka sender over the buffered transport, one over sarama, or a file sender.\<close>

datatype 'w sender =
    Kafka_Rest_Sender "system kafka_sender"
  | Kafka_Sarama_Sender string sarama_config "tagged list kafka_sender"
  | File_Sender "'w file_sender"

record 'w environment =
  env_http_ok :: "socks_config \<Rightarrow> bool"
  env_sarama :: "kafka_config \<Rightarrow> batch_config \<Rightarrow> socks_config \<Rightarrow> sarama_error + sarama_config"
  env_producer_ok :: "string \<Rightarrow> bool"
  env_mkdir_ok :: "string \<Rightarrow> bool"
  env_open_writer :: "file_config \<Rightarrow> 'w"

definition new_sender :: "'w environment \<Rightarrow> config \<Rightarrow> factory_error + 'w sender" where
  "new_sender env cfg =
     (let sender_type = (if to_lower (cfg_sender_type cfg) = [] then ''kafka'' else to_lower (cfg_sender_type cfg)) in
      if sender_type = ''kafkarest'' then
        (case resolve_topic (cfg_topic cfg) (cfg_eqp_info cfg) of
           None \<Rightarrow> Inl Nil_Equipment_Info
         | Some topic \<Rightarrow>
             if \<not> env_http_ok env (cfg_socks cfg) then Inl Transport_Failed
             else Inr (Kafka_Rest_Sender (new_kafka_sender
                    (initial (cfg_kafka_rest_address cfg) (cfg_batch cfg)) topic (cfg_eqp_info cfg) grok_format_raw)))
      else if sender_type = ''kafka'' then
        (case resolve_topic (cfg_topic cfg) (cfg_eqp_info cfg) of
           None \<Rightarrow> Inl Nil_Equipment_Info
         | Some topic \<Rightarrow>
             bind_result (resolve_broker_addr (cfg_kafka_rest_address cfg) (kc_broker_port (cfg_kafka cfg))) (\<lambda>broker.
               case env_sarama env (cfg_kafka cfg) (cfg_batch cfg) (cfg_socks cfg) of
                 Inl _ \<Rightarrow> Inl Transport_Failed
               | Inr settings \<Rightarrow>
                   if env_producer_ok env broker
                   then Inr (Kafka_Sarama_Sender broker settings
                          (new_kafka_sender [] topic (cfg_eqp_info cfg) json_format_raw))
                   else Inl Transport_Failed))
      else if sender_type = ''file'' then
        (case new_file_sender (env_mkdir_ok env) (env_open_writer env) (cfg_file cfg) of
           Inl e \<Rightarrow> Inl (File_Sender_Failed e)
         | Inr fs \<Rightarrow> Inr (File_Sender fs))
      else Inl (Unknown_Sender_Type sender_type))"

section \<open>Facts\<close>

lemma last_colon_append: "CHR '':'' \<notin> set p \<Longrightarrow> last_colon (h @ CHR '':'' # p) = Some (length h)"
proof -
  assume p: "CHR '':'' \<notin> set p"
  have "takeWhile (\<lambda>c. c \<noteq> CHR '':'') (rev p @ CHR '':'' # rev h) = rev p"
    by (rule takeWhile_append_stop) (use p in auto)
  then show ?thesis by (simp add: last_colon_def)
qed

definition plain_host :: "string \<Rightarrow> bool" where
  "plain_host h = (h \<noteq> [] \<and> CHR '':'' \<notin> set h \<and> CHR ''['' \<notin> set h \<and> CHR '']'' \<notin> set h \<and> CHR ''/'' \<notin> set h)"

lemma split_host_port_plain:
  assumes "plain_host h" and "CHR '':'' \<notin> set p" "CHR ''['' \<notin> set p" "CHR '']'' \<notin> set p"
  shows "split_host_port (h @ CHR '':'' # p) = Some (h, p)"
proof -
  obtain c cs where "h = c # cs" "c \<noteq> CHR ''[''"
    using assms(1) by (cases h) (auto simp: plain_host_def)
  then have "\<not> has_prefix (h @ CHR '':'' # p) ''[''" by (simp add: has_prefix_def)
  then show ?thesis
    using assms by (simp add: split_host_port_def last_colon_append plain_host_def)
qed

lemma split_host_port_no_colon: "CHR '':'' \<notin> set h \<Longrightarrow> split_host_port h = None"
  by (simp add: split_host_port_def last_colon_def)

lemma no_scheme:
  assumes "CHR ''/'' \<notin> set s"
  shows "trim_prefix s ''http://'' = s" "trim_prefix s ''https://'' = s"
  using assms by (auto simp: trim_prefix_def has_prefix_iff)

lemma trim_http: "trim_prefix (trim_prefix (''http://'' @ s) ''http://'') ''https://'' = trim_prefix s ''https://''"
  by (simp only: trim_prefix_append)

lemma trim_https: "trim_prefix (trim_prefix (''https://'' @ s) ''http://'') ''https://'' = s"
proof -
  have "trim_prefix (''https://'' @ s) ''http://'' = ''https://'' @ s"
    by (simp add: trim_prefix_def has_prefix_def)
  then show ?thesis by (simp only: trim_prefix_append)
qed

lemma extract_host_forms:
  assumes h: "plain_host h" and p: "0 \<le> p" and scheme: "scheme \<in> {[], ''http://'', ''https://''}"
  shows "extract_host (scheme @ h) = h" and "extract_host (scheme @ h @ '':'' @ itoa p) = h"
proof -
  have noslash: "CHR ''/'' \<notin> set (h @ '':'' @ itoa p)" "CHR ''/'' \<notin> set h"
    using h itoa_chars [of "CHR ''/''" p] by (auto simp: plain_host_def is_digit_def)
  have strip: "trim_prefix (trim_prefix (scheme @ a) ''http://'') ''https://'' = a" if "CHR ''/'' \<notin> set a" for a
    using scheme trim_http [of a] trim_https [of a] no_scheme [OF that] by auto
  have colon: "CHR '':'' \<notin> set h" using h by (simp add: plain_host_def)
  show "extract_host (scheme @ h) = h"
    unfolding extract_host_def strip [OF noslash(2)] Let_def
    by (simp add: split_host_port_no_colon [OF colon])
  have "CHR ''['' \<notin> set (itoa p)" "CHR '']'' \<notin> set (itoa p)"
    using itoa_chars [of "CHR ''[''" p] itoa_chars [of "CHR '']''" p] by (auto simp: is_digit_def)
  then have "split_host_port (h @ CHR '':'' # itoa p) = Some (h, itoa p)"
    using h by (intro split_host_port_plain) simp_all
  then show "extract_host (scheme @ h @ '':'' @ itoa p) = h"
    unfolding extract_host_def strip [OF noslash(1)] Let_def by simp
qed

section \<open>Properties\<close>

text \<open>The broker address is the proxy's host with the broker port: whatever scheme and port the proxy
  address carries, for a host name or IPv4 address the result is \<open>host:port\<close> (9092 when no port is
  configured), which splits back into the host and the port.\<close>

theorem broker_address_host_and_port:
  assumes "plain_host h" and "0 \<le> p" and "scheme \<in> {[], ''http://'', ''https://''}"
    and "addr \<in> {scheme @ h, scheme @ h @ '':'' @ itoa p}"
  shows "\<exists>broker. resolve_broker_addr addr port = Inr broker \<and>
    split_host_port broker = Some (h, itoa (if port \<le> 0 then 9092 else port))"
proof -
  define q where "q = (if port \<le> 0 then 9092 else port)"
  have "extract_host addr = h" using extract_host_forms [OF assms(1-3)] assms(4) by auto
  then have "resolve_broker_addr addr port = Inr (h @ CHR '':'' # itoa q)"
    using assms(1) by (simp add: resolve_broker_addr_def q_def plain_host_def)
  moreover have "CHR '':'' \<notin> set (itoa q)" "CHR ''['' \<notin> set (itoa q)" "CHR '']'' \<notin> set (itoa q)"
    using itoa_chars [of "CHR '':''" q] itoa_chars [of "CHR ''[''" q] itoa_chars [of "CHR '']''" q]
    by (auto simp: is_digit_def)
  then have "split_host_port (h @ CHR '':'' # itoa q) = Some (h, itoa q)"
    by (intro split_host_port_plain assms(1))
  ultimately show ?thesis by (simp add: q_def)
qed

theorem broker_address_host_and_port_witness:
  "\<exists>broker. resolve_broker_addr ''http://10.0.0.1:8082'' 0 = Inr broker \<and>
     split_host_port broker = Some (''10.0.0.1'', itoa 9092)"
proof -
  have "itoa 8082 = ''8082''" by code_simp
  then show ?thesis
    using broker_address_host_and_port [of "''10.0.0.1''" 8082 "''http://''" "''http://10.0.0.1:8082''" 0]
    by (simp add: plain_host_def)
qed

text \<open>For an IPv6 proxy the derived address is not one: the brackets are lost, so the result has too many
  colons and cannot be split into a host and a port again.\<close>

theorem ipv6_broker_address_broken:
  "resolve_broker_addr ''http://[::1]:8082'' 9092 = Inr ''::1:9092'' \<and> split_host_port ''::1:9092'' = None"
  by code_simp

text \<open>For a configuration that passed validation, with the equipment known and a proxy host resolved, the
  factory fails only for reasons outside the configuration (a transport or directory that cannot be
  created) or because the file format is not written in lower case.\<close>

theorem validated_config_builds_sender:
  assumes "validate_config compiles cfg = []" and "cfg_eqp_info cfg \<noteq> None"
    and "extract_host (cfg_kafka_rest_address cfg) \<noteq> []"
    and "new_sender env cfg = Inl e"
  shows "e = Transport_Failed \<or> e = File_Sender_Failed Mkdir_Failed \<or>
    (e = File_Sender_Failed (Unsupported_Format (fc_format (cfg_file cfg))) \<and>
     to_lower (fc_format (cfg_file cfg)) \<noteq> fc_format (cfg_file cfg))"
proof -
  define st where "st = to_lower (cfg_sender_type cfg)"
  have ok: "config_ok compiles cfg" using assms(1) validate_config_iff by blast
  then have st: "st \<in> {''kafka'', ''kafkarest'', ''file''}" and
    fmt: "to_lower (fc_format (cfg_file cfg)) \<in> {[], ''json'', ''grok'', ''legacy''}"
    by (simp_all add: config_ok_def st_def)
  obtain eqp where eqp: "cfg_eqp_info cfg = Some eqp" using assms(2) by blast
  obtain topic where topic: "resolve_topic (cfg_topic cfg) (Some eqp) = Some topic"
    using resolve_topic_some [of "Some eqp" "cfg_topic cfg"] by auto
  from st consider "st = ''kafka''" | "st = ''kafkarest''" | "st = ''file''" by blast
  then show ?thesis
  proof cases
    case 1
    then show ?thesis using assms(3,4) eqp topic
      by (auto simp: new_sender_def st_def [symmetric] resolve_broker_addr_def Let_def split: sum.splits if_splits)
  next
    case 2
    then show ?thesis using assms(4) eqp topic
      by (auto simp: new_sender_def st_def [symmetric] split: if_splits)
  next
    case 3
    have "to_lower f \<noteq> f" if "file_format f \<noteq> ''json''" "file_format f \<noteq> ''grok''"
      "to_lower f \<in> {[], ''json'', ''grok'', ''legacy''}" for f
      using that by (auto simp: file_format_def split: if_splits)
    moreover have "file_format f = f" if "file_format f \<noteq> ''json''" "file_format f \<noteq> ''grok''" for f
      using that by (auto simp: file_format_def split: if_splits)
    ultimately show ?thesis using 3 assms(4) fmt
      by (auto simp: new_sender_def st_def [symmetric] new_file_sender_def Let_def split: if_splits sum.splits)
  qed
qed

definition sample_environment :: "string environment" where
  "sample_environment =
     \<lparr>env_http_ok = \<lambda>s. True, env_sarama = \<lambda>k b s. Inl Tls_Failed, env_producer_ok = \<lambda>b. False,
      env_mkdir_ok = \<lambda>p. True, env_open_writer = \<lambda>c. []\<rparr>"

theorem validated_config_builds_sender_witness:
  "case new_sender sample_environment (default_config\<lparr>cfg_virtual_address_list := ''v'', cfg_kafka_rest_address := ''h:1'',
      cfg_eqp_info := Some sample_eqp\<rparr>) of Inl e \<Rightarrow> e = Transport_Failed \<or> (\<exists>f. e = File_Sender_Failed f) | Inr s \<Rightarrow> True"
proof (cases "new_sender sample_environment (default_config\<lparr>cfg_virtual_address_list := ''v'', cfg_kafka_rest_address := ''h:1'',
      cfg_eqp_info := Some sample_eqp\<rparr>)")
  case (Inl e)
  have "validate_config (\<lambda>p. True) (default_config\<lparr>cfg_virtual_address_list := ''v'',
      cfg_kafka_rest_address := ''h:1'', cfg_eqp_info := Some sample_eqp\<rparr>) = []"
    by (simp add: validate_config_iff config_ok_def default_config_def port_ok_def to_lower_def ascii_lower_def)
  moreover have "extract_host ''h:1'' \<noteq> []" by code_simp
  ultimately show ?thesis
    using validated_config_builds_sender [OF _ _ _ Inl, of "\<lambda>p. True"] Inl by auto
qed simp

text \<open>Validation is more lenient than the file sender: it ignores the case of \<open>File.Format\<close>, and a
  configuration that asks for \<open>JSON\<close> in capitals passes it but builds no sender.\<close>

theorem validated_format_rejected:
  "\<exists>cfg. validate_config compiles cfg = [] \<and>
     new_sender env cfg = Inl (File_Sender_Failed (Unsupported_Format ''JSON''))"
proof -
  let ?cfg = "default_config\<lparr>cfg_sender_type := ''file'',
     cfg_file := (cfg_file default_config)\<lparr>fc_format := ''JSON''\<rparr>\<rparr>"
  have "to_lower ''file'' = ''file''" "to_lower ''JSON'' = ''json''" "to_lower ''snappy'' = ''snappy''"
    by code_simp+
  then have "validate_config compiles ?cfg = []"
    by (simp add: validate_config_iff config_ok_def default_config_def port_ok_def)
  moreover have "new_sender env ?cfg = Inl (File_Sender_Failed (Unsupported_Format ''JSON''))"
    by (simp add: new_sender_def new_file_sender_def file_format_def default_config_def to_lower_def ascii_lower_def)
  ultimately show ?thesis by blast
qed

end
