(* ===== verification/Startup.thy ===== *)
theory Startup
  imports Heartbeat Refresher Factory
begin

text \<open>
  \<open>cmd/resourceagent/main.go\<close>: \<open>setupInfrastructure\<close> and its two flows, \<open>setupSender\<close>, and the phases of \<open>run\<close>
  with what each acquires and when it is given back.  The configuration, which the code updates in
  place, is passed on and returned.  The world outside the agent is the record \<open>surroundings\<close>.
\<close>

section \<open>Candidates\<close>

definition build_candidates_proxy :: "string \<Rightarrow> ip_info \<Rightarrow> ip_candidate list" where
  "build_candidates_proxy external_ip info =
     (if ip_matching info \<noteq> [] then map (\<lambda>inner. (external_ip, inner)) (ip_matching info)
      else [(external_ip, ''_'')])"

fun candidates_loop :: "string list \<Rightarrow> string list \<Rightarrow> ip_candidate list \<Rightarrow> ip_candidate list" where
  "candidates_loop [] seen acc = acc"
| "candidates_loop (ip # ips) seen acc =
     (if ip \<in> set seen then candidates_loop ips seen acc
      else candidates_loop ips (ip # seen) (acc @ [(ip, ''_'')]))"

definition build_candidates_no_proxy :: "string \<Rightarrow> string list \<Rightarrow> ip_candidate list" where
  "build_candidates_no_proxy detected all_ips =
     (if detected \<noteq> [] then candidates_loop all_ips [detected] [(detected, ''_'')]
      else candidates_loop all_ips [] [])"

section \<open>Infrastructure\<close>

text \<open>
  What the start asks of its surroundings: the SOCKS dialer, HTTP requests through the dialer chosen,
  the interfaces, the connection to Redis whose local address is looked at, and Redis itself.
\<close>

record surroundings =
  su_dialer_ok :: "string \<Rightarrow> int \<Rightarrow> bool"
  su_get :: "string \<Rightarrow> http_answer"
  su_post :: "string \<Rightarrow> http_answer"
  su_decode :: "string \<Rightarrow> (string \<times> string) list option"
  su_nics :: "nic list option"
  su_compile :: "string \<Rightarrow> (string \<Rightarrow> bool) option"
  su_dial :: "string \<Rightarrow> nic_addr option option"
  su_hget :: "string \<Rightarrow> string \<Rightarrow> hget_answer"
  su_sync :: "gotime option \<times> gotime \<times> bool"
  su_db :: redis_db

record infra_result =
  ir_agent_id :: string
  ir_syncer :: "syncer option"
  ir_virtual_ip :: string
  ir_proxied :: bool
  ir_client :: bool

datatype startup_error =
    Missing_Virtual_Address | Empty_Virtual_Ip | Socks_Dialer_Failed
  | Discovery_Failed discovery_error | Ip_Failed ip_error | Eqp_Failed eqp_error | Eqp_Not_Found
  | Sync_Failed sync_error | Sender_Not_Created factory_error

definition apply_eqp_info :: "eqp_info_config \<Rightarrow> config \<times> infra_result \<Rightarrow> config \<times> infra_result" where
  "apply_eqp_info info s = ((fst s)\<lparr>cfg_eqp_info := Some info\<rparr>, (snd s)\<lparr>ir_agent_id := eq_id info\<rparr>)"

definition start_time_diff_syncer ::
  "surroundings \<Rightarrow> string \<Rightarrow> config \<times> infra_result \<Rightarrow> startup_error + config \<times> infra_result" where
  "start_time_diff_syncer w eqp_id s =
     (let (server, now, set_ok) = su_sync w in
      case start_syncer server now set_ok (new_syncer eqp_id (cfg_time_diff_sync_interval (fst s)), su_db w) of
        (_, Some e) \<Rightarrow> Inl (Sync_Failed e)
      | ((y, _), None) \<Rightarrow> Inr (fst s, (snd s)\<lparr>ir_syncer := Some y\<rparr>))"

definition services_at :: "surroundings \<Rightarrow> string \<Rightarrow> config \<Rightarrow> string \<Rightarrow> startup_error + (string \<times> string) list" where
  "services_at w virtual_ip cfg index =
     map_sum Discovery_Failed id
       (fetch_services (su_decode w) (su_get w) virtual_ip (cfg_service_discovery_port cfg) index)"

text \<open>The steps the two flows share, from the equipment info on.\<close>

definition locate_equipment ::
  "surroundings \<Rightarrow> string \<Rightarrow> string \<Rightarrow> ip_candidate list \<Rightarrow> config \<times> infra_result \<Rightarrow>
     startup_error + config \<times> infra_result" where
  "locate_equipment w virtual_ip redis_address candidates s =
     bind_result (map_sum Eqp_Failed id (fetch_eqp_info_multi (su_hget w redis_address) candidates)) (\<lambda>found.
       case found of
         None \<Rightarrow> Inl Eqp_Not_Found
       | Some (info, _) \<Rightarrow>
           (let s1 = apply_eqp_info info s in
            bind_result (services_at w virtual_ip (fst s1) (eq_index info)) (\<lambda>services.
              bind_result (map_sum Discovery_Failed id (get_kafka_rest_address services)) (\<lambda>addr.
                start_time_diff_syncer w (eq_id info) ((fst s1)\<lparr>cfg_kafka_rest_address := addr\<rparr>, snd s1)))))"

definition setup_with_proxy ::
  "surroundings \<Rightarrow> string \<Rightarrow> string \<Rightarrow> config \<times> infra_result \<Rightarrow> startup_error + config \<times> infra_result" where
  "setup_with_proxy w virtual_ip redis_address s =
     bind_result (services_at w virtual_ip (fst s) ''0'') (\<lambda>services.
       bind_result (map_sum Discovery_Failed id (get_kafka_rest_address services)) (\<lambda>_.
         bind_result (map_sum Discovery_Failed id (get_ears_interface_srv_address services)) (\<lambda>ears.
           bind_result (map_sum Discovery_Failed id (fetch_external_ip (su_post w) ears)) (\<lambda>external.
             bind_result (map_sum Ip_Failed id
                 (detect_ips (su_compile w) (su_nics w) (cfg_private_ip_pattern (fst s)) [])) (\<lambda>info.
               locate_equipment w virtual_ip redis_address (build_candidates_proxy external info) s)))))"

definition setup_without_proxy ::
  "surroundings \<Rightarrow> string \<Rightarrow> string \<Rightarrow> config \<times> infra_result \<Rightarrow> startup_error + config \<times> infra_result" where
  "setup_without_proxy w virtual_ip redis_address s =
     (let detected = (case detect_ip_by_dial (su_dial w redis_address) of Inl _ \<Rightarrow> [] | Inr ip \<Rightarrow> ip) in
      bind_result (map_sum Ip_Failed id (detect_ips (su_compile w) (su_nics w) [] [])) (\<lambda>info.
        locate_equipment w virtual_ip redis_address (build_candidates_no_proxy detected (ip_all info)) s))"

definition setup_infrastructure ::
  "surroundings \<Rightarrow> string \<Rightarrow> config \<Rightarrow> startup_error + config \<times> infra_result" where
  "setup_infrastructure w agent_id cfg =
     (let result = \<lparr>ir_agent_id = agent_id, ir_syncer = None, ir_virtual_ip = [], ir_proxied = False, ir_client = False\<rparr> in
      if to_lower (cfg_sender_type cfg) = ''file'' then Inr (cfg, result)
      else if cfg_virtual_address_list cfg = [] then Inl Missing_Virtual_Address
      else
        (let virtual_ip = trim_space (hd (split_on CHR '','' (cfg_virtual_address_list cfg)));
             socks = cfg_socks cfg; proxied = (sk_host socks \<noteq> [] \<and> sk_port socks > 0);
             redis_address = virtual_ip @ '':'' @ itoa (rd_port (cfg_redis cfg));
             result1 = result\<lparr>ir_virtual_ip := virtual_ip, ir_proxied := proxied, ir_client := True\<rparr> in
         if virtual_ip = [] then Inl Empty_Virtual_Ip
         else if proxied \<and> \<not> su_dialer_ok w (sk_host socks) (sk_port socks) then Inl Socks_Dialer_Failed
         else if proxied then setup_with_proxy w virtual_ip redis_address (cfg, result1)
         else setup_without_proxy w virtual_ip redis_address (cfg, result1)))"

section \<open>The sender\<close>

definition setup_sender :: "'w environment \<Rightarrow> config \<Rightarrow> logging_config \<Rightarrow> config \<times> (startup_error + 'w sender)" where
  "setup_sender env cfg lc =
     (let cfg1 = cfg\<lparr>cfg_file := (cfg_file cfg)\<lparr>fc_console := lc_console lc\<rparr>\<rparr>
      in (cfg1, map_sum Sender_Not_Created id (new_sender env cfg1)))"

text \<open>When an address refresher runs, and the address it fetches.\<close>

definition is_kafka_sender :: "'w sender \<Rightarrow> bool" where
  "is_kafka_sender s = (case s of Kafka_Rest_Sender _ \<Rightarrow> True | Kafka_Sarama_Sender _ _ _ \<Rightarrow> True | File_Sender _ \<Rightarrow> False)"

definition refresher_wanted :: "config \<Rightarrow> 'w sender \<Rightarrow> bool" where
  "refresher_wanted cfg s =
     (cfg_update_server_interval cfg > 0 \<and> to_lower (cfg_sender_type cfg) \<noteq> ''file'' \<and> is_kafka_sender s)"

text \<open>\<open>fetchAddr\<close> as \<open>run\<close> wires it; \<open>None\<close> is the dereference of a nil client or of nil equipment info.\<close>

definition fetch_addr :: "surroundings \<Rightarrow> config \<times> infra_result \<Rightarrow> (discovery_error + string) option" where
  "fetch_addr w s =
     (if \<not> ir_client (snd s) then None
      else case cfg_eqp_info (fst s) of
        None \<Rightarrow> None
      | Some e \<Rightarrow> Some (bind_result (fetch_services (su_decode w) (su_get w) (ir_virtual_ip (snd s))
          (cfg_service_discovery_port (fst s)) (eq_index e)) get_kafka_rest_address))"

section \<open>The phases of run\<close>

datatype resource = R_Syncer | R_Discovery | R_Heartbeat | R_Helper | R_Sender | R_Refresher | R_Scheduler | R_Watchers

datatype run_event = Acquire resource | Serving | Release resource | Exits startup_error

text \<open>
  A phase acquires a resource and defers its release, or ends the run with an error; deferred calls run
  in reverse order.  \<open>Stop\<close> of the scheduler is not deferred: \<open>run\<close> calls it when the context is done.
\<close>

datatype run_phase = Acquires resource | Fails startup_error | Schedules

fun run_phases :: "run_phase list \<Rightarrow> resource list \<Rightarrow> bool \<Rightarrow> run_event list" where
  "run_phases [] deferred sched = [Serving] @ (if sched then [Release R_Scheduler] else []) @ map Release deferred"
| "run_phases (Fails e # ps) deferred sched = [Exits e] @ map Release deferred"
| "run_phases (Acquires r # ps) deferred sched = Acquire r # run_phases ps (r # deferred) sched"
| "run_phases (Schedules # ps) deferred sched = Acquire R_Scheduler # run_phases ps deferred True"

definition run_of ::
  "surroundings \<Rightarrow> 'w environment \<Rightarrow> string \<Rightarrow> config \<Rightarrow> logging_config \<Rightarrow> run_event list" where
  "run_of w env agent_id cfg lc =
     (case setup_infrastructure w agent_id cfg of
        Inl e \<Rightarrow> run_phases [Fails e] [] False
      | Inr (cfg1, infra) \<Rightarrow>
          (let (cfg2, snd) = setup_sender env cfg1 lc in
           run_phases
             ((if ir_syncer infra \<noteq> None then [Acquires R_Syncer] else []) @
              (if ir_client infra then [Acquires R_Discovery] else []) @
              (if cfg_eqp_info cfg1 \<noteq> None then [Acquires R_Heartbeat] else []) @
              [Acquires R_Helper] @
              (case snd of
                 Inl e \<Rightarrow> [Fails e]
               | Inr s \<Rightarrow>
                   [Acquires R_Sender] @ (if refresher_wanted cfg2 s then [Acquires R_Refresher] else []) @
                   [Schedules, Acquires R_Watchers])) [] False))"

section \<open>Facts\<close>

text \<open>The first occurrences in a list, the reference for the candidates.\<close>

fun first_occurrences :: "'a list \<Rightarrow> 'a list" where
  "first_occurrences [] = []"
| "first_occurrences (x # xs) = x # filter (\<lambda>y. y \<noteq> x) (first_occurrences xs)"

lemma first_occurrences_filter:
  "first_occurrences (filter P xs) = filter P (first_occurrences xs)"
  by (induction xs) (auto simp: filter_filter conj_commute intro: filter_cong)

lemma first_occurrences_set [simp]: "set (first_occurrences xs) = set xs"
  by (induction xs) auto

lemma first_occurrences_distinct [simp]: "distinct (first_occurrences xs)"
  by (induction xs) auto

lemma candidates_loop_eq:
  "candidates_loop ips seen acc =
     acc @ map (\<lambda>ip. (ip, ''_'')) (filter (\<lambda>ip. ip \<notin> set seen) (first_occurrences ips))"
proof (induction ips seen acc rule: candidates_loop.induct)
  case (2 ip ips seen acc)
  have "filter (\<lambda>y. y \<notin> set (ip # seen)) xs = filter (\<lambda>y. y \<notin> set seen) (filter (\<lambda>y. y \<noteq> ip) xs)" for xs
    by (simp add: conj_commute)
  moreover have "ip \<in> set seen \<Longrightarrow> filter (\<lambda>y. y \<notin> set seen) xs = filter (\<lambda>y. y \<notin> set seen) (filter (\<lambda>y. y \<noteq> ip) xs)" for xs
    by (auto intro: filter_cong)
  ultimately show ?case using 2 by auto
qed simp

text \<open>What a successful \<open>locate_equipment\<close> has found.\<close>

definition located :: "surroundings \<Rightarrow> string \<Rightarrow> string \<Rightarrow> config \<times> infra_result \<Rightarrow> config \<times> infra_result \<Rightarrow> bool" where
  "located w virtual_ip redis_address s s' =
     (\<exists>e c v services addr y.
        su_hget w redis_address (hash_key c) = Hget_Value v \<and> parse_eqp_info_value v = Inr e \<and>
        services_at w virtual_ip (fst s) (eq_index e) = Inr services \<and> map_of services ''KafkaRest'' = Some addr \<and> addr \<noteq> [] \<and>
        s' = ((fst s)\<lparr>cfg_eqp_info := Some e, cfg_kafka_rest_address := addr\<rparr>,
              (snd s)\<lparr>ir_agent_id := eq_id e, ir_syncer := Some y\<rparr>) \<and> ts_eqp_id y = eq_id e \<and> ts_client y)"

lemma fetch_multi_found:
  "fetch_eqp_info_multi hget cs = Inr (Some (e, c)) \<Longrightarrow>
     c \<in> set cs \<and> (\<exists>v. hget (hash_key c) = Hget_Value v \<and> parse_eqp_info_value v = Inr e)"
  by (induction cs) (auto split: hget_answer.splits simp: map_sum_def split: sum.splits)

lemma start_syncer_success:
  "start_syncer server now ok (new_syncer e k, db) = ((y, db'), None) \<Longrightarrow> ts_eqp_id y = e \<and> ts_client y"
  by (auto simp: start_syncer_def sync_once_def new_syncer_def Let_def split: option.splits if_splits)

lemma map_sum_eq_Inr: "map_sum f g x = Inr y \<longleftrightarrow> (\<exists>z. x = Inr z \<and> y = g z)"
  by (cases x) auto

lemma locate_equipment_success:
  assumes "locate_equipment w virtual_ip redis_address candidates s = Inr s'"
  shows "located w virtual_ip redis_address s s'"
proof -
  obtain e c where found: "fetch_eqp_info_multi (su_hget w redis_address) candidates = Inr (Some (e, c))"
    and rest: "bind_result (services_at w virtual_ip (fst (apply_eqp_info e s)) (eq_index e)) (\<lambda>services.
      bind_result (map_sum Discovery_Failed id (get_kafka_rest_address services)) (\<lambda>addr.
        start_time_diff_syncer w (eq_id e) ((fst (apply_eqp_info e s))\<lparr>cfg_kafka_rest_address := addr\<rparr>,
          snd (apply_eqp_info e s)))) = Inr s'"
    using assms by (auto simp: locate_equipment_def bind_result_eq_Inr map_sum_eq_Inr Let_def split: option.splits)
  then obtain services addr where sv: "services_at w virtual_ip (fst (apply_eqp_info e s)) (eq_index e) = Inr services"
    "get_kafka_rest_address services = Inr addr"
    and sy: "start_time_diff_syncer w (eq_id e) ((fst (apply_eqp_info e s))\<lparr>cfg_kafka_rest_address := addr\<rparr>,
      snd (apply_eqp_info e s)) = Inr s'"
    by (auto simp: bind_result_eq_Inr map_sum_eq_Inr)
  obtain y where y: "s' = ((fst (apply_eqp_info e s))\<lparr>cfg_kafka_rest_address := addr\<rparr>,
      (snd (apply_eqp_info e s))\<lparr>ir_syncer := Some y\<rparr>)" "ts_eqp_id y = eq_id e" "ts_client y"
    using sy by (auto simp: start_time_diff_syncer_def Let_def dest!: start_syncer_success split: prod.splits option.splits)
  have "services_at w virtual_ip (fst s) (eq_index e) = Inr services"
    using sv(1) by (simp add: services_at_def apply_eqp_info_def)
  moreover have "addr \<noteq> []" "map_of services ''KafkaRest'' = Some addr"
    using sv(2) service_address_nonempty by (auto simp: get_kafka_rest_address_def)
  ultimately show ?thesis
    using fetch_multi_found [OF found] y unfolding located_def
    by (intro exI [of _ e] exI [of _ c]) (auto simp: apply_eqp_info_def)
qed

lemma setup_infrastructure_success:
  assumes "setup_infrastructure w agent_id cfg = Inr s'" and "to_lower (cfg_sender_type cfg) \<noteq> ''file''"
  shows "\<exists>vip s. vip = trim_space (hd (split_on CHR '','' (cfg_virtual_address_list cfg))) \<and> vip \<noteq> [] \<and>
    fst s = cfg \<and> ir_virtual_ip (snd s) = vip \<and> ir_client (snd s) \<and>
    located w vip (vip @ '':'' @ itoa (rd_port (cfg_redis cfg))) s s'"
  using assms
  by (auto simp: setup_infrastructure_def setup_with_proxy_def setup_without_proxy_def bind_result_eq_Inr map_sum_eq_Inr Let_def
      dest!: locate_equipment_success split: if_splits) (metis fst_conv snd_conv infra_result.select_convs)+

lemma setup_success:
  assumes "setup_infrastructure w agent_id cfg = Inr s'" and "to_lower (cfg_sender_type cfg) \<noteq> ''file''"
  shows "\<exists>r. ir_virtual_ip r = trim_space (hd (split_on CHR '','' (cfg_virtual_address_list cfg))) \<and> ir_client r \<and>
    located w (ir_virtual_ip r) (ir_virtual_ip r @ '':'' @ itoa (rd_port (cfg_redis cfg))) (cfg, r) s'"
proof -
  obtain vip s where s: "vip = trim_space (hd (split_on CHR '','' (cfg_virtual_address_list cfg)))" "fst s = cfg"
    "ir_virtual_ip (snd s) = vip" "ir_client (snd s)" "located w vip (vip @ '':'' @ itoa (rd_port (cfg_redis cfg))) s s'"
    using setup_infrastructure_success [OF assms] by blast
  have "(cfg, snd s) = s" using s(2) by (cases s) simp
  then have "located w (ir_virtual_ip (snd s)) (ir_virtual_ip (snd s) @ '':'' @ itoa (rd_port (cfg_redis cfg))) (cfg, snd s) s'"
    unfolding s(3) using s(5) by simp
  then show ?thesis using s(1,3,4) by blast
qed

section \<open>Properties\<close>

definition sample_surroundings :: surroundings where
  "sample_surroundings =
     \<lparr>su_dialer_ok = (\<lambda>h p. True), su_get = (\<lambda>url. Answer 200 url), su_post = (\<lambda>url. No_Response),
      su_decode = (\<lambda>body. Some [(''KafkaRest'', ''10.0.0.8:50020'')]), su_nics = Some sample_nics,
      su_compile = sample_compile, su_dial = (\<lambda>a. None), su_hget = (\<lambda>a key. Hget_Value ''P:M:E1:L:D:1''),
      su_sync = (Some \<lparr>unix_nanos = 0, zone_offset = 0\<rparr>, \<lparr>unix_nanos = 5000000, zone_offset = 0\<rparr>, True), su_db = Map.empty\<rparr>"

definition sample_logging :: logging_config where
  "sample_logging =
     \<lparr>lc_level = ''info'', lc_file_path = ''agent.log'', lc_max_size_mb = 10, lc_max_backups = 3, lc_max_age_days = 7,
      lc_compress = False, lc_console = False\<rparr>"

definition sample_start :: config where
  "sample_start = default_config\<lparr>cfg_virtual_address_list := '' 10.0.0.9,10.0.0.10'', cfg_sender_type := ''kafkarest''\<rparr>"

definition sample_started :: "config \<times> infra_result" where
  "sample_started =
     (sample_start\<lparr>cfg_eqp_info := Some sample_eqp, cfg_kafka_rest_address := ''10.0.0.8:50020''\<rparr>,
      \<lparr>ir_agent_id = ''E1'', ir_syncer = Some \<lparr>ts_diff = 5, ts_eqp_id = ''E1'', ts_interval = 3600 * second, ts_client = True\<rparr>,
       ir_virtual_ip = ''10.0.0.9'', ir_proxied = False, ir_client = True\<rparr>)"

lemma sample_setup: "setup_infrastructure sample_surroundings ''host'' sample_start = Inr sample_started"
proof -
  have texts: "to_lower ''kafkarest'' = ''kafkarest''"
    "split_on CHR '','' '' 10.0.0.9,10.0.0.10'' = ['' 10.0.0.9'', ''10.0.0.10'']" "trim_space '' 10.0.0.9'' = ''10.0.0.9''"
    "parse_eqp_info_value ''P:M:E1:L:D:1'' = Inr sample_eqp" "eq_id sample_eqp = ''E1''"
    "detect_ipv4_addresses (Some sample_nics) = Some [''10.0.0.1'', ''192.168.0.2'']"
    by code_simp+
  show ?thesis
    by (simp add: setup_infrastructure_def sample_surroundings_def sample_start_def sample_started_def default_config_def texts
        setup_without_proxy_def detect_ips_def Let_def detect_ip_by_dial_def build_candidates_no_proxy_def candidates_loop_eq
        locate_equipment_def services_at_def fetch_services_def get_kafka_rest_address_def service_address_def
        apply_eqp_info_def start_time_diff_syncer_def start_syncer_def sync_once_def new_syncer_def unix_milli_def second_def)
qed



text \<open>After a successful start no nil is dereferenced: the sender factory never misses the equipment info,
  for any sender type, and when an address refresher is started both the discovery client and the
  equipment info it reads are there.\<close>

theorem started_agent_has_equipment:
  assumes "setup_infrastructure w agent_id cfg = Inr (cfg', infra)" and "setup_sender env cfg' lc = (cfg2, res)"
  shows "res \<noteq> Inl (Sender_Not_Created Nil_Equipment_Info) \<and>
    (\<forall>s. res = Inr s \<longrightarrow> refresher_wanted cfg2 s \<longrightarrow> fetch_addr w (cfg2, infra) \<noteq> None)"
proof -
  have cfg2: "cfg2 = cfg'\<lparr>cfg_file := (cfg_file cfg')\<lparr>fc_console := lc_console lc\<rparr>\<rparr>"
    and res: "res = map_sum Sender_Not_Created id (new_sender env cfg2)"
    using assms(2) by (auto simp: setup_sender_def Let_def)
  show ?thesis
  proof (cases "to_lower (cfg_sender_type cfg) = ''file''")
    case True
    then have "cfg' = cfg" using assms(1) by (simp add: setup_infrastructure_def Let_def)
    then have is_file: "to_lower (cfg_sender_type cfg2) = ''file''" using True cfg2 by simp
    then have "new_sender env cfg2 \<noteq> Inl Nil_Equipment_Info"
      by (auto simp: new_sender_def split: sum.splits)
    then show ?thesis using is_file res by (auto simp: refresher_wanted_def map_sum_def split: sum.splits)
  next
    case False
    obtain r where "ir_client r" "located w (ir_virtual_ip r) (ir_virtual_ip r @ '':'' @ itoa (rd_port (cfg_redis cfg))) (cfg, r) (cfg', infra)"
      using setup_success [OF assms(1) False] by blast
    then have eqp: "cfg_eqp_info cfg2 \<noteq> None" and client: "ir_client infra" by (auto simp: located_def cfg2)
    have "resolve_topic (cfg_topic cfg2) (cfg_eqp_info cfg2) \<noteq> None" using eqp resolve_topic_some by blast
    then have "new_sender env cfg2 \<noteq> Inl Nil_Equipment_Info"
      by (auto simp: new_sender_def Let_def resolve_broker_addr_def bind_result_def split: sum.splits if_splits option.splits)
    then show ?thesis using eqp client res by (auto simp: fetch_addr_def map_sum_def split: sum.splits option.splits)
  qed
qed

theorem started_agent_has_equipment_witness:
  "snd (setup_sender sample_environment (fst sample_started) sample_logging) \<noteq> Inl (Sender_Not_Created Nil_Equipment_Info)"
  using started_agent_has_equipment [of sample_surroundings "''host''" sample_start "fst sample_started" "snd sample_started"
      sample_environment sample_logging] sample_setup
  by (cases "setup_sender sample_environment (fst sample_started) sample_logging") simp

text \<open>Without a proxy, the addresses tried are the detected one, if there is one, and then all others in
  order, each once.\<close>

theorem candidates_without_proxy:
  "build_candidates_no_proxy detected all_ips =
     map (\<lambda>ip. (ip, ''_'')) (first_occurrences ((if detected \<noteq> [] then [detected] else []) @ all_ips)) \<and>
   distinct (build_candidates_no_proxy detected all_ips)"
proof -
  have "build_candidates_no_proxy detected all_ips =
     map (\<lambda>ip. (ip, ''_'')) (first_occurrences ((if detected \<noteq> [] then [detected] else []) @ all_ips))"
    by (simp add: build_candidates_no_proxy_def candidates_loop_eq)
  then show ?thesis by (simp add: distinct_map inj_on_def)
qed

text \<open>Whatever a start comes to, everything acquired is released exactly once: on an error what had been
  acquired, in reverse order; after serving the scheduler first, so that no collector sends any more when
  the watchers, the refresher and then the sender are closed.\<close>

theorem run_releases_everything:
  "\<exists>rs e. run_of w env agent_id cfg lc = map Acquire rs @ [Exits e] @ map Release (rev rs) \<or>
    run_of w env agent_id cfg lc =
      map Acquire (rs @ [R_Scheduler, R_Watchers]) @ [Serving, Release R_Scheduler, Release R_Watchers] @ map Release (rev rs) \<and>
    R_Sender \<in> set rs \<and> set rs \<subseteq> {R_Syncer, R_Discovery, R_Heartbeat, R_Helper, R_Sender, R_Refresher} \<and> distinct rs"
proof (cases "setup_infrastructure w agent_id cfg")
  case (Inl e)
  then show ?thesis by (intro exI [of _ "[]"] exI [of _ e]) (simp add: run_of_def)
next
  case (Inr ci)
  obtain cfg1 infra where ci: "ci = (cfg1, infra)" by (cases ci)
  obtain cfg2 snd where snd: "setup_sender env cfg1 lc = (cfg2, snd)" by fastforce
  define pre where "pre = (if ir_syncer infra \<noteq> None then [R_Syncer] else []) @
    (if ir_client infra then [R_Discovery] else []) @ (if cfg_eqp_info cfg1 \<noteq> None then [R_Heartbeat] else []) @ [R_Helper]"
  have pre: "distinct pre" "set pre \<subseteq> {R_Syncer, R_Discovery, R_Heartbeat, R_Helper}"
    by (auto simp: pre_def)
  show ?thesis
  proof (cases snd)
    case sn: (Inl e)
    have "run_of w env agent_id cfg lc = map Acquire pre @ [Exits e] @ map Release (rev pre)"
      by (simp add: run_of_def Inr ci snd sn pre_def)
    then show ?thesis by blast
  next
    case sn: (Inr s)
    define rs where "rs = pre @ [R_Sender] @ (if refresher_wanted cfg2 s then [R_Refresher] else [])"
    have "run_of w env agent_id cfg lc =
      map Acquire (rs @ [R_Scheduler, R_Watchers]) @ [Serving, Release R_Scheduler, Release R_Watchers] @ map Release (rev rs)"
      by (simp add: run_of_def Inr ci snd sn pre_def rs_def)
    moreover have "R_Sender \<in> set rs" "set rs \<subseteq> {R_Syncer, R_Discovery, R_Heartbeat, R_Helper, R_Sender, R_Refresher}" "distinct rs"
      using pre by (auto simp: rs_def)
    ultimately show ?thesis by blast
  qed
qed

text \<open>A validated configuration may still panic: a negative \<open>TimeDiffSyncInterval\<close> passes validation, and the
  ticker of the syncer's goroutine panics on it; so it does for a huge one, whose nanoseconds wrap.\<close>

theorem negative_sync_interval_panics:
  "\<forall>secs \<in> {- 1, 10 ^ 10}. \<exists>cfg. cfg_time_diff_sync_interval cfg = secs \<and> validate_config compiles cfg = [] \<and>
     \<not> sync_loop_starts (new_syncer eqp_id (cfg_time_diff_sync_interval cfg))"
proof
  fix secs :: int
  assume secs: "secs \<in> {- 1, 10 ^ 10}"
  let ?cfg = "sample_start\<lparr>cfg_time_diff_sync_interval := secs\<rparr>"
  have "to_lower ''kafkarest'' = ''kafkarest''" "to_lower ''snappy'' = ''snappy''" by code_simp+
  then have "validate_config compiles ?cfg = []"
    by (simp add: validate_config_iff config_ok_def default_config_def sample_start_def port_ok_def)
  moreover have "wrap64 (- 1 * second) < 0" "wrap64 (10 ^ 10 * second) < 0" by code_simp+
  then have "\<not> sync_loop_starts (new_syncer eqp_id (cfg_time_diff_sync_interval ?cfg))"
    using secs by (auto simp: sync_loop_starts_def new_syncer_def)
  ultimately show "\<exists>cfg. cfg_time_diff_sync_interval cfg = secs \<and> validate_config compiles cfg = [] \<and>
      \<not> sync_loop_starts (new_syncer eqp_id (cfg_time_diff_sync_interval cfg))"
    by (intro exI [of _ ?cfg]) simp
qed

text \<open>Nor does validation look at \<open>FlushFrequency\<close>: with a negative one the KafkaRest sender is created, and the
  goroutine of its transport panics when it makes its ticker.\<close>

theorem negative_flush_frequency_panics:
  "\<exists>cfg k. validate_config compiles cfg = [] \<and> new_sender sample_environment cfg = Inr (Kafka_Rest_Sender k) \<and>
     \<not> flush_loop_starts (sy_t (ks_transport k))"
proof -
  let ?cfg = "(fst sample_started)\<lparr>cfg_batch := (cfg_batch sample_start)\<lparr>bc_flush_frequency := - second\<rparr>\<rparr>"
  have texts: "to_lower ''kafkarest'' = ''kafkarest''" "to_lower ''snappy'' = ''snappy''" by code_simp+
  then have "validate_config compiles ?cfg = []"
    by (simp add: validate_config_iff config_ok_def default_config_def sample_started_def sample_start_def port_ok_def)
  moreover have "\<exists>k. new_sender sample_environment ?cfg = Inr (Kafka_Rest_Sender k) \<and> \<not> flush_loop_starts (sy_t (ks_transport k))"
    using resolve_topic_some [of "Some sample_eqp" "cfg_topic (fst sample_started)"]
    by (auto simp: new_sender_def texts sample_environment_def sample_started_def sample_start_def new_kafka_sender_def
        initial_def new_buffered_transport_def flush_loop_starts_def default_config_def second_def)
  ultimately show ?thesis by blast
qed

end
