(* ===== verification/Logging.thy ===== *)
theory Logging
  imports Json Loader "HOL-Library.List_Lexorder" "HOL-Library.Sublist"
begin

text \<open>
  \<open>internal/logger\<close>: the writer that turns a JSON event into a line of fixed columns
  (\<open>formatter.go\<close>), the writer that never blocks its caller, and which writers \<open>Init\<close> sets up
  (\<open>logger.go\<close>).  The JSON decoder gives the fields of an event with the text \<open>%v\<close> prints them as;
  \<open>quote\<close> is \<open>%q\<close>.  The rotating file and the standard output are parameters.
\<close>

section \<open>The line format\<close>

datatype log_field = F_Text string | F_Other (printed: string)

definition field_text :: "log_field \<Rightarrow> string" where
  "field_text f = (case f of F_Text t \<Rightarrow> t | F_Other t \<Rightarrow> t)"

definition extract_string :: "(string \<times> log_field) list \<Rightarrow> string \<Rightarrow> string" where
  "extract_string fs key = (case map_of fs key of None \<Rightarrow> [] | Some f \<Rightarrow> field_text f)"

definition level_name :: "string \<Rightarrow> string" where
  "level_name level =
     (case map_of [(''trace'', ''TRC''), (''debug'', ''DBG''), (''info'', ''INF''), (''warn'', ''WRN''), (''error'', ''ERR''),
        (''fatal'', ''FTL''), (''panic'', ''PNC'')] level of None \<Rightarrow> ''???'' | Some n \<Rightarrow> n)"

definition component_width :: nat where "component_width = 15"

text \<open>\<open>formatTimestamp\<close>; \<open>None\<close> is the panic of the slice expression on a text shorter than eleven bytes.\<close>

fun replace_first :: "char \<Rightarrow> char \<Rightarrow> string \<Rightarrow> string" where
  "replace_first a b [] = []"
| "replace_first a b (c # cs) = (if c = a then b # cs else c # replace_first a b cs)"

definition pad_right :: "nat \<Rightarrow> char \<Rightarrow> string \<Rightarrow> string" where
  "pad_right n c s = s @ replicate (n - length s) c"

definition with_millis :: "string \<Rightarrow> string" where
  "with_millis s =
     (if CHR ''.'' \<notin> set s then s @ ''.000''
      else
        (let frac = rev (takeWhile (\<lambda>c. c \<noteq> CHR ''.'') (rev s)); before = take (length s - length frac) s in
         if length frac > 3 then before @ take 3 frac else before @ pad_right 3 CHR ''0'' frac))"

definition format_timestamp :: "string \<Rightarrow> string option" where
  "format_timestamp ts =
     (if ts = [] then Some (replicate 23 CHR '' '')
      else
        (let result = replace_first CHR ''T'' CHR '' '' ts in
         if length result < 11 then None
         else
           (let stripped = take 11 result @ takeWhile (\<lambda>c. c \<notin> {CHR ''Z'', CHR ''+'', CHR ''-''}) (drop 11 result)
            in Some (take 23 (pad_right 23 CHR '' '' (with_millis stripped))))))"

text \<open>\<open>fmt\<close> pads by runes.\<close>

function rune_count :: "string \<Rightarrow> nat" where
  "rune_count [] = 0"
| "rune_count (c # cs) = Suc (rune_count (if byte c < 0x80 then cs else drop (rune_width (c # cs) - 1) cs))"
  by pat_completeness auto
termination
  by (relation "measure length") auto

declare rune_count.simps(2) [simp del]

definition pad_runes :: "nat \<Rightarrow> string \<Rightarrow> string" where
  "pad_runes n s = s @ replicate (n - rune_count s) CHR '' ''"

definition format_extra :: "(string \<Rightarrow> string) \<Rightarrow> (string \<times> log_field) list \<Rightarrow> string" where
  "format_extra quote fs =
     join_with CHR '' '' (map (\<lambda>(k, f).
       (let s = field_text f in
        if list_ex (\<lambda>c. c \<in> {CHR '' '', CHR 0x09, CHR 0x0A, CHR 0x22}) s then k @ ''='' @ quote s else k @ ''='' @ s))
       (sort_key (\<lambda>p. map (\<lambda>c. of_char c :: nat) (fst p)) fs))"

text \<open>
  \<open>Write\<close>: what is handed to the wrapped writer; \<open>None\<close> for the panic.  An event that is not a JSON object
  passes as it is.
\<close>

definition format_line :: "(string \<Rightarrow> string) \<Rightarrow> (string \<times> log_field) list \<Rightarrow> string option" where
  "format_line quote fs =
     map_option (\<lambda>ts.
       (let comp = take component_width (extract_string fs ''component'');
            extra = format_extra quote
              (filter (\<lambda>(k, _). k \<notin> {''time'', ''level'', ''component'', ''message'', ''caller''}) fs);
            head = ts @ '' ['' @ level_name (extract_string fs ''level'') @ ''] ['' @ pad_runes component_width comp @ ''] '' @
              extract_string fs ''message''
        in (if extra \<noteq> [] then head @ '' '' @ extra else head) @ [CHR 0x0A]))
     (format_timestamp (extract_string fs ''time''))"

definition fixed_format_write :: "(string \<Rightarrow> (string \<times> log_field) list option) \<Rightarrow> (string \<Rightarrow> string) \<Rightarrow> string \<Rightarrow> string option" where
  "fixed_format_write decode quote p = (case decode p of None \<Rightarrow> Some p | Some fs \<Rightarrow> format_line quote fs)"

section \<open>The writer that never blocks\<close>

text \<open>
  \<open>aw_hand\<close> is the message the draining goroutine has received and is writing; \<open>aw_accepted\<close> are the
  messages that were put on the channel, for the theorems.
\<close>

record async_writer =
  aw_capacity :: nat
  aw_queue :: "string list"
  aw_hand :: "string option"
  aw_written :: "string list"
  aw_closed :: bool
  aw_chan_closed :: bool
  aw_done :: bool
  aw_accepted :: "string list"

definition new_async_writer :: "nat \<Rightarrow> async_writer" where
  "new_async_writer n =
     \<lparr>aw_capacity = n, aw_queue = [], aw_hand = None, aw_written = [], aw_closed = False, aw_chan_closed = False,
      aw_done = False, aw_accepted = []\<rparr>"

text \<open>\<open>Write\<close>, under the read lock; \<open>None\<close> would be the panic of a send on a closed channel.\<close>

definition async_write :: "string \<Rightarrow> async_writer \<Rightarrow> async_writer option" where
  "async_write p a =
     (if aw_closed a then Some a
      else if aw_chan_closed a then None
      else if length (aw_queue a) < aw_capacity a
        then Some (a\<lparr>aw_queue := aw_queue a @ [p], aw_accepted := aw_accepted a @ [p]\<rparr>)
      else Some a)"

inductive async_step :: "async_writer \<Rightarrow> async_writer \<Rightarrow> bool" where
  async_write: "async_write p a = Some a' \<Longrightarrow> async_step a a'"
| async_take: "aw_hand a = None \<Longrightarrow> aw_queue a = p # q \<Longrightarrow>
    async_step a (a\<lparr>aw_queue := q, aw_hand := Some p\<rparr>)"
| async_print: "aw_hand a = Some p \<Longrightarrow> async_step a (a\<lparr>aw_hand := None, aw_written := aw_written a @ [p]\<rparr>)"
| async_flag: "async_step a (a\<lparr>aw_closed := True\<rparr>)"
| async_close: "aw_closed a \<Longrightarrow> \<not> aw_chan_closed a \<Longrightarrow> async_step a (a\<lparr>aw_chan_closed := True\<rparr>)"
| async_finish: "aw_chan_closed a \<Longrightarrow> aw_queue a = [] \<Longrightarrow> aw_hand a = None \<Longrightarrow> async_step a (a\<lparr>aw_done := True\<rparr>)"

inductive async_reachable :: "nat \<Rightarrow> async_writer \<Rightarrow> bool" for n where
  async_start: "async_reachable n (new_async_writer n)"
| async_advance: "async_reachable n a \<Longrightarrow> async_step a a' \<Longrightarrow> async_reachable n a'"

section \<open>Init\<close>

datatype log_output = To_File string | To_Console | To_Stdout

text \<open>The writers \<open>Init\<close> installs, or \<open>None\<close> when the directory of the file cannot be made.\<close>

definition init_writers :: "(string \<Rightarrow> bool) \<Rightarrow> bool \<Rightarrow> logging_config \<Rightarrow> log_output list option" where
  "init_writers mkdir_ok service_mode lc =
     (if lc_file_path lc \<noteq> [] \<and> \<not> mkdir_ok (lc_file_path lc) then None
      else
        (let ws = (if lc_file_path lc \<noteq> [] then [To_File (lc_file_path lc)] else []) @
                  (if lc_console lc \<and> \<not> service_mode then [To_Console] else [])
         in Some (if ws = [] then [To_Stdout] else ws)))"

text \<open>
  \<open>Init\<close> and \<open>Close\<close>.  Every \<open>Init\<close> makes new writers; a writer carries the number of the call that made it.
  \<open>lg_open\<close> are those that a later call closes (\<open>prevFileWriter\<close>, \<open>prevConsoleAsync\<close>), \<open>lg_outputs\<close> those of the
  global logger, none for one that does nothing.
\<close>

type_synonym log_writer = "nat \<times> log_output"

record logger_state =
  lg_open :: "log_writer list"
  lg_outputs :: "log_writer list"
  lg_inits :: nat
  lg_service_mode :: bool

definition new_logger :: logger_state where
  "new_logger = \<lparr>lg_open = [], lg_outputs = [], lg_inits = 0, lg_service_mode = False\<rparr>"

definition set_service_mode :: "bool \<Rightarrow> logger_state \<Rightarrow> logger_state" where
  "set_service_mode enabled s = s\<lparr>lg_service_mode := enabled\<rparr>"

definition logger_init :: "(string \<Rightarrow> bool) \<Rightarrow> logging_config \<Rightarrow> logger_state \<Rightarrow> logger_state \<times> bool" where
  "logger_init mkdir_ok lc s =
     (case init_writers mkdir_ok (lg_service_mode s) lc of
        None \<Rightarrow> (s\<lparr>lg_open := []\<rparr>, False)
      | Some ws \<Rightarrow>
          (let made = map (Pair (lg_inits s)) ws
           in (s\<lparr>lg_open := filter (\<lambda>w. snd w \<noteq> To_Stdout) made, lg_outputs := made, lg_inits := Suc (lg_inits s)\<rparr>, True)))"

definition logger_close :: "logger_state \<Rightarrow> logger_state" where
  "logger_close s = s\<lparr>lg_open := [], lg_outputs := []\<rparr>"

text \<open>
  A logger is a value: \<open>WithComponent\<close> copies the global one, writers included.  An event goes to the writers
  of its logger when its level is enabled.
\<close>

datatype log_level = Debug_Level | Info_Level | Warn_Level | Error_Level | Fatal_Level

record log_handle =
  lh_component :: "string option"
  lh_outputs :: "log_writer list"

definition global_logger :: "logger_state \<Rightarrow> log_handle" where
  "global_logger s = \<lparr>lh_component = None, lh_outputs = lg_outputs s\<rparr>"

definition with_component :: "string \<Rightarrow> logger_state \<Rightarrow> log_handle" where
  "with_component component s = (global_logger s)\<lparr>lh_component := Some component\<rparr>"

definition event_outputs :: "(log_level \<Rightarrow> bool) \<Rightarrow> log_level \<Rightarrow> log_handle \<Rightarrow> log_writer list" where
  "event_outputs enabled level h = (if enabled level then lh_outputs h else [])"

text \<open>\<open>Debug\<close>, \<open>Info\<close>, \<open>Warn\<close>, \<open>Error\<close> and \<open>Fatal\<close> of the package.\<close>

definition log_event :: "(log_level \<Rightarrow> bool) \<Rightarrow> log_level \<Rightarrow> logger_state \<Rightarrow> log_writer list" where
  "log_event enabled level s = event_outputs enabled level (global_logger s)"

definition writer_open :: "logger_state \<Rightarrow> log_writer \<Rightarrow> bool" where
  "writer_open s w = (snd w = To_Stdout \<or> w \<in> set (lg_open s))"

inductive logger_reachable :: "logger_state \<Rightarrow> bool" where
  logger_begin: "logger_reachable (set_service_mode mode new_logger)"
| logger_again: "logger_reachable s \<Longrightarrow> logger_reachable (fst (logger_init mkdir_ok lc s))"
| logger_ended: "logger_reachable s \<Longrightarrow> logger_reachable (logger_close s)"

section \<open>The level and the caller field\<close>

text \<open>\<open>parse_level\<close> is the parser of the logging library; a level it does not know leaves \<open>info\<close>.\<close>

definition global_level :: "(string \<Rightarrow> 'l option) \<Rightarrow> 'l \<Rightarrow> logging_config \<Rightarrow> 'l" where
  "global_level parse_level info lc = (case parse_level (lc_level lc) of None \<Rightarrow> info | Some l \<Rightarrow> l)"

text \<open>What \<open>strings.Index\<close> and the slice from there give; \<open>None\<close> for the index -1.\<close>

fun from_first :: "string \<Rightarrow> string \<Rightarrow> string option" where
  "from_first pat [] = (if pat = [] then Some [] else None)"
| "from_first pat (c # cs) = (if prefix pat (c # cs) then Some (c # cs) else from_first pat cs)"

text \<open>\<open>filepath.Base\<close> on a system whose separator is the slash.\<close>

definition path_base :: "string \<Rightarrow> string" where
  "path_base path =
     (if path = [] then ''.''
      else
        (let b = takeWhile (\<lambda>c. c \<noteq> CHR ''/'') (dropWhile (\<lambda>c. c = CHR ''/'') (rev path))
         in if b = [] then ''/'' else rev b))"

definition caller_name :: "string \<Rightarrow> int \<Rightarrow> string" where
  "caller_name path line =
     (let normalized = map (\<lambda>c. if c = CHR 0x5C then CHR ''/'' else c) path in
      (case from_first ''internal/'' normalized of
         Some s \<Rightarrow> s
       | None \<Rightarrow> (case from_first ''cmd/'' normalized of Some s \<Rightarrow> s | None \<Rightarrow> path_base path)) @ '':'' @ itoa line)"

section \<open>Facts\<close>

lemma from_first_Some: "from_first pat s = Some t \<Longrightarrow> prefix pat t \<and> suffix t s"
  by (induction s) (auto simp: suffix_Cons split: if_splits)

lemma from_first_None: "from_first pat s = None \<Longrightarrow> \<not> sublist pat s"
  by (induction s) (auto simp: sublist_Cons_right split: if_splits)

text \<open>A path below \<open>internal/\<close> loses exactly the directory it was built in.\<close>

lemma from_first_append:
  assumes "\<not> sublist pat (build @ butlast pat)" and "pat \<noteq> []"
  shows "from_first pat (build @ pat @ rest) = Some (pat @ rest)"
  using assms(1)
proof (induction build)
  case Nil
  then show ?case using assms(2) by (cases pat) (auto simp: prefix_def)
next
  case (Cons c cs)
  have "\<not> prefix pat (c # cs @ pat @ rest)"
  proof
    assume "prefix pat (c # cs @ pat @ rest)"
    moreover have "prefix (c # cs @ butlast pat) (c # cs @ pat @ rest)"
      using assms(2) by (metis append_butlast_last_id append_Cons append_assoc prefixI)
    moreover have "length pat \<le> length (c # cs @ butlast pat)" using assms(2) by (cases pat) auto
    ultimately have "prefix pat (c # cs @ butlast pat)" using prefix_length_prefix by blast
    then show False using Cons.prems by (metis append_Cons prefix_imp_sublist)
  qed
  moreover have "\<not> sublist pat (cs @ butlast pat)" using Cons.prems by (metis append_Cons sublist_Cons_right)
  ultimately show ?case using Cons.IH by simp
qed

definition async_ok :: "nat \<Rightarrow> async_writer \<Rightarrow> bool" where
  "async_ok n a =
     (aw_capacity a = n \<and> length (aw_queue a) \<le> n \<and>
      aw_accepted a = aw_written a @ (case aw_hand a of None \<Rightarrow> [] | Some p \<Rightarrow> [p]) @ aw_queue a \<and>
      (aw_chan_closed a \<longrightarrow> aw_closed a) \<and> (aw_done a \<longrightarrow> aw_chan_closed a \<and> aw_queue a = [] \<and> aw_hand a = None))"

lemma async_step_ok: "async_step a a' \<Longrightarrow> async_ok n a \<Longrightarrow> async_ok n a'"
  by (induction rule: async_step.induct) (auto simp: async_ok_def async_write_def split: if_splits)

lemma async_reachable_ok: "async_reachable n a \<Longrightarrow> async_ok n a"
proof (induction rule: async_reachable.induct)
  case async_start
  show ?case by (simp add: async_ok_def new_async_writer_def)
qed (rule async_step_ok)

lemma logger_reachable_made:
  "logger_reachable s \<Longrightarrow> \<forall>w \<in> set (lg_outputs s) \<union> set (lg_open s). fst w < lg_inits s"
proof (induction rule: logger_reachable.induct)
  case (logger_again s mkdir_ok lc)
  then show ?case
    by (cases "init_writers mkdir_ok (lg_service_mode s) lc") (auto simp: logger_init_def Let_def)
qed (auto simp: new_logger_def set_service_mode_def logger_close_def)

lemma rune_count_ascii: "\<forall>c \<in> set s. byte c < 0x80 \<Longrightarrow> rune_count s = length s"
  by (induction s) (auto simp: rune_count.simps(2))

lemma replace_first_at: "a \<notin> set xs \<Longrightarrow> replace_first a b (xs @ a # ys) = xs @ b # ys"
  by (induction xs) auto

lemma length_level_name: "length (level_name l) = 3"
  by (auto simp: level_name_def split: option.splits if_splits)

section \<open>Properties\<close>

text \<open>C30 The console can never hold up the agent: whatever the interleaving of writers, the draining goroutine
  and \<open>Close\<close>, a write returns at once and never sends on the closed channel; at most the capacity waits;
  what is printed is what was accepted, in order, and when \<open>Close\<close> has returned all of it has been
  printed and later writes change nothing.\<close>

theorem async_writer_never_blocks:
  assumes "async_reachable n a"
  shows "async_write p a \<noteq> None \<and> length (aw_queue a) \<le> n \<and> prefix (aw_written a) (aw_accepted a) \<and>
    (aw_done a \<longrightarrow> aw_written a = aw_accepted a \<and> async_write p a = Some a)"
  using async_reachable_ok [OF assms] by (auto simp: async_ok_def async_write_def split: option.splits)

theorem async_writer_never_blocks_witness:
  "async_write ''x'' (new_async_writer 0) \<noteq> None \<and> length (aw_queue (new_async_writer 0)) \<le> 0"
  using async_writer_never_blocks [OF async_start, of "''x''" 0] by simp

text \<open>The columns of the log file: an event with an RFC 3339 time, an ASCII component and any message becomes a
  line that starts with the time to the millisecond, the level in three letters and the component in
  fifteen columns, so that the message starts at column 48 and runs to the end of the line or to the
  further fields.\<close>

theorem log_line_columns:
  assumes "length date = 10" and "CHR ''T'' \<notin> set date" and "CHR ''.'' \<notin> set (date @ clock)" and "length clock = 8"
    and "\<forall>c \<in> set clock. c \<notin> {CHR ''Z'', CHR ''+'', CHR ''-''}"
    and "zone = [] \<or> hd zone \<in> {CHR ''Z'', CHR ''+'', CHR ''-''}"
    and "\<forall>c \<in> set (extract_string fs ''component''). byte c < 0x80"
    and "extract_string fs ''time'' = date @ CHR ''T'' # clock @ zone"
  shows "\<exists>line extra. format_line quote fs = Some (line @ extract_string fs ''message'' @ extra) \<and> length line = 48 \<and>
    line = date @ '' '' @ clock @ ''.000'' @ '' ['' @ level_name (extract_string fs ''level'') @ ''] ['' @
      take 15 (extract_string fs ''component'') @ replicate (15 - length (extract_string fs ''component'')) CHR '' '' @ ''] '' \<and>
    last extra = CHR 0x0A"
proof -
  let ?comp = "extract_string fs ''component''"
  let ?line = "date @ '' '' @ clock @ ''.000'' @ '' ['' @ level_name (extract_string fs ''level'') @ ''] ['' @
      take 15 ?comp @ replicate (15 - length ?comp) CHR '' '' @ ''] ''"
  have stop: "takeWhile (\<lambda>c. c \<notin> {CHR ''Z'', CHR ''+'', CHR ''-''}) (clock @ zone) = clock"
    using assms(5,6) by (cases zone) (auto simp: takeWhile_append)
  have ts: "format_timestamp (date @ CHR ''T'' # clock @ zone) = Some (date @ '' '' @ clock @ ''.000'')"
    using assms(1-4) stop by (simp add: format_timestamp_def replace_first_at with_millis_def pad_right_def Let_def)
  have "rune_count (take 15 ?comp) = length (take 15 ?comp)"
    by (rule rune_count_ascii) (use assms(7) in \<open>auto dest: in_set_takeD\<close>)
  then have comp: "pad_runes component_width (take component_width ?comp) =
      take 15 ?comp @ replicate (15 - length ?comp) CHR '' ''"
    by (simp add: pad_runes_def component_width_def)
  obtain extra where extra: "format_line quote fs = Some (?line @ extract_string fs ''message'' @ extra @ [CHR 0x0A])"
    by (cases "format_extra quote (filter (\<lambda>(k, _). k \<notin> {''time'', ''level'', ''component'', ''message'', ''caller''}) fs) = []")
      (auto simp: format_line_def assms(8) ts comp Let_def)
  have "length ?line = 48" using assms(1,4) by (simp add: length_level_name)
  then show ?thesis using extra by (intro exI [of _ ?line] exI [of _ "extra @ [CHR 0x0A]"]) simp
qed

theorem log_line_columns_witness:
  "\<exists>line extra. format_line id [(''time'', F_Text ''2026-02-26T12:00:00+09:00''), (''level'', F_Text ''info''),
      (''component'', F_Text ''main''), (''message'', F_Text ''up'')] = Some (line @ ''up'' @ extra) \<and> length line = 48"
proof -
  let ?fs = "[(''time'', F_Text ''2026-02-26T12:00:00+09:00''), (''level'', F_Text ''info''),
      (''component'', F_Text ''main''), (''message'', F_Text ''up'')]"
  let ?clock = "''12:00:00''" and ?date = "''2026-02-26''" and ?zone = "''+09:00''"
  have stamp: "extract_string ?fs ''time'' = ?date @ CHR ''T'' # ?clock @ ?zone"
    and message: "extract_string ?fs ''message'' = ''up''"
    and ascii: "\<forall>c \<in> set (extract_string ?fs ''component''). byte c < 0x80"
    by (simp_all add: extract_string_def field_text_def byte_def)
  have parts: "length ?date = 10" "CHR ''T'' \<notin> set ?date" "CHR ''.'' \<notin> set (?date @ ?clock)" "length ?clock = 8"
    "\<forall>c \<in> set ?clock. c \<notin> {CHR ''Z'', CHR ''+'', CHR ''-''}" "?zone = [] \<or> hd ?zone \<in> {CHR ''Z'', CHR ''+'', CHR ''-''}"
    by simp_all
  show ?thesis using log_line_columns [OF parts ascii stamp, of id] unfolding message by blast
qed

text \<open>A time stamp shorter than eleven bytes makes the writer panic.\<close>

theorem short_time_stamp_panics: "fixed_format_write (\<lambda>p. Some [(''time'', F_Text ''12:00:00'')]) quote p = None"
  by (simp add: fixed_format_write_def format_line_def format_timestamp_def extract_string_def field_text_def)

text \<open>After a reload of Logging.json the events of the package and of every logger made from then on reach open
  writers only; but a logger that was made before, and is kept, has none that is open any more except the
  standard output: its lines do not reach the log that was configured.\<close>

theorem kept_logger_goes_stale:
  assumes "logger_reachable s" and "logger_init mkdir_ok lc s = (s', True)"
  shows "(\<forall>w \<in> set (log_event enabled level s') \<union> set (lh_outputs (with_component c s')). writer_open s' w) \<and>
    (\<forall>w \<in> set (lh_outputs (with_component c s)). snd w \<noteq> To_Stdout \<longrightarrow> \<not> writer_open s' w)"
proof -
  obtain ws where ws: "s' = s\<lparr>lg_open := filter (\<lambda>w. snd w \<noteq> To_Stdout) (map (Pair (lg_inits s)) ws),
      lg_outputs := map (Pair (lg_inits s)) ws, lg_inits := Suc (lg_inits s)\<rparr>"
    using assms(2) by (auto simp: logger_init_def Let_def split: option.splits)
  have "(lg_inits s, x) \<notin> set (lg_outputs s)" for x
    using logger_reachable_made [OF assms(1)] by (metis UnI1 fst_conv less_irrefl)
  then show ?thesis
    by (auto simp: ws log_event_def event_outputs_def global_logger_def with_component_def writer_open_def)
qed

definition sample_log :: logging_config where
  "sample_log =
     \<lparr>lc_level = ''info'', lc_file_path = ''a.log'', lc_max_size_mb = 1, lc_max_backups = 1, lc_max_age_days = 1,
      lc_compress = False, lc_console = True\<rparr>"

theorem kept_logger_goes_stale_witness:
  "let s = fst (logger_init (\<lambda>p. True) sample_log (set_service_mode False new_logger));
       s' = fst (logger_init (\<lambda>p. True) sample_log s)
   in lh_outputs (with_component ''kafkarest-buffer'' s) = [(0, To_File ''a.log''), (0, To_Console)] \<and>
      \<not> writer_open s' (0, To_File ''a.log'') \<and> writer_open s' (1, To_File ''a.log'')"
proof -
  let ?s = "fst (logger_init (\<lambda>p. True) sample_log (set_service_mode False new_logger))"
  have outputs: "lh_outputs (with_component ''kafkarest-buffer'' ?s) = [(0, To_File ''a.log''), (0, To_Console)]"
    by code_simp
  have again: "snd (logger_init (\<lambda>p. True) sample_log ?s)" by code_simp
  have new: "writer_open (fst (logger_init (\<lambda>p. True) sample_log ?s)) (1, To_File ''a.log'')" by code_simp
  have "logger_init (\<lambda>p. True) sample_log ?s = (fst (logger_init (\<lambda>p. True) sample_log ?s), True)"
    using again by (simp add: prod_eq_iff)
  from kept_logger_goes_stale [OF logger_again [OF logger_begin] this, of _ _ "''kafkarest-buffer''"] outputs new
  show ?thesis by (simp add: Let_def)
qed

end
