(* ===== verification/Watcher.thy ===== *)
theory Watcher
  imports Startup Scheduler Logging
begin

text \<open>
  Hot reload: the file watcher of \<open>internal/config/watcher.go\<close>, the two reload callbacks, and what
  \<open>setupWatchers\<close> in \<open>cmd/resourceagent/main.go\<close> makes of them.  The events of \<open>fsnotify\<close> are a list;
  \<open>base\<close> is \<open>filepath.Base\<close>.
\<close>

section \<open>The file watcher\<close>

record file_watcher =
  fw_path :: string
  fw_running :: bool
  fw_stop_closed :: bool
  fw_watching :: nat       \<comment> \<open>goroutines in \<open>watch\<close>\<close>
  fw_changes :: nat        \<comment> \<open>how often \<open>onChange\<close> has been called\<close>

definition new_file_watcher :: "string \<Rightarrow> file_watcher" where
  "new_file_watcher path =
     \<lparr>fw_path = path, fw_running = False, fw_stop_closed = False, fw_watching = 0, fw_changes = 0\<rparr>"

text \<open>\<open>added\<close> is whether \<open>fsnotify\<close> could watch the directory.\<close>

definition start_watcher :: "bool \<Rightarrow> file_watcher \<Rightarrow> file_watcher \<times> bool" where
  "start_watcher added fw =
     (if fw_running fw then (fw, True)
      else if \<not> added then (fw\<lparr>fw_running := True\<rparr>, False)
      else (fw\<lparr>fw_running := True, fw_watching := Suc (fw_watching fw)\<rparr>, True))"

text \<open>\<open>None\<close> is the panic of closing the stop channel a second time.\<close>

definition stop_watcher :: "file_watcher \<Rightarrow> file_watcher option" where
  "stop_watcher fw =
     (if \<not> fw_running fw then Some fw
      else if fw_stop_closed fw then None
      else Some (fw\<lparr>fw_running := False, fw_stop_closed := True\<rparr>))"

datatype fs_event = Fs_Event (ev_name: string) (ev_write: bool) (ev_create: bool) | Fs_Error

definition relevant_event :: "(string \<Rightarrow> string) \<Rightarrow> string \<Rightarrow> fs_event \<Rightarrow> bool" where
  "relevant_event base path e =
     (case e of
        Fs_Event name w c \<Rightarrow> base name = base path \<and> (w \<or> c)
      | Fs_Error \<Rightarrow> False)"

text \<open>
  One round of \<open>watch\<close>: an event is handled, or the goroutine ends because the stop channel is closed
  (which may lose against an event that is ready, too) or \<open>fsnotify\<close> has shut its channels.
\<close>

definition handle_event :: "(string \<Rightarrow> string) \<Rightarrow> fs_event \<Rightarrow> (file_watcher \<Rightarrow> 'c \<Rightarrow> 'c) \<Rightarrow> file_watcher \<times> 'c \<Rightarrow> file_watcher \<times> 'c" where
  "handle_event base e on_change s =
     (if relevant_event base (fw_path (fst s)) e
      then ((fst s)\<lparr>fw_changes := Suc (fw_changes (fst s))\<rparr>, on_change (fst s) (snd s)) else s)"

definition end_watch :: "file_watcher \<Rightarrow> file_watcher" where
  "end_watch fw = fw\<lparr>fw_watching := fw_watching fw - 1\<rparr>"

text \<open>All the events one goroutine sees.\<close>

definition watch_events ::
  "(string \<Rightarrow> string) \<Rightarrow> (file_watcher \<Rightarrow> 'c \<Rightarrow> 'c) \<Rightarrow> fs_event list \<Rightarrow> file_watcher \<times> 'c \<Rightarrow> file_watcher \<times> 'c" where
  "watch_events base on_change es s = fold (\<lambda>e. handle_event base e on_change) es s"

section \<open>The reloads\<close>

text \<open>\<open>NewLoggingWatcher\<close> and its callback: the logger is set up anew, and the file sender's console switched.\<close>

definition logging_file_changed ::
  "(string \<Rightarrow> 'b option) \<Rightarrow> ('b \<Rightarrow> logging_config option) \<Rightarrow> string \<Rightarrow> logging_config option" where
  "logging_file_changed read_file unmarshal path =
     (case load_logging read_file unmarshal path of
        Inl e \<Rightarrow> None
      | Inr lc \<Rightarrow> if validate_logging_config lc \<noteq> [] then None else Some lc)"

definition apply_logging_change ::
  "(string \<Rightarrow> bool) \<Rightarrow> logging_config \<Rightarrow> logger_state \<times> 'w sender \<Rightarrow> logger_state \<times> 'w sender" where
  "apply_logging_change mkdir_ok lc s =
     (case logger_init mkdir_ok lc (fst s) of
        (lg, False) \<Rightarrow> (lg, snd s)
      | (lg, True) \<Rightarrow>
          (lg, case snd s of File_Sender fs \<Rightarrow> File_Sender (set_console (lc_console lc) fs) | other \<Rightarrow> other))"

text \<open>
  The callback of the \<open>Monitor.json\<close> watcher as a whole: the registry takes the file, and the scheduler
  is given what is enabled then and told to reconfigure.  A file that is refused changes neither.
\<close>

definition enabled_pairs :: "registry \<Rightarrow> (string \<times> int) list" where
  "enabled_pairs r = map (\<lambda>c. (collector_name c, collector_interval c)) (enabled_collectors r)"

definition monitor_accepted ::
  "(string \<Rightarrow> 'b option) \<Rightarrow> ('b \<Rightarrow> (string \<times> raw_collector_config) list option) \<Rightarrow> string \<Rightarrow> bool" where
  "monitor_accepted read_file unmarshal path =
     (case load_monitor read_file unmarshal path of Inl e \<Rightarrow> False | Inr mc \<Rightarrow> validate_monitor_config mc = [])"

definition monitor_callback ::
  "bool \<Rightarrow> (string \<Rightarrow> 'b option) \<Rightarrow> ('b \<Rightarrow> (string \<times> raw_collector_config) list option) \<Rightarrow> string \<Rightarrow>
     registry \<times> scheduler \<Rightarrow> registry \<times> scheduler" where
  "monitor_callback windows read_file unmarshal path s =
     (if monitor_accepted read_file unmarshal path
      then (let r = monitor_file_changed windows read_file unmarshal path (fst s)
            in (r, reconfigure_locked ((snd s)\<lparr>sd_enabled := enabled_pairs r\<rparr>)))
      else s)"

text \<open>\<open>setupWatchers\<close>: the watchers that were created and started are the ones stopped later, in reverse order.\<close>

datatype watcher_kind = Monitor_Watcher | Logging_Watcher

definition setup_watchers :: "(watcher_kind \<Rightarrow> bool) \<Rightarrow> (watcher_kind \<Rightarrow> bool) \<Rightarrow> watcher_kind list" where
  "setup_watchers created started = filter (\<lambda>w. created w \<and> started w) [Monitor_Watcher, Logging_Watcher]"

definition cleanup_watchers :: "watcher_kind list \<Rightarrow> watcher_kind list" where
  "cleanup_watchers ws = rev ws"

section \<open>Facts\<close>

lemma watch_events_changes:
  "fst (watch_events base f es s) = (fst s)\<lparr>fw_changes := fw_changes (fst s) + length (filter (relevant_event base (fw_path (fst s))) es)\<rparr>"
proof (induction es arbitrary: s)
  case (Cons e es)
  then show ?case by (simp add: watch_events_def handle_event_def)
qed (simp add: watch_events_def)

lemma enabled_pairs_Cons:
  "enabled_pairs ((name, c) # r) =
     (if collector_enabled c then (collector_name c, collector_interval c) # enabled_pairs r else enabled_pairs r)"
  by (simp add: enabled_pairs_def enabled_collectors_def)

lemma enabled_pairs_names:
  "(\<forall>(name, c) \<in> set r. collector_name c = name) \<Longrightarrow> fst ` set (enabled_pairs r) \<subseteq> fst ` set r"
  by (force simp: enabled_pairs_def enabled_collectors_def)

lemma enabled_pairs_distinct: "well_formed r \<Longrightarrow> distinct (map fst (enabled_pairs r))"
proof (induction r)
  case Nil
  show ?case by (simp add: enabled_pairs_def enabled_collectors_def)
next
  case (Cons p r)
  obtain name c where p: "p = (name, c)" by (cases p)
  have wf: "well_formed r" "collector_name c = name" "name \<notin> fst ` set r" "\<forall>(name, c) \<in> set r. collector_name c = name"
    using Cons.prems by (auto simp: well_formed_def p)
  have "name \<notin> fst ` set (enabled_pairs r)" using enabled_pairs_names [OF wf(4)] wf(3) by blast
  then show ?case using Cons.IH [OF wf(1)] wf(2) by (simp add: p enabled_pairs_Cons)
qed

lemma enabled_pairs_positive: "intervals_positive r \<Longrightarrow> \<forall>c \<in> set (enabled_pairs r). 0 < snd c"
  by (fastforce simp: enabled_pairs_def enabled_collectors_def intervals_positive_def)

section \<open>Properties\<close>



text \<open>The watcher calls back once for every write to or creation of its file, and for nothing else: not for
  other files of the directory, not for removals or errors.\<close>

theorem watcher_reports_writes:
  "fw_changes (fst (watch_events base f es (new_file_watcher path, c))) =
     length (filter (\<lambda>e. case e of Fs_Event name wr cr \<Rightarrow> base name = base path \<and> (wr \<or> cr) | Fs_Error \<Rightarrow> False) es)"
proof -
  have "relevant_event base path = (\<lambda>e. case e of Fs_Event name wr cr \<Rightarrow> base name = base path \<and> (wr \<or> cr) | Fs_Error \<Rightarrow> False)"
    by (auto simp: relevant_event_def)
  then show ?thesis by (simp add: watch_events_changes new_file_watcher_def)
qed

text \<open>A watcher is good for one life: started again after a stop, its second stop panics.\<close>

theorem second_stop_panics:
  "Option.bind (stop_watcher (fst (start_watcher True (new_file_watcher path))))
     (\<lambda>fw. stop_watcher (fst (start_watcher True fw))) = None"
  by (simp add: stop_watcher_def start_watcher_def new_file_watcher_def)

end
