(* ===== verification/Service.thy ===== *)
theory Service
  imports Prelude
begin

text \<open>
  \<open>internal/service\<close>: how the agent's \<open>run\<close> is embedded in a Windows service (\<open>windows.go\<close>, \<open>Execute\<close>) and in a
  process stopped by signals (\<open>linux.go\<close>, \<open>Run\<close>).  What happens to the process is a list of events; the
  statuses reported to the service manager are part of the result.
\<close>

section \<open>Windows\<close>

datatype svc_state = Start_Pending | Running | Stop_Pending | Stopped | Current_Status

datatype svc_event =
    Interrogate | Stop_Command | Shutdown_Command | Other_Command
  | Run_Returned (run_failed: bool)

record svc_outcome =
  so_specific :: bool
  so_exit :: nat
  so_reported :: "svc_state list"
  so_cancelled :: bool

definition finish_run :: "bool \<Rightarrow> svc_state list \<Rightarrow> svc_outcome" where
  "finish_run err reported =
     \<lparr>so_specific = err, so_exit = (if err then 1 else 0), so_reported = reported @ [Stopped], so_cancelled = False\<rparr>"

text \<open>
  The loop of \<open>Execute\<close> once \<open>Running\<close> has been reported; \<open>None\<close> when the events end before it returns.  After a
  stop command the run function is waited for at most thirty seconds, and \<open>Stopped\<close> follows either way.
\<close>

fun execute_loop :: "svc_event list \<Rightarrow> svc_state list \<Rightarrow> svc_outcome option" where
  "execute_loop [] reported = None"
| "execute_loop (Interrogate # es) reported = execute_loop es (reported @ [Current_Status, Current_Status])"
| "execute_loop (Stop_Command # es) reported =
     Some \<lparr>so_specific = False, so_exit = 0, so_reported = reported @ [Stop_Pending, Stopped], so_cancelled = True\<rparr>"
| "execute_loop (Shutdown_Command # es) reported =
     Some \<lparr>so_specific = False, so_exit = 0, so_reported = reported @ [Stop_Pending, Stopped], so_cancelled = True\<rparr>"
| "execute_loop (Other_Command # es) reported = execute_loop es reported"
| "execute_loop (Run_Returned err # es) reported = Some (finish_run err reported)"

text \<open>\<open>early\<close> is what \<open>run\<close> returned within the grace period of five seconds, if it did.\<close>

definition execute :: "bool option \<Rightarrow> svc_event list \<Rightarrow> svc_outcome option" where
  "execute early events =
     (case early of
        Some err \<Rightarrow> Some (finish_run err [Start_Pending])
      | None \<Rightarrow> execute_loop events [Start_Pending, Running])"

text \<open>\<open>IsService\<close>: the answer of the service manager, or whether standard input is no character device; an error
  counts as no.\<close>

definition windows_is_service :: "bool option \<Rightarrow> bool" where
  "windows_is_service answer = (case answer of None \<Rightarrow> False | Some b \<Rightarrow> b)"

definition linux_is_service :: "bool option \<Rightarrow> bool" where
  "linux_is_service stdin_char_device = (case stdin_char_device of None \<Rightarrow> False | Some device \<Rightarrow> \<not> device)"

text \<open>\<open>Run\<close>: interactively the function is called directly.\<close>

definition windows_run :: "bool \<Rightarrow> bool option \<Rightarrow> svc_event list \<Rightarrow> bool \<Rightarrow> bool + svc_outcome option" where
  "windows_run is_service early events direct = (if \<not> is_service then Inl direct else Inr (execute early events))"

section \<open>Signals\<close>

datatype process_event = Signal | Returned_With (returned_error: bool)

text \<open>
  \<open>Run\<close>: the result is whether an error is returned and whether the context was cancelled first; a second
  signal ends the wait without an error.
\<close>

fun linux_run :: "process_event list \<Rightarrow> (bool \<times> bool) option" where
  "linux_run (Returned_With err # es) = Some (err, False)"
| "linux_run (Signal # Returned_With err # es) = Some (err, True)"
| "linux_run (Signal # Signal # es) = Some (False, True)"
| "linux_run es = None"

text \<open>\<open>Stop\<close>, which cancels once.\<close>

record stoppable =
  st_cancel_set :: bool
  st_stopped :: bool
  st_cancels :: nat

definition service_stop :: "stoppable \<Rightarrow> stoppable" where
  "service_stop s =
     (if st_cancel_set s \<and> \<not> st_stopped s then s\<lparr>st_stopped := True, st_cancels := Suc (st_cancels s)\<rparr> else s)"

section \<open>Facts\<close>

lemma execute_loop_reported:
  "execute_loop es reported = Some out \<Longrightarrow>
     \<exists>mid. so_reported out = reported @ mid @ [Stopped] \<and> Stopped \<notin> set mid \<and> Start_Pending \<notin> set mid \<and>
       (so_cancelled out \<longleftrightarrow> Stop_Pending \<in> set mid) \<and> (so_exit out \<noteq> 0 \<longleftrightarrow> so_specific out)"
proof (induction es reported rule: execute_loop.induct)
  case (2 es reported)
  then obtain mid where "so_reported out = (reported @ [Current_Status, Current_Status]) @ mid @ [Stopped]"
    "Stopped \<notin> set mid" "Start_Pending \<notin> set mid" "so_cancelled out \<longleftrightarrow> Stop_Pending \<in> set mid"
    "so_exit out \<noteq> 0 \<longleftrightarrow> so_specific out" by auto
  then show ?case by (intro exI [of _ "[Current_Status, Current_Status] @ mid"]) auto
next
  case (3 es reported)
  then show ?case by (intro exI [of _ "[Stop_Pending]"]) auto
next
  case (4 es reported)
  then show ?case by (intro exI [of _ "[Stop_Pending]"]) auto
next
  case (6 err es reported)
  then show ?case by (intro exI [of _ "[]"]) (auto simp: finish_run_def split: if_splits)
qed auto

lemma execute_loop_exit:
  "execute_loop es reported = Some out \<Longrightarrow>
     so_specific out = (case dropWhile (\<lambda>e. e = Interrogate \<or> e = Other_Command) es of Run_Returned err # _ \<Rightarrow> err | _ \<Rightarrow> False)"
  by (induction es reported rule: execute_loop.induct) (auto simp: finish_run_def)

section \<open>Properties\<close>

text \<open>What the service manager is told: always \<open>StartPending\<close> first and \<open>Stopped\<close> last and only last; \<open>Running\<close> only
  if \<open>run\<close> survived the grace period; \<open>StopPending\<close> exactly when a stop was commanded; and an exit code other
  than zero exactly when \<open>run\<close> returned an error by itself.\<close>

theorem service_reports_outcome:
  assumes "execute early events = Some out"
  shows "(\<exists>mid. so_reported out = [Start_Pending] @ mid @ [Stopped] \<and> Stopped \<notin> set mid \<and> Start_Pending \<notin> set mid \<and>
      (early \<noteq> None \<longrightarrow> mid = []) \<and> (early = None \<longrightarrow> (\<exists>rest. mid = Running # rest)) \<and>
      (so_cancelled out \<longleftrightarrow> Stop_Pending \<in> set mid)) \<and>
    (so_exit out \<noteq> 0 \<longleftrightarrow>
      (case early of
         Some err \<Rightarrow> err
       | None \<Rightarrow> (case dropWhile (\<lambda>e. e = Interrogate \<or> e = Other_Command) events of Run_Returned err # _ \<Rightarrow> err | _ \<Rightarrow> False)))"
proof (cases early)
  case None
  then have loop: "execute_loop events [Start_Pending, Running] = Some out" using assms by (simp add: execute_def)
  then obtain mid where mid: "so_reported out = [Start_Pending, Running] @ mid @ [Stopped]" "Stopped \<notin> set mid"
    "Start_Pending \<notin> set mid" "so_cancelled out \<longleftrightarrow> Stop_Pending \<in> set mid" "so_exit out \<noteq> 0 \<longleftrightarrow> so_specific out"
    using execute_loop_reported by blast
  show ?thesis using None mid execute_loop_exit [OF loop] by (intro conjI exI [of _ "Running # mid"]) auto
next
  case (Some err)
  then show ?thesis using assms by (auto simp: execute_def finish_run_def split: if_splits)
qed

theorem service_reports_outcome_witness:
  "\<exists>out. execute None [Interrogate, Run_Returned True] = Some out \<and> so_exit out \<noteq> 0"
proof -
  obtain out where "execute None [Interrogate, Run_Returned True] = Some out" by (simp add: execute_def)
  from service_reports_outcome [OF this] this show ?thesis by auto
qed

text \<open>An error that \<open>run\<close> returns after a stop has been commanded is lost: the service exits with zero.\<close>

theorem stop_hides_errors:
  "map_option so_exit (execute None (Stop_Command # Run_Returned True # es)) = Some 0"
  by (simp add: execute_def)

end
