(* ===== verification/Command.thy ===== *)
theory Command
  imports Watcher Service
begin

text \<open>
  The function \<open>main\<close> of \<open>cmd/resourceagent/main.go\<close>: command line, working directory, the three
  configuration files, their validation and the logger, up to the point where the service is run; and
  what the scheduler then starts with.
\<close>

section \<open>main\<close>

record command_line =
  cl_config :: string
  cl_monitor :: string
  cl_logging :: string
  cl_version :: bool

definition default_command_line :: command_line where
  "default_command_line =
     \<lparr>cl_config = ''conf/ResourceAgent/ResourceAgent.json'', cl_monitor = ''conf/ResourceAgent/Monitor.json'',
      cl_logging = ''conf/ResourceAgent/Logging.json'', cl_version = False\<rparr>"

datatype main_result =
    Version_Shown
  | Chdir_Failed string
  | Load_Failed load_error
  | Config_Invalid "validation_error list"
  | Monitor_Invalid "validation_error list"
  | Logging_Invalid "validation_error list"
  | Logger_Failed
  | Service_Runs config monitor_config logging_config

text \<open>
  \<open>dir\<close> and \<open>is_abs\<close> are those of \<open>filepath\<close>; \<open>base_path\<close> is where an absolute configuration path makes the
  process change to.
\<close>

definition base_path :: "(string \<Rightarrow> string) \<Rightarrow> string \<Rightarrow> string" where
  "base_path dir path = dir (dir (dir path))"

definition agent_main ::
  "(string \<Rightarrow> bool) \<Rightarrow> (string \<Rightarrow> string) \<Rightarrow> (string \<Rightarrow> bool) \<Rightarrow> (string \<Rightarrow> 'b option) \<Rightarrow> ('b \<Rightarrow> raw_config option) \<Rightarrow>
     ('b \<Rightarrow> (string \<times> raw_collector_config) list option) \<Rightarrow> ('b \<Rightarrow> logging_config option) \<Rightarrow> (string \<Rightarrow> bool) \<Rightarrow>
     (string \<Rightarrow> bool) \<Rightarrow> bool \<Rightarrow> command_line \<Rightarrow> main_result" where
  "agent_main is_abs dir chdir_ok read_file um_config um_monitor um_logging compiles mkdir_ok service_mode cl =
     (if cl_version cl then Version_Shown
      else if is_abs (cl_config cl) \<and> \<not> chdir_ok (base_path dir (cl_config cl))
        then Chdir_Failed (base_path dir (cl_config cl))
      else case load_split read_file um_config um_monitor um_logging (cl_config cl) (cl_monitor cl) (cl_logging cl) of
        Inl e \<Rightarrow> Load_Failed e
      | Inr (cfg, mc, lc) \<Rightarrow>
          if validate_config compiles cfg \<noteq> [] then Config_Invalid (validate_config compiles cfg)
          else if validate_monitor_config mc \<noteq> [] then Monitor_Invalid (validate_monitor_config mc)
          else if validate_logging_config lc \<noteq> [] then Logging_Invalid (validate_logging_config lc)
          else if \<not> snd (logger_init mkdir_ok lc (set_service_mode service_mode new_logger)) then Logger_Failed
          else Service_Runs cfg mc lc)"

definition exit_code :: "main_result \<Rightarrow> nat option" where
  "exit_code r = (case r of Version_Shown \<Rightarrow> Some 0 | Service_Runs _ _ _ \<Rightarrow> None | _ \<Rightarrow> Some 1)"

text \<open>
  Where a failed start is reported: the event log, and \<open>WriteStartupErrorFile\<close>'s file, which always holds only
  the newest error; a failed change of directory leaves no file.  \<open>created\<close> is whether the file could be
  made, \<open>stamp\<close> the time as printed.
\<close>

definition reports_to_event_log :: "main_result \<Rightarrow> bool" where
  "reports_to_event_log r = (exit_code r = Some 1)"

definition writes_error_file :: "main_result \<Rightarrow> bool" where
  "writes_error_file r = (exit_code r = Some 1 \<and> (case r of Chdir_Failed _ \<Rightarrow> False | _ \<Rightarrow> True))"

definition write_startup_error_file :: "bool \<Rightarrow> string \<Rightarrow> string \<Rightarrow> string option \<Rightarrow> string option" where
  "write_startup_error_file created stamp err old =
     (if created then Some (''['' @ stamp @ ''] STARTUP ERROR'' @ [CHR 0x0A] @ err @ [CHR 0x0A]) else old)"

text \<open>
  \<open>ReportStartupError\<close>: an entry of the event log is its source, its id and its text; \<open>opened\<close> is whether the log
  could be opened.  On other platforms nothing happens.
\<close>

type_synonym event_entry = "string \<times> nat \<times> string"

definition report_startup_error_windows :: "bool \<Rightarrow> string \<Rightarrow> string \<Rightarrow> event_entry list \<Rightarrow> event_entry list" where
  "report_startup_error_windows opened service err es =
     (if opened then es @ [(service, 1, ''Failed to start: '' @ err)] else es)"

definition report_startup_error_other :: "string \<Rightarrow> string \<Rightarrow> event_entry list \<Rightarrow> event_entry list" where
  "report_startup_error_other service err es = es"

text \<open>What \<open>main\<close> leaves in the event log and in the file before it exits.\<close>

definition report_failure ::
  "bool \<Rightarrow> bool \<Rightarrow> bool \<Rightarrow> string \<Rightarrow> string \<Rightarrow> main_result \<Rightarrow> event_entry list \<times> string option \<Rightarrow> event_entry list \<times> string option" where
  "report_failure windows opened created stamp err r left_behind =
     ((if reports_to_event_log r
       then (if windows then report_startup_error_windows opened else report_startup_error_other) ''ResourceAgent'' err (fst left_behind)
       else fst left_behind),
      (if writes_error_file r then write_startup_error_file created stamp err (snd left_behind) else snd left_behind))"

section \<open>What the scheduler starts with\<close>

definition started_registry :: "bool \<Rightarrow> int \<Rightarrow> monitor_config \<Rightarrow> registry" where
  "started_registry windows num_cpu mc = register_self_metrics mc (start_collectors windows num_cpu mc)"

definition started_scheduler :: "bool \<Rightarrow> int \<Rightarrow> monitor_config \<Rightarrow> scheduler" where
  "started_scheduler windows num_cpu mc = new_scheduler (enabled_pairs (started_registry windows num_cpu mc))"

section \<open>Facts\<close>

lemma update_entries: "(n, x) \<in> set (AList.update k v m) \<Longrightarrow> n = k \<and> x = v \<or> (n, x) \<in> set m"
  by (induction m) (auto split: if_splits)

lemma update_keeps:
  assumes "well_formed r" "intervals_positive r" "collector_name c = k" "0 < collector_interval c"
  shows "well_formed (AList.update k c r)" and "intervals_positive (AList.update k c r)"
  using assms by (auto simp: well_formed_def intervals_positive_def distinct_update dest!: update_entries)

lemma register_self_metrics_keeps:
  assumes "well_formed r" and "intervals_positive r"
  shows "well_formed (register_self_metrics mc r) \<and> intervals_positive (register_self_metrics mc r)"
proof (cases "map_of r ''SelfMetrics''")
  case None
  let ?c = "C_SelfMetrics new_self_metrics_collector"
  let ?cfg = "case map_of (mc_collectors mc) ''SelfMetrics'' of Some x \<Rightarrow> x | None \<Rightarrow> default_collector_config ?c"
  have name: "collector_name ?c = ''SelfMetrics''" and pos: "0 < collector_interval ?c"
    by (simp_all add: new_self_metrics_collector_def new_base_collector_def second_def)
  have eq: "register_self_metrics mc r =
      AList.update ''SelfMetrics'' (configure_collector False ?cfg ?c) (AList.update ''SelfMetrics'' ?c r)"
    unfolding register_self_metrics_def Let_def register_def name None by (simp only: option.case sum.case)
  note step1 = update_keeps [OF assms name pos]
  show ?thesis unfolding eq using name pos
    by (intro conjI update_keeps [OF step1]) simp_all
qed (simp add: register_self_metrics_def register_def new_self_metrics_collector_def new_base_collector_def assms)

lemma started_scheduler_legal:
  assumes "load_monitor read_file um path = Inr mc"
  shows "sched_reachable (started_scheduler windows num_cpu mc)"
proof -
  note d = load_monitor_distinct [OF assms]
  have "well_formed (started_registry windows num_cpu mc)" "intervals_positive (started_registry windows num_cpu mc)"
    using register_self_metrics_keeps [OF started_well_formed [OF d]] by (simp_all add: started_registry_def)
  then show ?thesis unfolding started_scheduler_def
    by (intro sched_reachable.init enabled_pairs_distinct enabled_pairs_positive)
qed

lemma agent_main_runs:
  assumes "agent_main is_abs dir chdir_ok read_file um_config um_monitor um_logging compiles mkdir_ok mode cl = Service_Runs cfg mc lc"
  shows "load_config read_file um_config (cl_config cl) = Inr cfg" and "load_monitor read_file um_monitor (cl_monitor cl) = Inr mc"
    and "load_logging read_file um_logging (cl_logging cl) = Inr lc"
    and "validate_config compiles cfg = []" and "validate_monitor_config mc = []" and "validate_logging_config lc = []"
  using assms by (auto simp: agent_main_def load_split_def bind_result_eq_Inr split: if_splits sum.splits)

section \<open>Properties\<close>

text \<open>Whatever the three files hold, the process either ends with a code - one, unless it was asked for its
  version - or runs with configurations that are the ones loaded and that all three validations accept.
  The scheduler it then builds is a legal start of the scheduler's step relation: enabled collectors
  have distinct names and positive intervals, so no ticker panics.\<close>

theorem service_runs_validated:
  assumes "agent_main is_abs dir chdir_ok read_file um_config um_monitor um_logging compiles mkdir_ok mode cl = r"
  shows "case exit_code r of
      Some code \<Rightarrow> code = (if cl_version cl then 0 else 1)
    | None \<Rightarrow> (\<exists>cfg mc lc. r = Service_Runs cfg mc lc \<and>
        load_config read_file um_config (cl_config cl) = Inr cfg \<and> load_monitor read_file um_monitor (cl_monitor cl) = Inr mc \<and>
        load_logging read_file um_logging (cl_logging cl) = Inr lc \<and>
        validate_config compiles cfg = [] \<and> validate_monitor_config mc = [] \<and> validate_logging_config lc = [] \<and>
        sched_reachable (started_scheduler windows num_cpu mc))"
proof (cases r)
  case (Service_Runs cfg mc lc)
  note loaded = agent_main_runs [OF assms [unfolded Service_Runs]]
  then show ?thesis using started_scheduler_legal [OF loaded(2)] by (simp add: Service_Runs exit_code_def)
qed (use assms in \<open>auto simp: exit_code_def agent_main_def split: if_splits sum.splits\<close>)

text \<open>A start that fails is never silent where it can be reported: the event log of Windows gets one entry with the
  error, and the error file holds it, unless the working directory could not be changed; a process that
  runs or only shows its version leaves both as they were.\<close>

theorem failed_start_is_reported:
  "report_failure windows opened created stamp err r (es, old) =
     (if exit_code r = Some 1 \<and> windows \<and> opened then es @ [(''ResourceAgent'', 1, ''Failed to start: '' @ err)] else es,
      if exit_code r = Some 1 \<and> created \<and> (\<forall>d. r \<noteq> Chdir_Failed d)
      then Some (''['' @ stamp @ ''] STARTUP ERROR'' @ [CHR 0x0A] @ err @ [CHR 0x0A]) else old)"
  by (cases r) (simp_all add: report_failure_def reports_to_event_log_def writes_error_file_def exit_code_def
      report_startup_error_windows_def report_startup_error_other_def write_startup_error_file_def)

end
