(* ===== verification/StoragePlatform.thy ===== *)
theory StoragePlatform
  imports Sensors StorageHealth Scanner "HOL-Library.Word"
begin

text \<open>
  What the storage health and fan collectors read on each platform:
  \<open>internal/collector/storage_health_windows.go\<close> (WMI, with the protocol that keeps at most one query
  outstanding), \<open>storage_health_unix.go\<close> (\<open>smartctl\<close>) and \<open>fan_unix.go\<close> (sysfs).  Directories, files, the
  exit code and output of \<open>smartctl\<close> and the answers of WMI are parameters.
\<close>

unbundle bit_operations_syntax

section \<open>Windows: what is reported\<close>

record wmi_disk =
  wd_model :: string
  wd_status :: string
  wd_media_type :: string
  wd_interface_type :: string

definition is_removable_media :: "string \<Rightarrow> bool" where
  "is_removable_media media =
     (let lower = to_lower media in contains lower ''removable'' \<or> contains lower ''external'')"

definition classify_disk_type :: "string \<Rightarrow> string \<Rightarrow> string" where
  "classify_disk_type interface_type model =
     (let upper = to_upper model in
      if contains upper ''NVME'' then ''NVMe'' else if contains upper ''SSD'' then ''SSD'' else [])"

text \<open>
  The loop of \<open>collectHealthStatus\<close>; \<open>cancelled k\<close> says that the context is done before disk \<open>k\<close>, which makes
  the whole collection an error.
\<close>

fun health_loop_windows ::
  "(nat \<Rightarrow> bool) \<Rightarrow> nat \<Rightarrow> filtered_collector \<Rightarrow> wmi_disk list \<Rightarrow> storage_health_disk list option" where
  "health_loop_windows cancelled k c [] = Some []"
| "health_loop_windows cancelled k c (d # ds) =
     (if cancelled k then None
      else
        (let name = (if trim_space (wd_model d) = [] then ''Unknown Disk'' else trim_space (wd_model d));
             rest = health_loop_windows cancelled (Suc k) c ds in
         if is_removable_media (wd_media_type d) then rest
         else if co_include c \<noteq> [] \<and> \<not> storage_health_should_include c name then rest
         else map_option ((#)
           \<lparr>shd_name = name, shd_status = normalize_health_status (wd_status d), shd_raw_status = wd_status d,
            shd_disk_type = classify_disk_type (wd_interface_type d) (wd_model d)\<rparr>) rest))"

section \<open>Windows: one query at a time\<close>

type_synonym wmi_entry = "wmi_disk list \<times> bool"  \<comment> \<open>the disks and whether the query failed\<close>

datatype wmi_worker = Querying | Stored

record wmi_state =
  wq_in_flight :: bool
  wq_cache :: "wmi_entry option"
  wq_workers :: "wmi_worker list"

definition wmi_initial :: wmi_state where
  "wmi_initial = \<lparr>wq_in_flight = False, wq_cache = None, wq_workers = []\<rparr>"

datatype wmi_reply = Spawned | Served wmi_entry | Nothing_Cached

text \<open>The entry of \<open>queryWMIDiskDrive\<close>: the compare-and-swap, and what a refused caller is given.\<close>

definition wmi_call :: "wmi_state \<Rightarrow> wmi_state \<times> wmi_reply" where
  "wmi_call s =
     (if wq_in_flight s
      then (s, case wq_cache s of None \<Rightarrow> Nothing_Cached | Some e \<Rightarrow> Served e)
      else (s\<lparr>wq_in_flight := True, wq_workers := wq_workers s @ [Querying]\<rparr>, Spawned))"

text \<open>The two steps of a worker whose query has returned: the cache first, then the flag.\<close>

inductive wmi_step :: "wmi_state \<Rightarrow> wmi_state \<Rightarrow> bool" where
  wmi_called: "wmi_step s (fst (wmi_call s))"
| wmi_stored: "wq_workers s = xs @ Querying # ys \<Longrightarrow>
    wmi_step s (s\<lparr>wq_cache := Some e, wq_workers := xs @ Stored # ys\<rparr>)"
| wmi_cleared: "wq_workers s = xs @ Stored # ys \<Longrightarrow>
    wmi_step s (s\<lparr>wq_in_flight := False, wq_workers := xs @ ys\<rparr>)"

inductive wmi_reachable :: "wmi_state \<Rightarrow> bool" where
  wmi_start: "wmi_reachable wmi_initial"
| wmi_advance: "wmi_reachable s \<Longrightarrow> wmi_step s s' \<Longrightarrow> wmi_reachable s'"

text \<open>
  What a call that waits gets: the worker's entry, or an error when its context ends first.
\<close>

definition wmi_wait :: "wmi_entry option \<Rightarrow> wmi_disk list option" where
  "wmi_wait r = (case r of None \<Rightarrow> None | Some (disks, failed) \<Rightarrow> if failed then None else Some disks)"

definition wmi_result :: "wmi_reply \<Rightarrow> wmi_entry option \<Rightarrow> wmi_disk list option" where
  "wmi_result reply r =
     (case reply of Spawned \<Rightarrow> wmi_wait r | Served e \<Rightarrow> wmi_wait (Some e) | Nothing_Cached \<Rightarrow> None)"

definition collect_health_windows ::
  "(nat \<Rightarrow> bool) \<Rightarrow> wmi_reply \<Rightarrow> wmi_entry option \<Rightarrow> filtered_collector \<Rightarrow> storage_health_disk list option" where
  "collect_health_windows cancelled reply r c =
     (case wmi_result reply r of None \<Rightarrow> None | Some ds \<Rightarrow> health_loop_windows cancelled 0 c ds)"

section \<open>Linux: smartctl\<close>

definition virtual_prefixes :: "string list" where
  "virtual_prefixes = [''loop'', ''dm-'', ''ram'', ''sr'', ''fd'', ''zram'']"

definition is_virtual_device :: "string \<Rightarrow> bool" where
  "is_virtual_device name = list_ex (has_prefix name) virtual_prefixes"

definition enumerate_block_devices :: "string list option \<Rightarrow> string list option" where
  "enumerate_block_devices entries = map_option (filter (\<lambda>n. \<not> is_virtual_device n)) entries"

fun find_result :: "string list \<Rightarrow> string" where
  "find_result [] = []"
| "find_result (l # ls) =
     (if contains l ''self-assessment test result'' then
        (case dropWhile (\<lambda>c. c \<noteq> CHR '':'') l of
           [] \<Rightarrow> find_result ls
         | _ # rest \<Rightarrow> trim_space rest)
      else find_result ls)"

definition parse_smartctl_output :: "string \<Rightarrow> string" where
  "parse_smartctl_output text = find_result (fst (scan_lines max_token text))"

datatype smartctl_run = Exec_Error | Exited int string

definition query_smartctl_health :: "smartctl_run \<Rightarrow> string \<times> string" where
  "query_smartctl_health run =
     (case run of
        Exec_Error \<Rightarrow> (''UNKNOWN'', [])
      | Exited code text \<Rightarrow>
          if code AND 2 \<noteq> 0 then (''UNKNOWN'', [])
          else if code AND 8 \<noteq> 0 then (''FAIL'', ''FAILING'')
          else (let raw = parse_smartctl_output text in
                if raw \<noteq> [] then (normalize_health_status raw, raw) else (''UNKNOWN'', [])))"

definition detect_disk_type :: "(string \<Rightarrow> string option) \<Rightarrow> string \<Rightarrow> string" where
  "detect_disk_type rotational dev =
     (if has_prefix dev ''nvme'' then ''NVMe''
      else case rotational dev of
        None \<Rightarrow> []
      | Some t \<Rightarrow> if trim_space t = ''0'' then ''SSD'' else if trim_space t = ''1'' then ''HDD'' else [])"

fun health_loop_unix ::
  "(nat \<Rightarrow> bool) \<Rightarrow> (string \<Rightarrow> smartctl_run) \<Rightarrow> (string \<Rightarrow> string option) \<Rightarrow> nat \<Rightarrow> filtered_collector \<Rightarrow> string list \<Rightarrow>
     storage_health_disk list option" where
  "health_loop_unix cancelled smartctl rotational k c [] = Some []"
| "health_loop_unix cancelled smartctl rotational k c (dev # devs) =
     (if cancelled k then None
      else
        (let rest = health_loop_unix cancelled smartctl rotational (Suc k) c devs in
         if co_include c \<noteq> [] \<and> \<not> storage_health_should_include c dev then rest
         else
           (let (status, raw) = query_smartctl_health (smartctl (''/dev/'' @ dev)) in
            map_option ((#) \<lparr>shd_name = dev, shd_status = status, shd_raw_status = raw,
              shd_disk_type = detect_disk_type rotational dev\<rparr>) rest)))"

text \<open>\<open>platformConfigure\<close>: the package looks for \<open>smartctl\<close> once; \<open>look_path\<close> is the answer of \<open>LookPath\<close>.\<close>

record smartctl_cache =
  sc_checked :: bool
  sc_path :: string

definition platform_configure :: "string option \<Rightarrow> smartctl_cache \<Rightarrow> smartctl_cache" where
  "platform_configure look_path s =
     (if sc_checked s then s
      else \<lparr>sc_checked = True, sc_path = (case look_path of None \<Rightarrow> [] | Some p \<Rightarrow> p)\<rparr>)"

text \<open>Later configurations change nothing: a \<open>smartctl\<close> installed afterwards is not found until a restart.\<close>

lemma smartctl_looked_up_once:
  "fold platform_configure ls (platform_configure look s) = platform_configure look s"
proof -
  have "fold platform_configure ls c = c" if "sc_checked c" for c
    using that by (induction ls) (simp_all add: platform_configure_def)
  then show ?thesis by (simp add: platform_configure_def)
qed

text \<open>\<open>found\<close> says whether the cached path is not empty; without \<open>smartctl\<close> nothing is read.\<close>

definition collect_health_unix ::
  "bool \<Rightarrow> bool \<Rightarrow> (nat \<Rightarrow> bool) \<Rightarrow> (string \<Rightarrow> smartctl_run) \<Rightarrow> (string \<Rightarrow> string option) \<Rightarrow> string list option \<Rightarrow>
     filtered_collector \<Rightarrow> storage_health_disk list option" where
  "collect_health_unix darwin found cancelled smartctl rotational entries c =
     (if darwin \<or> \<not> found then Some []
      else case enumerate_block_devices entries of
        None \<Rightarrow> None
      | Some devs \<Rightarrow> health_loop_unix cancelled smartctl rotational 0 c devs)"

section \<open>Linux: fans\<close>

text \<open>A directory below \<open>/sys/class/hwmon\<close>: its name, the content of \<open>name\<close>, and its \<open>fan*_input\<close> files.\<close>

record fan_file =
  ff_base :: string
  ff_content :: "string option"
  ff_label :: "string option"

record hwmon =
  hw_is_dir :: bool
  hw_base :: string
  hw_name :: "string option"
  hw_fans :: "fan_file list option"

definition trim_suffix :: "string \<Rightarrow> string \<Rightarrow> string" where
  "trim_suffix s x = (if length x \<le> length s \<and> drop (length s - length x) s = x then take (length s - length x) s else s)"

definition get_hwmon_device_name :: "hwmon \<Rightarrow> string" where
  "get_hwmon_device_name h = (case hw_name h of None \<Rightarrow> hw_base h | Some t \<Rightarrow> trim_space t)"

definition get_fan_label :: "fan_file \<Rightarrow> string \<Rightarrow> string" where
  "get_fan_label f device =
     (let num = trim_suffix (trim_prefix (ff_base f) ''fan'') ''_input''; fallback = device @ '' Fan #'' @ num in
      case ff_label f of
        None \<Rightarrow> fallback
      | Some t \<Rightarrow> if trim_space t \<noteq> [] then trim_space t else fallback)"

definition read_fan :: "(string \<Rightarrow> f64 option) \<Rightarrow> filtered_collector \<Rightarrow> string \<Rightarrow> fan_file \<Rightarrow> fan_sensor option" where
  "read_fan parse_float c device f =
     (case ff_content f of
        None \<Rightarrow> None
      | Some t \<Rightarrow>
          (case parse_float (trim_space t) of
             None \<Rightarrow> None
           | Some rpm \<Rightarrow>
               if f64_less rpm f64_zero then None
               else
                 (let name = get_fan_label f device in
                  if co_include c \<noteq> [] \<and> \<not> fan_should_include c name then None
                  else Some \<lparr>fs_name = name, fs_rpm = rpm\<rparr>)))"

text \<open>All fan files in the order of the loops; a context that is done before one of them is an error.\<close>

definition collect_fan_unix ::
  "bool \<Rightarrow> (nat \<Rightarrow> bool) \<Rightarrow> (string \<Rightarrow> f64 option) \<Rightarrow> hwmon list option \<Rightarrow> filtered_collector \<Rightarrow> fan_sensor list option" where
  "collect_fan_unix darwin cancelled parse_float entries c =
     (if darwin then Some []
      else case entries of
        None \<Rightarrow> Some []
      | Some hs \<Rightarrow>
          (let files = concat (map (\<lambda>h. case hw_fans h of None \<Rightarrow> [] | Some fs \<Rightarrow> map (Pair (get_hwmon_device_name h)) fs)
                 (filter hw_is_dir hs)) in
           if list_ex cancelled [0..<length files] then None
           else Some (List.map_filter (\<lambda>(device, f). read_fan parse_float c device f) files)))"

section \<open>Facts\<close>

definition wmi_ok :: "wmi_state \<Rightarrow> bool" where
  "wmi_ok s = (wq_workers s = [] \<and> \<not> wq_in_flight s \<or>
     (\<exists>w. wq_workers s = [w] \<and> wq_in_flight s \<and> (w = Stored \<longrightarrow> wq_cache s \<noteq> None)))"

lemma wmi_step_ok: "wmi_step s s' \<Longrightarrow> wmi_ok s \<Longrightarrow> wmi_ok s'"
  by (induction rule: wmi_step.induct) (auto simp: wmi_ok_def wmi_call_def append_eq_Cons_conv)

lemma wmi_reachable_ok: "wmi_reachable s \<Longrightarrow> wmi_ok s"
proof (induction rule: wmi_reachable.induct)
  case wmi_start
  show ?case by (simp add: wmi_ok_def wmi_initial_def)
qed (rule wmi_step_ok)

lemma health_loop_unix_eq:
  "health_loop_unix (\<lambda>_. False) smartctl rotational k c devs =
     Some (map (\<lambda>dev. \<lparr>shd_name = dev, shd_status = fst (query_smartctl_health (smartctl (''/dev/'' @ dev))),
         shd_raw_status = snd (query_smartctl_health (smartctl (''/dev/'' @ dev))), shd_disk_type = detect_disk_type rotational dev\<rparr>)
       (filter (\<lambda>dev. \<not> (co_include c \<noteq> [] \<and> \<not> storage_health_should_include c dev)) devs))"
  by (induction devs arbitrary: k) (auto simp: Let_def split: prod.splits)

section \<open>Properties\<close>

text \<open>However often WMI hangs and however many collections run meanwhile, at most one query is outstanding:
  the flag is set exactly while a worker runs, a call starts a worker exactly when there is none, and a
  worker that has set the cache but not yet cleared the flag leaves callers its answer.\<close>

theorem single_wmi_query:
  assumes "wmi_reachable s"
  shows "length (wq_workers s) \<le> 1 \<and> (wq_in_flight s \<longleftrightarrow> wq_workers s \<noteq> []) \<and>
    (snd (wmi_call s) = Spawned \<longleftrightarrow> wq_workers s = []) \<and>
    (wq_workers s = [Stored] \<longrightarrow> (\<exists>e. snd (wmi_call s) = Served e))"
  using wmi_reachable_ok [OF assms] by (auto simp: wmi_ok_def wmi_call_def split: option.splits)

theorem single_wmi_query_witness:
  "wq_workers (fst (wmi_call wmi_initial)) = [Querying] \<and> snd (wmi_call (fst (wmi_call wmi_initial))) = Nothing_Cached \<and>
   wq_in_flight (fst (wmi_call wmi_initial))"
proof -
  have "wmi_reachable (fst (wmi_call wmi_initial))"
    by (rule wmi_advance [OF wmi_start wmi_called])
  from single_wmi_query [OF this] show ?thesis by (simp add: wmi_call_def wmi_initial_def)
qed

text \<open>On Linux every physical drive is reported once and in order, virtual devices never; a drive that
  \<open>smartctl\<close> could open and calls failing carries the number three downstream, and one it could not open
  minus one, whatever the output says.\<close>

theorem failing_drives_reported:
  assumes "co_include c = []"
  shows "\<exists>ds. collect_health_unix False True (\<lambda>_. False) smartctl rotational (Some entries) c = Some ds \<and>
    map shd_name ds = filter (\<lambda>n. \<not> is_virtual_device n) entries \<and>
    list_all (\<lambda>d. case smartctl (''/dev/'' @ shd_name d) of
        Exec_Error \<Rightarrow> health_status_value (shd_status d) = f64_of_int (- 1)
      | Exited code text \<Rightarrow>
          (code AND 2 \<noteq> 0 \<longrightarrow> health_status_value (shd_status d) = f64_of_int (- 1)) \<and>
          (code AND 2 = 0 \<and> code AND 8 \<noteq> 0 \<longrightarrow> health_status_value (shd_status d) = f64_of_int 3)) ds"
  using assms
  by (auto simp: collect_health_unix_def enumerate_block_devices_def health_loop_unix_eq list_all_iff comp_def
      query_smartctl_health_def health_status_value_def split: smartctl_run.splits)

theorem failing_drives_reported_witness:
  "\<exists>ds. collect_health_unix False True (\<lambda>_. False) (\<lambda>dev. Exited 8 []) (\<lambda>dev. None) (Some [''sda'', ''loop0''])
      new_storage_health_collector = Some ds \<and> map shd_name ds = [''sda''] \<and>
    list_all (\<lambda>d. health_status_value (shd_status d) = f64_of_int 3) ds"
proof -
  have "co_include new_storage_health_collector = []" by (simp add: new_storage_health_collector_def new_filtered_def)
  moreover have "filter (\<lambda>n. \<not> is_virtual_device n) [''sda'', ''loop0''] = [''sda'']" by code_simp
  ultimately show ?thesis
    using failing_drives_reported [of new_storage_health_collector "\<lambda>dev. Exited 8 []" "\<lambda>dev. None" "[''sda'', ''loop0'']"]
    by simp
qed

end
