(* ===== verification/Swap.thy ===== *)
theory Swap
  imports KafkaSender
begin

text \<open>
  Sending while the transport is exchanged.  \<open>Send\<close> of \<open>internal/sender/kafka.go\<close> takes the transport under
  the read lock and delivers to it after releasing the lock; meanwhile the refresher
  (\<open>internal/discovery/refresher.go\<close>) may swap the transport and close the one a call still holds, and the
  agent may close the sender.  Here the calls, the swaps, the closing goroutines and the flush loops of
  all transports interleave freely.  Transports are known by the number they were created under;
  \<open>sw_offered\<close> and \<open>sw_refused\<close> are kept for the theorems.
\<close>

section \<open>The system\<close>

record swap_state =
  sw_sender :: "nat kafka_sender"
  sw_pool :: "nat \<Rightarrow> system"
  sw_created :: nat
  sw_closing :: "nat set"                          \<comment> \<open>transports some goroutine has closed or is about to close\<close>
  sw_calls :: "(nat \<times> kafka_record list) list"      \<comment> \<open>calls that have taken a transport\<close>
  sw_offered :: "kafka_record list"
  sw_refused :: "kafka_record list"

definition swap_initial :: "string \<Rightarrow> batch_config \<Rightarrow> string \<Rightarrow> eqp_info_config option \<Rightarrow> formatter \<Rightarrow> swap_state" where
  "swap_initial addr cfg topic eqp fmt =
     \<lparr>sw_sender = new_kafka_sender 0 topic eqp fmt, sw_pool = (\<lambda>i. initial addr cfg), sw_created = 1,
      sw_closing = {}, sw_calls = [], sw_offered = [], sw_refused = []\<rparr>"

text \<open>The part of \<open>Send\<close> under the read lock, for a call whose metric has the records \<open>rs\<close>.\<close>

definition enter_send :: "kafka_record list \<Rightarrow> swap_state \<Rightarrow> swap_state option" where
  "enter_send rs s =
     (if ks_closed (sw_sender s) then None
      else Some (s\<lparr>sw_calls := sw_calls s @ [(ks_transport (sw_sender s), rs)], sw_offered := sw_offered s @ rs\<rparr>))"

definition set_transport :: "nat \<Rightarrow> system \<Rightarrow> swap_state \<Rightarrow> swap_state" where
  "set_transport i t s = s\<lparr>sw_pool := (sw_pool s)(i := t)\<rparr>"

definition create_transport :: "string \<Rightarrow> batch_config \<Rightarrow> swap_state \<Rightarrow> swap_state" where
  "create_transport addr cfg s = (set_transport (sw_created s) (initial addr cfg) s)\<lparr>sw_created := Suc (sw_created s)\<rparr>"

text \<open>
  The exchange in \<open>refreshOnce\<close>: a transport is made, and either it becomes the sender's and the old one is
  left to a goroutine that closes it, or the sender is closed and the new one is closed.
\<close>

definition exchange :: "string \<Rightarrow> batch_config \<Rightarrow> swap_state \<Rightarrow> swap_state" where
  "exchange addr cfg s =
     (let s1 = create_transport addr cfg s in
      case swap_transport (sw_created s) (sw_sender s) of
        (k, Inl e) \<Rightarrow> s1\<lparr>sw_sender := k, sw_closing := insert (sw_created s) (sw_closing s)\<rparr>
      | (k, Inr old) \<Rightarrow> s1\<lparr>sw_sender := k, sw_closing := insert old (sw_closing s)\<rparr>)"

definition close_sender :: "swap_state \<Rightarrow> swap_state" where
  "close_sender s =
     (if ks_closed (sw_sender s) then s
      else s\<lparr>sw_sender := fst (kafka_sender_close (\<lambda>i. (i, None)) (sw_sender s)),
             sw_closing := insert (ks_transport (sw_sender s)) (sw_closing s)\<rparr>)"

inductive swap_step :: "batch_config \<Rightarrow> swap_state \<Rightarrow> swap_state \<Rightarrow> bool" for cfg where
  sw_enter: "rs \<noteq> [] \<Longrightarrow> enter_send rs s = Some s' \<Longrightarrow> swap_step cfg s s'"
| sw_deliver: "sw_calls s = xs @ (i, rs) # ys \<Longrightarrow>
    deliver_locked (ks_topic (sw_sender s)) rs (sy_t (sw_pool s i)) = Inr (t', out) \<Longrightarrow>
    swap_step cfg s ((set_transport i (accept (ks_topic (sw_sender s)) rs t' out (sw_pool s i)) s)\<lparr>sw_calls := xs @ ys\<rparr>)"
| sw_refuse: "sw_calls s = xs @ (i, rs) # ys \<Longrightarrow>
    deliver_locked (ks_topic (sw_sender s)) rs (sy_t (sw_pool s i)) = Inl e \<Longrightarrow>
    swap_step cfg s (s\<lparr>sw_calls := xs @ ys, sw_refused := sw_refused s @ rs\<rparr>)"
| sw_work: "i < sw_created s \<Longrightarrow> step (sw_pool s i) t \<Longrightarrow> sy_accepted t = sy_accepted (sw_pool s i) \<Longrightarrow>
    bt_closed (sy_t t) = bt_closed (sy_t (sw_pool s i)) \<Longrightarrow> swap_step cfg s (set_transport i t s)"
| sw_exchange: "swap_step cfg s (exchange addr cfg s)"
| sw_close_transport: "i \<in> sw_closing s \<Longrightarrow>
    swap_step cfg s (set_transport i ((sw_pool s i)\<lparr>sy_t := close_locked (sy_t (sw_pool s i))\<rparr>) s)"
| sw_close_sender: "swap_step cfg s (close_sender s)"

inductive swap_reachable :: "string \<Rightarrow> batch_config \<Rightarrow> string \<Rightarrow> swap_state \<Rightarrow> bool" for addr cfg topic where
  sw_start: "swap_reachable addr cfg topic (swap_initial addr cfg topic eqp fmt)"
| sw_advance: "swap_reachable addr cfg topic s \<Longrightarrow> swap_step cfg s s' \<Longrightarrow> swap_reachable addr cfg topic s'"

section \<open>The invariant\<close>

definition accepted_by :: "swap_state \<Rightarrow> tagged multiset" where
  "accepted_by s = (\<Sum>i < sw_created s. mset (sy_accepted (sw_pool s i)))"

definition pool_ok :: "batch_config \<Rightarrow> swap_state \<Rightarrow> bool" where
  "pool_ok cfg s =
     ((\<forall>i < sw_created s. (\<exists>addr. reachable addr cfg (sw_pool s i)) \<and>
         (bt_closed (sy_t (sw_pool s i)) \<longrightarrow> i \<in> sw_closing s)) \<and>
      (\<forall>c \<in> set (sw_calls s). fst c < sw_created s \<and> snd c \<noteq> []) \<and> sw_closing s \<subseteq> {..<sw_created s} \<and>
      ks_transport (sw_sender s) < sw_created s \<and>
      (\<not> ks_closed (sw_sender s) \<longrightarrow> ks_transport (sw_sender s) \<notin> sw_closing s))"

definition offers_ok :: "string \<Rightarrow> swap_state \<Rightarrow> bool" where
  "offers_ok topic s =
     (ks_topic (sw_sender s) = topic \<and>
      mset (tag topic (sw_offered s)) =
        mset (tag topic (concat (map snd (sw_calls s)))) + mset (tag topic (sw_refused s)) + accepted_by s)"

lemma accepted_by_set:
  assumes "i < sw_created s"
  shows "accepted_by (set_transport i t s) + mset (sy_accepted (sw_pool s i)) = accepted_by s + mset (sy_accepted t)"
proof -
  have "accepted_by u = mset (sy_accepted (sw_pool u i)) + (\<Sum>j \<in> {..<sw_created u} - {i}. mset (sy_accepted (sw_pool u j)))"
    if "sw_created u = sw_created s" for u
    unfolding accepted_by_def using assms that by (intro sum.remove) auto
  from this [of s] this [of "set_transport i t s"] show ?thesis by (simp add: set_transport_def)
qed

lemma set_transport_simps [simp]:
  "sw_sender (set_transport i t s) = sw_sender s" "sw_created (set_transport i t s) = sw_created s"
  "sw_closing (set_transport i t s) = sw_closing s" "sw_calls (set_transport i t s) = sw_calls s"
  "sw_offered (set_transport i t s) = sw_offered s" "sw_refused (set_transport i t s) = sw_refused s"
  "sw_pool (set_transport i t s) = (sw_pool s)(i := t)"
  by (simp_all add: set_transport_def)

lemma accepted_by_create: "accepted_by (create_transport addr cfg s) = accepted_by s"
  by (simp add: accepted_by_def create_transport_def initial_def)

lemma accepted_by_cong:
  "sw_created u = sw_created s \<Longrightarrow> sw_pool u = sw_pool s \<Longrightarrow> accepted_by u = accepted_by s"
  by (simp add: accepted_by_def)

lemma pool_reachable: "pool_ok cfg s \<Longrightarrow> i < sw_created s \<Longrightarrow> \<exists>addr. reachable addr cfg (sw_pool s i)"
  by (simp add: pool_ok_def)

text \<open>A transport is moved to a state it can reach, and is not closed unless it may be.\<close>

lemma pool_ok_set:
  assumes "pool_ok cfg s" and "i < sw_created s" and "reachable addr cfg t"
    and "bt_closed (sy_t t) \<longrightarrow> i \<in> sw_closing s"
  shows "pool_ok cfg (set_transport i t s)"
  using assms by (auto simp: pool_ok_def)

lemma pool_ok_calls:
  "pool_ok cfg s \<Longrightarrow> set cs \<subseteq> set (sw_calls s) \<Longrightarrow> pool_ok cfg (s\<lparr>sw_calls := cs\<rparr>)"
  by (auto simp: pool_ok_def)

lemma deliver_locked_closed: "deliver_locked topic rs t = Inr (t', out) \<Longrightarrow> \<not> bt_closed t \<and> \<not> bt_closed t'"
  by (auto simp: deliver_locked_def Let_def split: if_splits prod.splits)

lemma exchange_cases:
  "exchange addr cfg s =
     (if ks_closed (sw_sender s)
      then (create_transport addr cfg s)\<lparr>sw_closing := insert (sw_created s) (sw_closing s)\<rparr>
      else (create_transport addr cfg s)\<lparr>sw_sender := (sw_sender s)\<lparr>ks_transport := sw_created s\<rparr>,
        sw_closing := insert (ks_transport (sw_sender s)) (sw_closing s)\<rparr>)"
  by (simp add: exchange_def swap_transport_def create_transport_def Let_def)

lemma pool_ok_step:
  assumes "swap_step cfg s s'" and "pool_ok cfg s"
  shows "pool_ok cfg s'"
  using assms(1)
proof cases
  case (sw_enter rs)
  then show ?thesis using assms(2) by (fastforce simp: enter_send_def pool_ok_def split: if_splits)
next
  case (sw_deliver xs i rs ys t' out)
  have i: "i < sw_created s" "rs \<noteq> []" using assms(2) sw_deliver(2) by (auto simp: pool_ok_def)
  then obtain addr where r: "reachable addr cfg (sw_pool s i)" using pool_reachable [OF assms(2)] by blast
  let ?t = "accept (ks_topic (sw_sender s)) rs t' out (sw_pool s i)"
  have "reachable addr cfg ?t" by (rule reachable.step [OF r step.deliver [OF i(2) sw_deliver(3)]])
  moreover have "\<not> bt_closed (sy_t ?t)"
    using deliver_locked_closed [OF sw_deliver(3)] by (simp add: accept_def Let_def)
  ultimately have "pool_ok cfg (set_transport i ?t s)" using pool_ok_set [OF assms(2) i(1)] by blast
  then show ?thesis unfolding sw_deliver(1)
    by (rule pool_ok_calls) (use sw_deliver(2) in auto)
next
  case (sw_refuse xs i rs ys e)
  then show ?thesis using assms(2) by (auto simp: pool_ok_def)
next
  case (sw_work i t)
  then obtain addr where "reachable addr cfg (sw_pool s i)" using pool_reachable [OF assms(2)] by blast
  then have "reachable addr cfg t" using sw_work(3) by (blast intro: reachable.step)
  then show ?thesis unfolding sw_work(1)
    by (rule pool_ok_set [OF assms(2) sw_work(2)]) (use assms(2) sw_work in \<open>auto simp: pool_ok_def\<close>)
next
  case (sw_exchange addr)
  then show ?thesis using assms(2)
    by (auto simp: exchange_cases pool_ok_def create_transport_def initial_def new_buffered_transport_def
        intro: reachable.start [unfolded initial_def new_buffered_transport_def] less_SucI)
next
  case (sw_close_transport i)
  then have i: "i < sw_created s" using assms(2) by (auto simp: pool_ok_def)
  then obtain addr where r: "reachable addr cfg (sw_pool s i)" using pool_reachable [OF assms(2)] by blast
  let ?t = "(sw_pool s i)\<lparr>sy_t := close_locked (sy_t (sw_pool s i))\<rparr>"
  have "reachable addr cfg ?t"
  proof (cases "bt_closed (sy_t (sw_pool s i))")
    case True
    then have "close_locked (sy_t (sw_pool s i)) = sy_t (sw_pool s i)" by (simp add: close_locked_def)
    then show ?thesis using r by simp
  qed (use r in \<open>blast intro: reachable.step step.close_lock\<close>)
  then show ?thesis unfolding sw_close_transport(1)
    by (rule pool_ok_set [OF assms(2) i]) (use sw_close_transport in simp)
next
  case sw_close_sender
  then show ?thesis using assms(2) by (auto simp: close_sender_def kafka_sender_close_def pool_ok_def)
qed


lemma offers_ok_step:
  assumes "swap_step cfg s s'" and "pool_ok cfg s" and "offers_ok topic s"
  shows "offers_ok topic s'"
  using assms(1)
proof cases
  case (sw_enter rs)
  then have "accepted_by s' = accepted_by s"
    by (intro accepted_by_cong) (auto simp: enter_send_def split: if_splits)
  then show ?thesis using sw_enter(2) assms(3) by (auto simp: enter_send_def offers_ok_def split: if_splits)
next
  case (sw_deliver xs i rs ys t' out)
  have i: "i < sw_created s" using assms(2) sw_deliver(2) by (auto simp: pool_ok_def)
  let ?t = "accept (ks_topic (sw_sender s)) rs t' out (sw_pool s i)"
  have "accepted_by s' = accepted_by (set_transport i ?t s)"
    unfolding sw_deliver(1) by (rule accepted_by_cong) simp_all
  then have "accepted_by s' = accepted_by s + mset (tag topic rs)"
    using accepted_by_set [OF i, of ?t] assms(3) by (simp add: accept_def Let_def offers_ok_def)
  then show ?thesis using sw_deliver assms(3) by (simp add: offers_ok_def)
next
  case (sw_refuse xs i rs ys e)
  then have "accepted_by s' = accepted_by s" by (intro accepted_by_cong) simp_all
  then show ?thesis using sw_refuse assms(3) by (simp add: offers_ok_def)
next
  case (sw_work i t)
  then show ?thesis using accepted_by_set [OF sw_work(2), of t] assms(3) by (simp add: offers_ok_def)
next
  case (sw_exchange addr)
  have "accepted_by s' = accepted_by (create_transport addr cfg s)"
    unfolding sw_exchange exchange_cases by (rule accepted_by_cong) simp_all
  moreover have "ks_topic (sw_sender s') = ks_topic (sw_sender s)" "sw_offered s' = sw_offered s"
    "sw_calls s' = sw_calls s" "sw_refused s' = sw_refused s"
    unfolding sw_exchange exchange_cases by (simp_all add: create_transport_def)
  ultimately show ?thesis using assms(3) by (simp add: offers_ok_def accepted_by_create)
next
  case (sw_close_transport i)
  then have "i < sw_created s" using assms(2) by (auto simp: pool_ok_def)
  from accepted_by_set [OF this, of "(sw_pool s i)\<lparr>sy_t := close_locked (sy_t (sw_pool s i))\<rparr>"]
  show ?thesis unfolding sw_close_transport(1) using assms(3) by (simp add: offers_ok_def)
next
  case sw_close_sender
  have "accepted_by s' = accepted_by s" unfolding sw_close_sender by (rule accepted_by_cong) (simp_all add: close_sender_def)
  then show ?thesis using sw_close_sender assms(3) by (auto simp: close_sender_def kafka_sender_close_def offers_ok_def)
qed

lemma swap_invariant: "swap_reachable addr cfg topic s \<Longrightarrow> pool_ok cfg s \<and> offers_ok topic s"
proof (induction rule: swap_reachable.induct)
  case (sw_start eqp fmt)
  have "accepted_by (swap_initial addr cfg topic eqp fmt) = {#}"
    by (simp add: accepted_by_def swap_initial_def initial_def)
  then show ?case
    using reachable.start [of addr cfg]
    by (auto simp: pool_ok_def offers_ok_def swap_initial_def new_kafka_sender_def initial_def new_buffered_transport_def)
qed (blast intro: pool_ok_step offers_ok_step)

section \<open>Properties\<close>

definition sample_swap :: swap_state where
  "sample_swap = swap_initial ''h'' sample_config ''tp'' None grok_format_raw"

text \<open>A call that is overtaken by an exchange of the transport.\<close>

definition sample_overtaken :: swap_state where
  "sample_overtaken =
     (let s1 = the (enter_send [sample_record] sample_swap); s2 = exchange ''h2'' sample_config s1 in
      set_transport 0 ((sw_pool s2 0)\<lparr>sy_t := close_locked (sy_t (sw_pool s2 0))\<rparr>) s2)"

lemma sample_overtaken_reachable: "swap_reachable ''h'' sample_config ''tp'' sample_overtaken"
proof -
  let ?s1 = "the (enter_send [sample_record] sample_swap)"
  let ?s2 = "exchange ''h2'' sample_config ?s1"
  have "swap_reachable ''h'' sample_config ''tp'' sample_swap" unfolding sample_swap_def by (rule sw_start)
  moreover have "swap_step sample_config sample_swap ?s1"
    by (rule swap_step.sw_enter [of "[sample_record]"])
      (simp_all add: enter_send_def sample_swap_def swap_initial_def new_kafka_sender_def)
  moreover have "swap_step sample_config ?s1 ?s2" by (rule swap_step.sw_exchange)
  moreover have "swap_step sample_config ?s2 sample_overtaken"
    unfolding sample_overtaken_def Let_def
    by (rule swap_step.sw_close_transport)
      (simp add: exchange_cases enter_send_def sample_swap_def swap_initial_def new_kafka_sender_def)
  ultimately show ?thesis by (blast intro: swap_reachable.sw_advance)
qed

text \<open>C6 However sends, exchanges of the transport, closing and the flush loops of all the transports ever
  made interleave: every record of a metric that \<open>Send\<close> took up is, exactly once, still in a call, refused
  with an error, or in one place of exactly one transport - dropped by its cap, buffered, in flight,
  acknowledged or given up; and a call that holds the transport in use is never refused as long as that
  transport stays in use and the sender open.\<close>

theorem exchange_loses_no_record:
  assumes "swap_reachable addr cfg topic s" and "0 \<le> bc_max_buffered_records cfg"
  shows "mset (tag topic (sw_offered s)) =
      mset (tag topic (concat (map snd (sw_calls s)))) + mset (tag topic (sw_refused s)) +
      (\<Sum>i < sw_created s. mset (sy_dropped (sw_pool s i)) + mset (tag_entries (bt_buffer (sy_t (sw_pool s i)))) +
         mset (in_flight (sy_loop (sw_pool s i))) + mset (sy_delivered (sw_pool s i)) + mset (sy_lost (sw_pool s i))) \<and>
    (\<not> ks_closed (sw_sender s) \<longrightarrow>
       \<not> isl (deliver_locked topic rs (sy_t (sw_pool s (ks_transport (sw_sender s))))))"
proof -
  have inv: "pool_ok cfg s" "offers_ok topic s" using swap_invariant [OF assms(1)] by blast+
  have "mset (sy_accepted (sw_pool s i)) =
      mset (sy_dropped (sw_pool s i)) + mset (tag_entries (bt_buffer (sy_t (sw_pool s i)))) +
         mset (in_flight (sy_loop (sw_pool s i))) + mset (sy_delivered (sw_pool s i)) + mset (sy_lost (sw_pool s i))"
    if "i < sw_created s" for i
    using inv(1) that reachable_invariants [OF _ assms(2)] unfolding pool_ok_def ledger_ok_def by blast
  then have "accepted_by s = (\<Sum>i < sw_created s. mset (sy_dropped (sw_pool s i)) +
      mset (tag_entries (bt_buffer (sy_t (sw_pool s i)))) + mset (in_flight (sy_loop (sw_pool s i))) +
      mset (sy_delivered (sw_pool s i)) + mset (sy_lost (sw_pool s i)))"
    unfolding accepted_by_def by (intro sum.cong) auto
  then show ?thesis using inv
    by (auto simp: offers_ok_def pool_ok_def deliver_locked_def Let_def split: prod.splits)
qed

theorem exchange_loses_no_record_witness:
  "sw_calls sample_overtaken = [(0, [sample_record])] \<and>
   \<not> isl (deliver_locked ''tp'' [sample_record] (sy_t (sw_pool sample_overtaken (ks_transport (sw_sender sample_overtaken)))))"
proof -
  have cap: "0 \<le> bc_max_buffered_records sample_config" by (simp add: sample_config_def)
  have state: "sw_calls sample_overtaken = [(0, [sample_record])]" "\<not> ks_closed (sw_sender sample_overtaken)"
    by (simp_all add: sample_overtaken_def exchange_cases enter_send_def sample_swap_def swap_initial_def new_kafka_sender_def
        create_transport_def Let_def)
  with exchange_loses_no_record [OF sample_overtaken_reachable cap] show ?thesis by blast
qed

text \<open>A send that is overtaken by an exchange loses its metric: the call still holds the old transport,
  which is closed by then and refuses it, although the sender is open and its new transport would accept
  the records.\<close>

theorem overtaken_send_is_refused:
  "\<exists>s s'. swap_reachable ''h'' sample_config ''tp'' s \<and> swap_step sample_config s s' \<and>
     sw_refused s' = [sample_record] \<and> \<not> ks_closed (sw_sender s') \<and>
     \<not> bt_closed (sy_t (sw_pool s' (ks_transport (sw_sender s'))))"
proof -
  let ?s = sample_overtaken
  let ?s' = "?s\<lparr>sw_calls := [], sw_refused := [sample_record]\<rparr>"
  have calls: "sw_calls ?s = [] @ (0, [sample_record]) # []" and refused: "sw_refused ?s = []"
    and closed: "bt_closed (sy_t (sw_pool ?s 0))" and open_: "\<not> ks_closed (sw_sender ?s)" "ks_transport (sw_sender ?s) = 1"
    "\<not> bt_closed (sy_t (sw_pool ?s 1))"
    by (simp_all add: sample_overtaken_def exchange_cases enter_send_def sample_swap_def swap_initial_def new_kafka_sender_def
        create_transport_def initial_def new_buffered_transport_def close_locked_def Let_def)
  have "deliver_locked (ks_topic (sw_sender ?s)) [sample_record] (sy_t (sw_pool ?s 0)) = Inl Transport_Closed"
    using closed by (simp add: deliver_locked_def)
  from swap_step.sw_refuse [OF calls this, of sample_config] refused
  have "swap_step sample_config ?s ?s'" by simp
  then show ?thesis using sample_overtaken_reachable open_ by (intro exI [of _ ?s] exI [of _ ?s']) simp
qed

end
