(* ===== verification/Refinement.thy ===== *)
theory Refinement
  imports Main
begin

text \<open>
  What it means that a step relation of the model implements an abstract machine: the contract \<open>simulation\<close>,
  which the buffered transport (theory \<open>Lossy\<close>) and the scheduler (theory \<open>Jobs\<close>) meet.
\<close>

section \<open>Simulation\<close>

text \<open>
  A step relation implements another when every step is, seen through \<open>view\<close>, a step of the other or no
  change.
\<close>

locale simulation =
  fixes begins :: "'c \<Rightarrow> bool" and cstep :: "'c \<Rightarrow> 'c \<Rightarrow> bool" and astep :: "'a \<Rightarrow> 'a \<Rightarrow> bool"
    and view :: "'c \<Rightarrow> 'a" and inv :: "'c \<Rightarrow> bool"
  assumes inv_begins: "begins c \<Longrightarrow> inv c"
    and inv_step: "inv c \<Longrightarrow> cstep c c' \<Longrightarrow> inv c'"
    and square: "inv c \<Longrightarrow> cstep c c' \<Longrightarrow> astep\<^sup>=\<^sup>= (view c) (view c')"
begin

lemma runs: "cstep\<^sup>*\<^sup>* c c' \<Longrightarrow> inv c \<Longrightarrow> inv c' \<and> astep\<^sup>*\<^sup>* (view c) (view c')"
proof (induction rule: rtranclp_induct)
  case (step c1 c2)
  then have "inv c1" "astep\<^sup>*\<^sup>* (view c) (view c1)" by blast+
  moreover have "astep\<^sup>*\<^sup>* (view c1) (view c2)" using square [OF \<open>inv c1\<close> step.hyps(2)] by auto
  ultimately show ?case using inv_step [OF _ step.hyps(2)] by (meson rtranclp_trans)
qed simp

lemma from_begin: "begins c \<Longrightarrow> cstep\<^sup>*\<^sup>* c c' \<Longrightarrow> astep\<^sup>*\<^sup>* (view c) (view c')"
  using runs inv_begins by blast

text \<open>What holds of every run of the abstract machine holds, through the view, of every run of the other.\<close>

lemma transfer_invariant:
  assumes "begins c" and "cstep\<^sup>*\<^sup>* c c'" and "P (view c)" and "\<And>a a'. P a \<Longrightarrow> astep a a' \<Longrightarrow> P a'"
  shows "P (view c')"
  using from_begin [OF assms(1,2)] assms(3,4) by (induction rule: rtranclp_induct) blast+

end

end
