(* ===== verification/Lossy.thy ===== *)
theory Lossy
  imports Buffer_Loop Refinement
begin

text \<open>
  What the buffered transport promises, as an abstract machine, and the proof that the goroutines of
  \<open>internal/sender/kafkarest.go\<close> implement it.  For one topic the machine has a queue that callers append to
  and that drops its oldest records when it has to, a batch of records on the way out, and what has
  been acknowledged.  It knows nothing of entries, other topics, batches, retries, signals and closing.
\<close>

section \<open>The abstract queue\<close>

record 'a lossy_queue =
  lq_queue :: "'a list"
  lq_leaving :: "'a list"
  lq_gone :: "'a list"

inductive lossy_step :: "'a lossy_queue \<Rightarrow> 'a lossy_queue \<Rightarrow> bool" where
  lq_put: "lossy_step q (q\<lparr>lq_queue := drop k (lq_queue q @ xs)\<rparr>)"
| lq_flush: "lq_leaving q = [] \<Longrightarrow> lossy_step q (q\<lparr>lq_queue := [], lq_leaving := lq_queue q\<rparr>)"
| lq_ack: "lq_leaving q = xs @ ys \<Longrightarrow> lossy_step q (q\<lparr>lq_leaving := ys, lq_gone := lq_gone q @ xs\<rparr>)"
| lq_fail: "lq_leaving q = xs @ ys \<Longrightarrow> lossy_step q (q\<lparr>lq_leaving := ys\<rparr>)"

definition topic_view :: "string \<Rightarrow> system \<Rightarrow> tagged lossy_queue" where
  "topic_view topic s =
     \<lparr>lq_queue = of_topic topic (tag_entries (bt_buffer (sy_t s))), lq_leaving = of_topic topic (in_flight (sy_loop s)),
      lq_gone = of_topic topic (sy_delivered s)\<rparr>"

definition topic_begins :: "batch_config \<Rightarrow> system \<Rightarrow> bool" where
  "topic_begins cfg s = (0 \<le> bc_max_buffered_records cfg \<and> (\<exists>addr. s = initial addr cfg))"

text \<open>A flush takes the queue of the topic as a whole.\<close>

lemma flush_view:
  assumes "sy_loop s = Idle" and "take_buffer t = (es, t')" and "bt_buffer t = bt_buffer (sy_t s)"
    and "mset gs = mset (group_by_topic es)"
  shows "lossy_step (topic_view topic s) (topic_view topic (start_flush gs final t' s))"
proof -
  note fields = take_buffer_fields [OF assms(2)]
  have "topic_view topic (start_flush gs final t' s) =
      (topic_view topic s)\<lparr>lq_queue := [], lq_leaving := lq_queue (topic_view topic s)\<rparr>"
    using flush_keeps_topic [OF assms(4)] fields(6,7) assms(3) by (simp add: topic_view_def)
  moreover have "lq_leaving (topic_view topic s) = []" by (simp add: topic_view_def assms(1))
  ultimately show ?thesis using lq_flush by metis
qed

text \<open>A batch that leaves is the first part of what is on the way out, or belongs to another topic.\<close>

lemma leaving_split:
  "sy_loop s = Sending ((u, b) # bs) final \<Longrightarrow>
     lq_leaving (topic_view topic s) = (if u = topic then tag u b else []) @ of_topic topic (tag_groups bs)"
  by (simp add: topic_view_def)

lemma topic_square:
  assumes "counters_ok cfg s" and "step s s'"
  shows "lossy_step\<^sup>=\<^sup>= (topic_view topic s) (topic_view topic s')"
  using assms(2)
proof cases
  case (deliver rs u t' out)
  from accept_effect [OF deliver(3) assms(1)] obtain ds where
    split: "bt_buffer (sy_t s) @ [\<lparr>be_topic = u, be_records = rs\<rparr>] = ds @ bt_buffer t'" by blast
  let ?k = "length (of_topic topic (tag_entries ds))"
  have "of_topic topic (tag_entries (bt_buffer (sy_t s))) @ of_topic topic (tag u rs)
      = of_topic topic (tag_entries ds) @ of_topic topic (tag_entries (bt_buffer t'))"
    using arg_cong [OF split, of "\<lambda>x. of_topic topic (tag_entries x)"] by simp
  then have "of_topic topic (tag_entries (bt_buffer t')) =
      drop ?k (of_topic topic (tag_entries (bt_buffer (sy_t s))) @ of_topic topic (tag u rs))"
    by (metis append_eq_conv_conj)
  then have "topic_view topic s' =
      (topic_view topic s)\<lparr>lq_queue := drop ?k (lq_queue (topic_view topic s) @ of_topic topic (tag u rs))\<rparr>"
    unfolding deliver(1) by (simp add: topic_view_def accept_def Let_def)
  then show ?thesis using lq_put by (metis sup2CI)
next
  case (timer es t' gs)
  then show ?thesis using flush_view [OF timer(2,3) refl timer(4)] by (metis sup2CI)
next
  case (signal es t' gs)
  then show ?thesis using flush_view [OF signal(2,4) _ signal(5)] by simp
next
  case (stop es t' gs)
  then show ?thesis using flush_view [OF stop(2,4) refl stop(5)] by (metis sup2CI)
next
  case (sent u b bs final posts n)
  then have "topic_view topic s' = (topic_view topic s)\<lparr>lq_leaving := of_topic topic (tag_groups bs),
      lq_gone := lq_gone (topic_view topic s) @ (if u = topic then tag u b else [])\<rparr>"
    by (simp add: topic_view_def)
  then show ?thesis using lq_ack [OF leaving_split [OF sent(2)]] by (metis sup2CI)
next
  case (given_up u b bs final posts n)
  then have "topic_view topic s' = (topic_view topic s)\<lparr>lq_leaving := of_topic topic (tag_groups bs)\<rparr>"
    by (simp add: topic_view_def)
  then show ?thesis using lq_fail [OF leaving_split [OF given_up(2)]] by (metis sup2CI)
qed (simp_all add: topic_view_def close_locked_def close_stop_def)

interpretation lossy: simulation "topic_begins cfg" step lossy_step "topic_view topic" "counters_ok cfg" for cfg topic
proof
  show "topic_begins cfg s \<Longrightarrow> counters_ok cfg s" for s by (auto simp: topic_begins_def counters_initial)
  show "counters_ok cfg s \<Longrightarrow> step s s' \<Longrightarrow> counters_ok cfg s'" for s s' by (rule counters_step)
  show "counters_ok cfg s \<Longrightarrow> step s s' \<Longrightarrow> lossy_step\<^sup>=\<^sup>= (topic_view topic s) (topic_view topic s')" for s s'
    by (rule topic_square)
qed

section \<open>Properties\<close>

text \<open>C5 The buffered transport with all its goroutines implements, for every topic, a queue that drops its
  oldest records: every step of the system is a step of that queue or leaves it as it is, and so every
  run from a new transport is a run of the queue from the empty one.\<close>

theorem transport_implements_lossy_queue:
  assumes "0 \<le> bc_max_buffered_records cfg" and "step\<^sup>*\<^sup>* (initial addr cfg) s"
  shows "lossy_step\<^sup>*\<^sup>* \<lparr>lq_queue = [], lq_leaving = [], lq_gone = []\<rparr> (topic_view topic s) \<and>
    (\<forall>s'. step s s' \<longrightarrow> lossy_step\<^sup>=\<^sup>= (topic_view topic s) (topic_view topic s'))"
proof -
  have b: "topic_begins cfg (initial addr cfg)" using assms(1) by (auto simp: topic_begins_def)
  have "topic_view topic (initial addr cfg) = \<lparr>lq_queue = [], lq_leaving = [], lq_gone = []\<rparr>"
    by (simp add: topic_view_def initial_def new_buffered_transport_def)
  moreover have "counters_ok cfg s" using lossy.runs [OF assms(2) lossy.inv_begins [OF b]] by blast
  ultimately show ?thesis using lossy.from_begin [OF b assms(2), of topic] topic_square by metis
qed

theorem transport_implements_lossy_queue_witness:
  "lossy_step\<^sup>*\<^sup>* \<lparr>lq_queue = [], lq_leaving = [], lq_gone = []\<rparr> (topic_view ''tp'' sample_filled) \<and>
   length (lq_queue (topic_view ''tp'' sample_filled)) = 2"
proof -
  obtain t' out where d: "deliver_locked ''tp'' [sample_record, sample_record] (sy_t (initial ''h'' sample_config)) = Inr (t', out)"
    by (simp add: deliver_locked_def initial_def new_buffered_transport_def Let_def split_def)
  then have "step\<^sup>*\<^sup>* (initial ''h'' sample_config) sample_filled"
    by (simp add: sample_filled_def step.deliver r_into_rtranclp)
  moreover have "0 \<le> bc_max_buffered_records sample_config" by (simp add: sample_config_def)
  ultimately show ?thesis
    using transport_implements_lossy_queue [of sample_config "''h''" sample_filled "''tp''"]
    by (simp add: topic_view_def sample_filled_buffer)
qed

end
