(* ===== verification/Connect.thy ===== *)
theory Connect
  imports Startup
begin

text \<open>
  How connections are made: \<open>internal/network/socks.go\<close> (the SOCKS dialer and the HTTP transport every client
  uses), and of \<open>internal/sender/kafka.go\<close> the SCRAM client handed to sarama and the goroutine that drains the
  producer's errors.  The SOCKS5 library, the SCRAM library and the producer are parameters.
\<close>

section \<open>Dialers\<close>

definition socks_address :: "string \<Rightarrow> int \<Rightarrow> string" where
  "socks_address host port = host @ '':'' @ itoa port"

definition new_socks5_dialer :: "(string \<Rightarrow> 'd option) \<Rightarrow> string \<Rightarrow> int \<Rightarrow> 'd option" where
  "new_socks5_dialer socks5 host port = socks5 (socks_address host port)"

text \<open>The outer option is the error, the inner one the nil function that stands for no proxy.\<close>

definition dialer_func :: "(string \<Rightarrow> 'd option) \<Rightarrow> string \<Rightarrow> int \<Rightarrow> 'd option option" where
  "dialer_func socks5 host port =
     (if host = [] then Some None else map_option Some (new_socks5_dialer socks5 host port))"

record 'd http_transport =
  ht_max_idle :: nat
  ht_max_idle_per_host :: nat
  ht_idle_timeout :: int
  ht_dial :: "'d option"

definition new_http_transport_with_dialer :: "'d option \<Rightarrow> 'd http_transport" where
  "new_http_transport_with_dialer dial =
     \<lparr>ht_max_idle = 10, ht_max_idle_per_host = 10, ht_idle_timeout = 90 * second, ht_dial = dial\<rparr>"

definition new_http_transport :: "(string \<Rightarrow> 'd option) \<Rightarrow> socks_config \<Rightarrow> 'd http_transport option" where
  "new_http_transport socks5 socks =
     (if sk_host socks \<noteq> [] \<and> sk_port socks > 0
      then map_option new_http_transport_with_dialer (dialer_func socks5 (sk_host socks) (sk_port socks))
      else Some (new_http_transport_with_dialer None))"

text \<open>The clients of both KafkaRest transports, and the constructors, which fail only with the dialer.\<close>

record 'd http_client =
  hc_transport :: "'d http_transport"
  hc_timeout :: int

definition open_http_transport ::
  "(string \<Rightarrow> 'd option) \<Rightarrow> string \<Rightarrow> socks_config \<Rightarrow> ('d http_client \<times> string) option" where
  "open_http_transport socks5 addr socks =
     map_option (\<lambda>t. (\<lparr>hc_transport = t, hc_timeout = 10 * second\<rparr>, ensure_http_scheme addr)) (new_http_transport socks5 socks)"

definition open_buffered_transport ::
  "(string \<Rightarrow> 'd option) \<Rightarrow> string \<Rightarrow> socks_config \<Rightarrow> batch_config \<Rightarrow> ('d http_client \<times> transport) option" where
  "open_buffered_transport socks5 addr socks cfg =
     map_option (\<lambda>t. (\<lparr>hc_transport = t, hc_timeout = 10 * second\<rparr>, new_buffered_transport addr cfg)) (new_http_transport socks5 socks)"

text \<open>\<open>NewClient\<close> of the service discovery.\<close>

definition new_discovery_client :: "'d option \<Rightarrow> 'd http_client" where
  "new_discovery_client dial = \<lparr>hc_transport = new_http_transport_with_dialer dial, hc_timeout = 5 * second\<rparr>"

section \<open>SCRAM\<close>

text \<open>
  \<open>XDGSCRAMClient\<close>: a hash function and, after \<open>Begin\<close>, a conversation of the library.  \<open>None\<close> as the result
  of \<open>Step\<close> or \<open>Done\<close> is the dereference of the nil conversation.
\<close>

datatype scram_hash = Sha256 | Sha512

record 'c scram_client =
  sc_hash :: scram_hash
  sc_conversation :: "'c option"

definition scram_generator :: "sasl_mechanism \<Rightarrow> 'c scram_client option" where
  "scram_generator m =
     (case m of
        Scram_Sha_256 \<Rightarrow> Some \<lparr>sc_hash = Sha256, sc_conversation = None\<rparr>
      | Scram_Sha_512 \<Rightarrow> Some \<lparr>sc_hash = Sha512, sc_conversation = None\<rparr>
      | Sasl_Plain \<Rightarrow> None)"

definition scram_begin ::
  "(scram_hash \<Rightarrow> string \<Rightarrow> string \<Rightarrow> string \<Rightarrow> 'c option) \<Rightarrow> string \<Rightarrow> string \<Rightarrow> string \<Rightarrow> 'c scram_client \<Rightarrow>
     'c scram_client \<times> bool" where
  "scram_begin new_conversation user password authz x =
     (case new_conversation (sc_hash x) user password authz of
        None \<Rightarrow> (x, False)
      | Some c \<Rightarrow> (x\<lparr>sc_conversation := Some c\<rparr>, True))"

definition scram_step ::
  "('c \<Rightarrow> string \<Rightarrow> 'c \<times> string option) \<Rightarrow> string \<Rightarrow> 'c scram_client \<Rightarrow> ('c scram_client \<times> string option) option" where
  "scram_step conv_step challenge x =
     (case sc_conversation x of
        None \<Rightarrow> None
      | Some c \<Rightarrow> (let (c', r) = conv_step c challenge in Some (x\<lparr>sc_conversation := Some c'\<rparr>, r)))"

definition scram_done :: "('c \<Rightarrow> bool) \<Rightarrow> 'c scram_client \<Rightarrow> bool option" where
  "scram_done conv_done x = map_option conv_done (sc_conversation x)"

section \<open>Redis settings\<close>

text \<open>\<open>createRedisClient\<close> of the heartbeat, the equipment lookup and the time difference: each has its fixed
  database, and none can fail.\<close>

record 'd redis_options =
  ro_addr :: string
  ro_password :: string
  ro_db :: int
  ro_dial :: "'d option"

definition heartbeat_redis_client :: "string \<Rightarrow> redis_config \<Rightarrow> 'd option \<Rightarrow> 'd redis_options" where
  "heartbeat_redis_client addr cfg dial =
     \<lparr>ro_addr = addr, ro_password = resolve_password cfg, ro_db = 0, ro_dial = dial\<rparr>"

definition eqp_redis_client :: "string \<Rightarrow> redis_config \<Rightarrow> 'd option \<Rightarrow> 'd redis_options" where
  "eqp_redis_client addr cfg dial =
     \<lparr>ro_addr = addr, ro_password = resolve_password cfg, ro_db = 10, ro_dial = dial\<rparr>"

definition time_diff_redis_client :: "string \<Rightarrow> redis_config \<Rightarrow> 'd option \<Rightarrow> 'd redis_options" where
  "time_diff_redis_client addr cfg dial =
     \<lparr>ro_addr = addr, ro_password = resolve_password cfg, ro_db = 10, ro_dial = dial\<rparr>"

section \<open>Errors of the producer\<close>

text \<open>\<open>handleErrors\<close>: every error until the channel is closed becomes a line of the log; nothing is sent again.\<close>

definition handle_errors :: "('e \<times> string \<times> string) list \<Rightarrow> ('e \<times> string \<times> string) list \<Rightarrow> ('e \<times> string \<times> string) list" where
  "handle_errors errs logged_lines = foldl (\<lambda>ls (e, topic, key). ls @ [(e, topic, key)]) logged_lines errs"

section \<open>Facts\<close>

lemma new_http_transport_dials:
  "new_http_transport socks5 socks = Some t \<Longrightarrow> ht_dial t \<noteq> None \<longleftrightarrow> sk_host socks \<noteq> [] \<and> sk_port socks > 0"
  by (auto simp: new_http_transport_def new_http_transport_with_dialer_def dialer_func_def split: if_splits)

lemma new_http_transport_address:
  "new_http_transport socks5 socks = Some t \<Longrightarrow> sk_host socks \<noteq> [] \<Longrightarrow> sk_port socks > 0 \<Longrightarrow>
     ht_dial t = socks5 (sk_host socks @ '':'' @ itoa (sk_port socks))"
  by (auto simp: new_http_transport_def new_http_transport_with_dialer_def dialer_func_def new_socks5_dialer_def socks_address_def)

lemma sarama_settings_proxy:
  "sarama_settings tls_ok socks_ok cfg batch socks = Inr settings \<Longrightarrow>
     sa_proxy settings = (if sk_host socks \<noteq> [] \<and> sk_port socks > 0 then Some (sk_host socks, sk_port socks) else None)"
  by (auto simp: sarama_settings_def split: if_splits)

text \<open>A buffered transport starts in the initial state of its system, or not at all.\<close>

lemma open_buffered_transport_cases:
  "open_buffered_transport socks5 addr socks cfg = Some (c, t) \<Longrightarrow> t = sy_t (initial addr cfg) \<and> hc_timeout c = 10 * second"
  "open_buffered_transport socks5 addr socks cfg = None \<longleftrightarrow>
     sk_host socks \<noteq> [] \<and> sk_port socks > 0 \<and> socks5 (socks_address (sk_host socks) (sk_port socks)) = None"
  by (auto simp: open_buffered_transport_def new_http_transport_def dialer_func_def new_socks5_dialer_def initial_def)

text \<open>Once a conversation has begun, no call on the client meets the nil one.\<close>

lemma scram_step_keeps_conversation:
  assumes "sc_conversation x \<noteq> None"
  shows "\<exists>x' r. scram_step conv_step challenge x = Some (x', r) \<and> sc_conversation x' \<noteq> None \<and> sc_hash x' = sc_hash x \<and>
    scram_done conv_done x' \<noteq> None"
proof -
  obtain c where "sc_conversation x = Some c" using assms by blast
  then show ?thesis by (cases "conv_step c challenge") (simp add: scram_step_def scram_done_def)
qed

lemma scram_begin_has_conversation:
  "scram_begin new_conversation user password authz x = (x', True) \<Longrightarrow> sc_conversation x' \<noteq> None \<and> sc_hash x' = sc_hash x"
  by (auto simp: scram_begin_def split: option.splits)

lemma handle_errors_eq: "handle_errors errs ls = ls @ errs"
  by (induction errs arbitrary: ls) (auto simp: handle_errors_def split: prod.splits)

lemma setup_proxied:
  assumes "setup_infrastructure w agent_id cfg = Inr (cfg', infra)" and "to_lower (cfg_sender_type cfg) \<noteq> ''file''"
  shows "ir_proxied infra = (sk_host (cfg_socks cfg) \<noteq> [] \<and> sk_port (cfg_socks cfg) > 0)" (is ?p)
    and "cfg_socks cfg' = cfg_socks cfg" (is ?s)
proof -
  let ?vip = "trim_space (hd (split_on CHR '','' (cfg_virtual_address_list cfg)))"
  have "\<exists>ra. located w ?vip ra (cfg, \<lparr>ir_agent_id = agent_id, ir_syncer = None, ir_virtual_ip = ?vip,
      ir_proxied = (sk_host (cfg_socks cfg) \<noteq> [] \<and> sk_port (cfg_socks cfg) > 0), ir_client = True\<rparr>) (cfg', infra)"
    using assms
    by (auto simp: setup_infrastructure_def setup_with_proxy_def setup_without_proxy_def bind_result_eq_Inr map_sum_eq_Inr Let_def
        dest!: locate_equipment_success split: if_splits)
  then show ?p ?s by (auto simp: located_def)
qed

section \<open>Properties\<close>

text \<open>All connections agree on the proxy: for a validated configuration whose start succeeds, the discovery
  and Redis connections, the HTTP transport and sarama go through the SOCKS proxy exactly when a host is
  configured, and then all through the same one; without one none does.\<close>

theorem proxy_used_everywhere_or_nowhere:
  assumes "validate_config compiles cfg = []" and "to_lower (cfg_sender_type cfg) \<noteq> ''file''"
    and "setup_infrastructure w agent_id cfg = Inr (cfg', infra)"
    and "new_http_transport socks5 (cfg_socks cfg') = Some t"
    and "sarama_settings tls_ok socks_ok (cfg_kafka cfg') (cfg_batch cfg') (cfg_socks cfg') = Inr settings"
  shows "ir_proxied infra = (sk_host (cfg_socks cfg) \<noteq> []) \<and> (ht_dial t \<noteq> None) = (sk_host (cfg_socks cfg) \<noteq> []) \<and>
    sa_proxy settings = (if sk_host (cfg_socks cfg) \<noteq> [] then Some (sk_host (cfg_socks cfg), sk_port (cfg_socks cfg)) else None) \<and>
    (sk_host (cfg_socks cfg) \<noteq> [] \<longrightarrow> ht_dial t = socks5 (sk_host (cfg_socks cfg) @ '':'' @ itoa (sk_port (cfg_socks cfg))))"
proof -
  have infra: "ir_proxied infra = (sk_host (cfg_socks cfg) \<noteq> [] \<and> sk_port (cfg_socks cfg) > 0)" "cfg_socks cfg' = cfg_socks cfg"
    using setup_proxied [OF assms(3,2)] by blast+
  have together: "sk_host (cfg_socks cfg) \<noteq> [] \<longleftrightarrow> 0 < sk_port (cfg_socks cfg)"
    using assms(1) by (simp add: validate_config_iff config_ok_def)
  show ?thesis
    using infra together new_http_transport_dials [OF assms(4)] new_http_transport_address [OF assms(4)]
      sarama_settings_proxy [OF assms(5)] by auto
qed

text \<open>The sample started without a proxy, and the settings of a validated configuration.\<close>

theorem proxy_used_everywhere_or_nowhere_witness:
  "\<exists>t settings. new_http_transport Some (cfg_socks (fst sample_started)) = Some t \<and> ht_dial t = None \<and>
     sarama_settings True (\<lambda>h p. True) (cfg_kafka (fst sample_started)) (cfg_batch (fst sample_started))
       (cfg_socks (fst sample_started)) = Inr settings \<and> sa_proxy settings = None \<and> \<not> ir_proxied (snd sample_started)"
proof -
  have valid: "validate_config (\<lambda>p. True) sample_start = []"
  proof -
    have "to_lower ''kafkarest'' = ''kafkarest''" "to_lower ''snappy'' = ''snappy''" by code_simp+
    then show ?thesis by (simp add: validate_config_iff config_ok_def default_config_def sample_start_def port_ok_def)
  qed
  have sends: "to_lower (cfg_sender_type sample_start) \<noteq> ''file''" by code_simp
  have setup_ok: "setup_infrastructure sample_surroundings ''host'' sample_start = Inr (fst sample_started, snd sample_started)"
    by (simp add: sample_setup)
  have none: "sk_host (cfg_socks sample_start) = []" "cfg_socks (fst sample_started) = cfg_socks sample_start"
    by (simp_all add: sample_start_def sample_started_def default_config_def)
  obtain t where t: "new_http_transport Some (cfg_socks (fst sample_started)) = Some t"
    by (simp add: none new_http_transport_def)
  obtain settings where settings: "sarama_settings True (\<lambda>h p. True) (cfg_kafka (fst sample_started))
      (cfg_batch (fst sample_started)) (cfg_socks (fst sample_started)) = Inr settings"
    by (simp add: none sarama_settings_def)
  show ?thesis
    using proxy_used_everywhere_or_nowhere [OF valid sends setup_ok t settings] t settings none by auto
qed

text \<open>A validated configuration that asks for no compression is sent compressed: validation admits "none", and
  the switch in \<open>NewSaramaTransport\<close> has no such case and falls to Snappy.\<close>

theorem no_compression_is_snappy:
  "\<exists>cfg. validate_config compiles cfg = [] \<and> kc_compression (cfg_kafka cfg) = ''none'' \<and>
     (\<forall>tls_ok socks_ok settings. sarama_settings tls_ok socks_ok (cfg_kafka cfg) (cfg_batch cfg) (cfg_socks cfg) = Inr settings
        \<longrightarrow> sa_compression settings = Snappy)"
proof -
  let ?cfg = "sample_start\<lparr>cfg_kafka := (cfg_kafka sample_start)\<lparr>kc_compression := ''none''\<rparr>\<rparr>"
  have texts: "to_lower ''kafkarest'' = ''kafkarest''" "to_lower ''none'' = ''none''" by code_simp+
  have "validate_config compiles ?cfg = []"
    by (simp add: texts validate_config_iff config_ok_def default_config_def sample_start_def port_ok_def)
  moreover have "sarama_compression ''none'' = Snappy" by (simp add: sarama_compression_def texts)
  ultimately show ?thesis by (intro exI [of _ ?cfg]) (auto simp: sarama_settings_def split: if_splits)
qed

end
