(* ===== verification/Readings.thy ===== *)
theory Readings
  imports Ears Sensors
begin

text \<open>
  From the sensor helper to the rows: what the collectors of \<open>internal/collector/*_windows.go\<close> copy out of the
  helper's data, seen after the conversion of \<open>internal/sender/grokformat.go\<close>.
\<close>

section \<open>Facts\<close>

definition helper_list :: "(lhm_data \<Rightarrow> 'a list) \<Rightarrow> lhm_data option \<Rightarrow> 'a list" where
  "helper_list f data = (case data of None \<Rightarrow> [] | Some d \<Rightarrow> f d)"

definition wanted_by :: "collector_config \<Rightarrow> string \<Rightarrow> bool" where
  "wanted_by cc name = (cc_include_zones cc = [] \<or> (\<exists>n \<in> set (cc_include_zones cc). sanitize_name n = sanitize_name name))"

lemma wanted_by_skip:
  "(\<not> (cc_include_zones cc \<noteq> [] \<and> \<not> sanitized_member (cc_include_zones cc) name)) = wanted_by cc name"
  by (auto simp: wanted_by_def sanitized_member_def list_ex_iff)

lemma copied_readings:
  "readings (map_option (\<lambda>d. copy_wanted skip g (f d)) data) = map g (filter (\<lambda>s. \<not> skip s) (helper_list f data))"
  by (cases data) (simp_all add: readings_def helper_list_def copy_wanted_eq)

section \<open>One collection on Windows\<close>

text \<open>A configured collector, the copy of the helper's data and the rows made of the metric.\<close>

definition temperature_rows :: "json_decoders \<Rightarrow> lhm_data option \<Rightarrow> collector_config \<Rightarrow> gotime \<Rightarrow> ears_row list" where
  "temperature_rows jd data cc now =
     (let c = configure_temperature cc new_temperature_collector in
      convert_to_ears_rows jd (collect_temperature (collect_temperature_windows data c) now c))"

definition fan_rows :: "json_decoders \<Rightarrow> lhm_data option \<Rightarrow> collector_config \<Rightarrow> gotime \<Rightarrow> ears_row list" where
  "fan_rows jd data cc now =
     (let c = configure_fan cc new_fan_collector in
      convert_to_ears_rows jd (collect_fan (collect_fan_windows data c) now c))"

definition voltage_rows :: "json_decoders \<Rightarrow> lhm_data option \<Rightarrow> collector_config \<Rightarrow> gotime \<Rightarrow> ears_row list" where
  "voltage_rows jd data cc now =
     (let c = configure_voltage cc new_voltage_collector in
      convert_to_ears_rows jd (collect_voltage (collect_voltage_windows data c) now c))"

definition motherboard_temp_rows :: "json_decoders \<Rightarrow> lhm_data option \<Rightarrow> collector_config \<Rightarrow> gotime \<Rightarrow> ears_row list" where
  "motherboard_temp_rows jd data cc now =
     (let c = configure_motherboard_temp cc new_motherboard_temp_collector in
      convert_to_ears_rows jd (collect_motherboard_temp (collect_motherboard_temp_windows data c) now c))"

definition gpu_rows :: "json_decoders \<Rightarrow> lhm_data option \<Rightarrow> collector_config \<Rightarrow> gotime \<Rightarrow> ears_row list" where
  "gpu_rows jd data cc now =
     (let c = configure_gpu cc new_gpu_collector in
      convert_to_ears_rows jd (collect_gpu (collect_gpu_windows data c) now c))"

lemmas sensor_defs =
  temperature_rows_def fan_rows_def gpu_rows_def voltage_rows_def motherboard_temp_rows_def
  configure_temperature_def configure_fan_def configure_gpu_def configure_voltage_def configure_motherboard_temp_def
  new_temperature_collector_def new_fan_collector_def new_gpu_collector_def new_voltage_collector_def
  new_motherboard_temp_collector_def new_filtered_def
  collect_temperature_def collect_fan_def collect_gpu_def collect_voltage_def collect_motherboard_temp_def
  collect_temperature_windows_def collect_fan_windows_def collect_gpu_windows_def collect_voltage_windows_def
  collect_motherboard_temp_windows_def temperature_should_include_def fan_should_include_def gpu_should_include_def
  voltage_should_include_def motherboard_temp_should_include_def make_metric_def convert_to_ears_rows_def rows_of_def
  unmarshal_data_def

lemma temperature_rows_eq:
  "temperature_rows jd data cc now = map (\<lambda>s. system_row now ''temperature'' (ln_name s) (ln_temperature s))
     (filter (\<lambda>s. wanted_by cc (ln_name s)) (helper_list lhm_sensors data))"
  by (simp add: sensor_defs convert_temperature_def copied_readings wanted_by_skip o_def del: not_not imp_conjL de_Morgan_conj)

lemma fan_rows_eq:
  "fan_rows jd data cc now = map (\<lambda>s. system_row now ''fan'' (lf_name s) (lf_rpm s))
     (filter (\<lambda>s. wanted_by cc (lf_name s)) (helper_list lhm_fans data))"
  by (simp add: sensor_defs convert_fan_def copied_readings wanted_by_skip o_def del: not_not imp_conjL de_Morgan_conj)

lemma voltage_rows_eq:
  "voltage_rows jd data cc now = map (\<lambda>s. system_row now ''voltage'' (lv_name s) (lv_voltage s))
     (filter (\<lambda>s. wanted_by cc (lv_name s)) (helper_list lhm_voltages data))"
  by (simp add: sensor_defs convert_voltage_def copied_readings wanted_by_skip o_def del: not_not imp_conjL de_Morgan_conj)

lemma motherboard_temp_rows_eq:
  "motherboard_temp_rows jd data cc now = map (\<lambda>s. system_row now ''motherboard_temp'' (lm_name s) (lm_temperature s))
     (filter (\<lambda>s. wanted_by cc (lm_name s)) (helper_list lhm_motherboard_temps data))"
  by (simp add: sensor_defs convert_motherboard_temp_def copied_readings wanted_by_skip o_def
      del: not_not imp_conjL de_Morgan_conj)

text \<open>The values of a GPU with the names they are sent under.\<close>

definition named_value :: "string \<Rightarrow> f64 option \<Rightarrow> (string \<times> f64) list" where
  "named_value name v = (case v of None \<Rightarrow> [] | Some x \<Rightarrow> [(name, x)])"

definition gpu_values :: "lhm_gpu \<Rightarrow> (string \<times> f64) list" where
  "gpu_values g =
     concat (map (\<lambda>(name, v). named_value (lg_name g @ name) v)
       [(''_temperature'', lg_temperature g), (''_core_load'', lg_core_load g), (''_memory_load'', lg_memory_load g),
        (''_fan_speed'', lg_fan_speed g), (''_power'', lg_power g), (''_core_clock'', lg_core_clock g),
        (''_memory_clock'', lg_memory_clock g)])"

lemma opt_row_eq:
  "opt_row now cat name v = map (\<lambda>(k, x). system_row now cat k x) (named_value name v)"
  by (simp add: opt_row_def named_value_def split: option.split)

lemma gpu_rows_eq:
  "gpu_rows jd data cc now = map (\<lambda>(k, x). system_row now ''gpu'' k x)
     (concat (map gpu_values (filter (\<lambda>g. wanted_by cc (lg_name g)) (helper_list lhm_gpus data))))"
  by (simp add: sensor_defs convert_gpu_def copied_readings wanted_by_skip o_def opt_row_eq gpu_values_def map_concat
      del: not_not imp_conjL de_Morgan_conj)

section \<open>Properties\<close>

text \<open>C32 What the helper measured is what is sent: for every configuration of the temperature, fan, voltage,
  motherboard and GPU collectors on Windows, the rows of a collection are, in the helper's order, one row with
  the name and value of each sensor that the configuration names (any spelling with the same safe name), or of
  all when it names none - for a GPU one row for each value it has; and no rows when the helper fails.\<close>

theorem helper_readings_become_rows:
  "temperature_rows jd data cc now = map (\<lambda>s. system_row now ''temperature'' (ln_name s) (ln_temperature s))
       (filter (\<lambda>s. wanted_by cc (ln_name s)) (helper_list lhm_sensors data)) \<and>
   fan_rows jd data cc now = map (\<lambda>s. system_row now ''fan'' (lf_name s) (lf_rpm s))
       (filter (\<lambda>s. wanted_by cc (lf_name s)) (helper_list lhm_fans data)) \<and>
   voltage_rows jd data cc now = map (\<lambda>s. system_row now ''voltage'' (lv_name s) (lv_voltage s))
       (filter (\<lambda>s. wanted_by cc (lv_name s)) (helper_list lhm_voltages data)) \<and>
   motherboard_temp_rows jd data cc now = map (\<lambda>s. system_row now ''motherboard_temp'' (lm_name s) (lm_temperature s))
       (filter (\<lambda>s. wanted_by cc (lm_name s)) (helper_list lhm_motherboard_temps data)) \<and>
   gpu_rows jd data cc now = map (\<lambda>(k, x). system_row now ''gpu'' k x)
       (concat (map gpu_values (filter (\<lambda>g. wanted_by cc (lg_name g)) (helper_list lhm_gpus data)))) \<and>
   temperature_rows jd None cc now @ fan_rows jd None cc now @ voltage_rows jd None cc now @
       motherboard_temp_rows jd None cc now @ gpu_rows jd None cc now = []"
  by (simp add: temperature_rows_eq fan_rows_eq voltage_rows_eq motherboard_temp_rows_eq gpu_rows_eq helper_list_def)

end
