(* ===== verification/Jobs.thy ===== *)
theory Jobs
  imports Scheduler Refinement
begin

text \<open>
  What the scheduler promises, as an abstract machine: a table of periodic jobs, and the proof that the
  critical sections and goroutines of \<open>internal/scheduler/scheduler.go\<close> implement it.  The table knows nothing of
  mutexes, contexts, wait groups and of the phases in which a call waits.
\<close>

section \<open>The table of jobs\<close>

text \<open>
  A job has a period and is busy or not; \<open>jb_done\<close> says that the jobs have been told to end and \<open>jb_over\<close> that
  there will be none any more.  A new set of jobs can only be installed as a whole, in place of none.
\<close>

record job_table =
  jb_jobs :: "string \<rightharpoonup> int \<times> bool"
  jb_done :: bool
  jb_over :: bool

definition busy_jobs :: "(string \<times> int) list \<Rightarrow> string \<rightharpoonup> int \<times> bool" where
  "busy_jobs cs = map_of (map (\<lambda>c. (fst c, (snd c, True))) cs)"

inductive job_step :: "job_table \<Rightarrow> job_table \<Rightarrow> bool" where
  jb_add: "\<not> jb_over t \<Longrightarrow> jb_jobs t n = None \<Longrightarrow> 0 < i \<Longrightarrow> job_step t (t\<lparr>jb_jobs := (jb_jobs t)(n \<mapsto> (i, True))\<rparr>)"
| jb_finish: "jb_jobs t n = Some (i, True) \<Longrightarrow> job_step t (t\<lparr>jb_jobs := (jb_jobs t)(n \<mapsto> (i, False))\<rparr>)"
| jb_begin: "jb_jobs t n = Some (i, False) \<Longrightarrow> job_step t (t\<lparr>jb_jobs := (jb_jobs t)(n \<mapsto> (i, True))\<rparr>)"
| jb_retire: "jb_done t \<Longrightarrow> jb_jobs t n = Some (i, False) \<Longrightarrow> job_step t (t\<lparr>jb_jobs := (jb_jobs t)(n := None)\<rparr>)"
| jb_install: "jb_done t \<Longrightarrow> \<not> jb_over t \<Longrightarrow> jb_jobs t = Map.empty \<Longrightarrow> enabled_ok cs \<Longrightarrow>
    job_step t (t\<lparr>jb_jobs := busy_jobs cs, jb_done := d\<rparr>)"
| jb_tell: "job_step t (t\<lparr>jb_done := True\<rparr>)"
| jb_stop: "jb_done t \<Longrightarrow> jb_jobs t = Map.empty \<Longrightarrow> job_step t (t\<lparr>jb_over := True\<rparr>)"

definition jobs_of :: "routine list \<Rightarrow> string \<rightharpoonup> int \<times> bool" where
  "jobs_of rs = map_of (map (\<lambda>r. (gr_name r, (gr_interval r, gr_phase r = Collecting))) rs)"

definition job_view :: "scheduler \<Rightarrow> job_table" where
  "job_view s =
     \<lparr>jb_jobs = jobs_of (sd_routines s), jb_done = (sd_current s \<in> sd_cancelled s), jb_over = sd_stopped s\<rparr>"

section \<open>The refinement\<close>

lemma jobs_of_notin: "n \<notin> gr_name ` set rs \<Longrightarrow> jobs_of rs n = None"
  by (induction rs) (auto simp: jobs_of_def)

lemma jobs_of_snoc: "gr_name r \<notin> gr_name ` set rs \<Longrightarrow>
    jobs_of (rs @ [r]) = (jobs_of rs)(gr_name r \<mapsto> (gr_interval r, gr_phase r = Collecting))"
  by (induction rs) (auto simp: jobs_of_def)

lemma jobs_of_middle:
  "gr_name r \<notin> gr_name ` set (xs @ ys) \<Longrightarrow>
     jobs_of (xs @ r # ys) = (jobs_of (xs @ ys))(gr_name r \<mapsto> (gr_interval r, gr_phase r = Collecting))"
  by (induction xs) (auto simp: jobs_of_def)

text \<open>The three steps of a goroutine on the table.\<close>

lemma jobs_of_lookup:
  assumes "distinct (map gr_name (xs @ r # ys))"
  shows "jobs_of (xs @ r # ys) (gr_name r) = Some (gr_interval r, gr_phase r = Collecting)"
    and "jobs_of (xs @ r\<lparr>gr_phase := p\<rparr> # ys) = (jobs_of (xs @ r # ys))(gr_name r \<mapsto> (gr_interval r, p = Collecting))"
    and "jobs_of (xs @ ys) = (jobs_of (xs @ r # ys))(gr_name r := None)"
proof -
  have r: "gr_name r \<notin> gr_name ` set (xs @ ys)" using assms by auto
  then show "jobs_of (xs @ r # ys) (gr_name r) = Some (gr_interval r, gr_phase r = Collecting)" by (simp add: jobs_of_middle)
  show "jobs_of (xs @ r\<lparr>gr_phase := p\<rparr> # ys) = (jobs_of (xs @ r # ys))(gr_name r \<mapsto> (gr_interval r, p = Collecting))"
    using r by (simp add: jobs_of_middle)
  show "jobs_of (xs @ ys) = (jobs_of (xs @ r # ys))(gr_name r := None)"
    using jobs_of_notin [OF r] r by (simp add: jobs_of_middle fun_upd_idem)
qed

lemma jobs_of_new: "jobs_of (map (new_routine g) cs) = busy_jobs cs"
  by (simp add: jobs_of_def busy_jobs_def comp_def)

text \<open>Besides its invariant, the scheduler has generation 0 until it is started.\<close>

definition job_inv :: "scheduler \<Rightarrow> bool" where
  "job_inv s = (sched_ok s \<and> (sd_next s = 0 \<longrightarrow> sd_current s = 0))"

definition allowed_step :: "scheduler \<Rightarrow> scheduler \<Rightarrow> bool" where
  "allowed_step s s' = (\<exists>a. call_allowed a s \<and> sched_step a s s')"

definition scheduler_begins :: "scheduler \<Rightarrow> bool" where
  "scheduler_begins s = (\<exists>enabled. enabled_ok enabled \<and> s = new_scheduler enabled)"

lemma current_after_step: "sched_step a s s' \<Longrightarrow> sd_next s = 0 \<longrightarrow> sd_current s = 0 \<Longrightarrow> sd_next s' = 0 \<longrightarrow> sd_current s' = 0"
  by (induction rule: sched_step.induct)
    (auto simp: start_locked_def start_one_def stop_locked_def reconfigure_locked_def restart_locked_def)

lemma routine_names:
  "sched_ok s \<Longrightarrow> sd_routines s = xs @ r # ys \<Longrightarrow> distinct (map gr_name (xs @ r # ys))"
  by (cases rule: starting_cases [of s]) (auto simp: sched_ok_def)

lemma job_square:
  assumes "job_inv s" and "sched_step a s s'" and "call_allowed a s"
  shows "job_step\<^sup>=\<^sup>= (job_view s) (job_view s')"
proof -
  have ok: "sched_ok s" "routines_ok s" "phases_ok s" "enabled_ok (sd_enabled s)" and first: "sd_next s = 0 \<longrightarrow> sd_current s = 0"
    using assms(1) by (auto simp: job_inv_def sched_ok_def)
  have tell: "job_step\<^sup>=\<^sup>= (job_view s) u" if "u = (job_view s)\<lparr>jb_done := True\<rparr> \<or> u = job_view s" for u
    using that jb_tell [of "job_view s"] by auto
  from assms(2) show ?thesis
  proof (cases rule: sched_step.cases)
    case start
    then have "sd_next s = 0" using assms(3) by (simp add: call_allowed_def)
    then show ?thesis unfolding start(2) using first ok(3)
      by (intro tell) (auto simp: job_view_def start_locked_def phases_ok_def)
  next
    case (start_next xs g c cs ys)
    have "sd_starting s \<noteq> []" using start_next(3) by simp
    with ok(2) obtain cs' where st: "sd_starting s = [(sd_current s, cs')]" "distinct (map gr_name (sd_routines s) @ map fst cs')"
      "sd_running s"
      by (cases rule: starting_cases) auto
    moreover have "xs @ (g, c # cs) # ys = [(sd_current s, cs')]" using trans [OF start_next(3) [symmetric] st(1)] .
    then have "cs' = c # cs" "g = sd_current s" by (cases xs; simp)+
    moreover have "\<not> sd_stopped s" using ok(3) st(3) by (auto simp: phases_ok_def)
    moreover have "0 < snd c" using ok(2) st(1) \<open>cs' = c # cs\<close> by (simp add: routines_ok_def)
    moreover from calculation have "jobs_of (sd_routines s) (fst c) = None" by (intro jobs_of_notin) auto
    moreover from calculation have
      "job_view s' = (job_view s)\<lparr>jb_jobs := (jb_jobs (job_view s))(fst c \<mapsto> (snd c, True))\<rparr>"
      unfolding start_next(2) by (simp add: job_view_def start_one_def jobs_of_snoc)
    ultimately show ?thesis using jb_add [of "job_view s" "fst c" "snd c"] by (simp add: job_view_def)
  next
    case (start_done xs g ys)
    then show ?thesis by (simp add: job_view_def)
  next
    case stop
    then show ?thesis by (intro tell) (auto simp: job_view_def stop_locked_def)
  next
    case stop_joined
    then have "sd_current s \<in> sd_cancelled s" using ok(3) by (cases "sd_next s = 0") (auto simp: phases_ok_def)
    then have "jb_done (job_view s)" "jb_jobs (job_view s) = Map.empty"
      using stop_joined(4) by (simp_all add: job_view_def jobs_of_def)
    from jb_stop [OF this] show ?thesis unfolding stop_joined(2) by (simp add: job_view_def)
  next
    case reconfigure
    then show ?thesis by (intro tell) (auto simp: job_view_def reconfigure_locked_def)
  next
    case reconf_joined
    then show ?thesis by (simp add: job_view_def)
  next
    case restart
    show ?thesis
    proof (cases "sd_running s")
      case True
      have idle: "sd_routines s = []" "sd_current s \<in> sd_cancelled s" using ok(3) restart(3) by (auto simp: phases_ok_def)
      have "\<not> sd_stopped s" using ok(3) True by (auto simp: phases_ok_def)
      then have "job_step (job_view s) ((job_view s)\<lparr>jb_jobs := busy_jobs (sd_enabled s),
          jb_done := (sd_next s \<in> derived_context s)\<rparr>)"
        using idle ok(4) by (intro jb_install) (simp_all add: job_view_def jobs_of_def)
      then show ?thesis unfolding restart(2) using True idle(1) by (simp add: job_view_def restart_locked_def jobs_of_new)
    qed (simp add: restart(2) restart_locked_def job_view_def)
  next
    case (collected xs r ys)
    note names = jobs_of_lookup [OF routine_names [OF ok(1) collected(3)]]
    then show ?thesis using jb_finish [of "job_view s" "gr_name r" "gr_interval r"] collected
      by (simp add: job_view_def)
  next
    case (tick xs r ys)
    note names = jobs_of_lookup [OF routine_names [OF ok(1) tick(3)]]
    then show ?thesis using jb_begin [of "job_view s" "gr_name r" "gr_interval r"] tick
      by (simp add: job_view_def)
  next
    case (leave xs r ys)
    note names = jobs_of_lookup [OF routine_names [OF ok(1) leave(3)]]
    have "gr_context r = sd_current s" using ok(2) leave(3) by (simp add: routines_ok_def)
    then show ?thesis using jb_retire [of "job_view s" "gr_name r" "gr_interval r"] leave names
      by (simp add: job_view_def)
  next
    case shutdown
    then show ?thesis by (intro tell) (auto simp: job_view_def)
  next
    case (configured enabled)
    then show ?thesis by (simp add: job_view_def)
  qed
qed

interpretation jobs: simulation scheduler_begins allowed_step job_step job_view job_inv
proof
  show "scheduler_begins s \<Longrightarrow> job_inv s" for s
    by (auto simp: scheduler_begins_def job_inv_def sched_ok_init) (simp add: new_scheduler_def)
  show "job_inv s \<Longrightarrow> allowed_step s s' \<Longrightarrow> job_inv s'" for s s'
    by (auto simp: job_inv_def allowed_step_def dest: sched_ok_step current_after_step)
  show "job_inv s \<Longrightarrow> allowed_step s s' \<Longrightarrow> job_step\<^sup>=\<^sup>= (job_view s) (job_view s')" for s s'
    unfolding allowed_step_def using job_square by blast
qed

text \<open>An invariant of the table, proved on the table.\<close>

definition table_ok :: "job_table \<Rightarrow> bool" where
  "table_ok t = ((jb_over t \<longrightarrow> jb_jobs t = Map.empty) \<and> (\<forall>n i b. jb_jobs t n = Some (i, b) \<longrightarrow> 0 < i))"

lemma table_ok_step: "table_ok t \<Longrightarrow> job_step t t' \<Longrightarrow> table_ok t'"
  by (cases t t' rule: job_step.cases)
    (auto simp: table_ok_def busy_jobs_def enabled_ok_def dest!: map_of_SomeD split: if_splits)

section \<open>Properties\<close>

text \<open>C13 The scheduler, with all its goroutines, waits and calls, implements a table of periodic jobs: every step
  it takes is, seen as a table, a step of that machine or no change, so that every run from a new
  scheduler is a run of the table from the empty one - each collector is one job that is busy or not, a
  job ends only after it was told to and never in the middle of a collection, a new set of jobs replaces
  the old one only when none is left, and when the scheduler is over there are none.\<close>

theorem scheduler_implements_job_table:
  assumes "distinct (map fst enabled)" and "\<forall>c \<in> set enabled. 0 < snd c" and "allowed_step\<^sup>*\<^sup>* (new_scheduler enabled) s"
  shows "job_step\<^sup>*\<^sup>* \<lparr>jb_jobs = Map.empty, jb_done = False, jb_over = False\<rparr> (job_view s) \<and>
    (\<forall>s'. allowed_step s s' \<longrightarrow> job_step\<^sup>=\<^sup>= (job_view s) (job_view s')) \<and>
    (jb_over (job_view s) \<longrightarrow> jb_jobs (job_view s) = Map.empty) \<and>
    (\<forall>n i b. jb_jobs (job_view s) n = Some (i, b) \<longrightarrow> 0 < i)"
proof -
  have b: "scheduler_begins (new_scheduler enabled)" using assms(1,2) by (auto simp: scheduler_begins_def enabled_ok_def)
  have v: "job_view (new_scheduler enabled) = \<lparr>jb_jobs = Map.empty, jb_done = False, jb_over = False\<rparr>"
    by (simp add: job_view_def new_scheduler_def jobs_of_def)
  have "job_inv s" using jobs.runs [OF assms(3) jobs.inv_begins [OF b]] by blast
  then have "\<forall>s'. allowed_step s s' \<longrightarrow> job_step\<^sup>=\<^sup>= (job_view s) (job_view s')" using jobs.square by blast
  moreover have "table_ok (job_view s)"
    by (rule jobs.transfer_invariant [OF b assms(3)]) (simp_all add: v table_ok_def [of "\<lparr>jb_jobs = _, jb_done = _, jb_over = _\<rparr>"] table_ok_step)
  ultimately show ?thesis using jobs.from_begin [OF b assms(3)] by (auto simp: v table_ok_def)
qed

theorem scheduler_implements_job_table_witness:
  "job_step\<^sup>*\<^sup>* \<lparr>jb_jobs = Map.empty, jb_done = False, jb_over = False\<rparr> (job_view (start_locked (new_scheduler sample_enabled)))"
proof -
  have "allowed_step\<^sup>*\<^sup>* (new_scheduler sample_enabled) (start_locked (new_scheduler sample_enabled))"
    by (rule r_into_rtranclp) (auto simp: allowed_step_def call_allowed_def new_scheduler_def intro!: exI [of _ Call_Start] sched_step.start)
  then show ?thesis
    by (intro conjunct1 [OF scheduler_implements_job_table [of sample_enabled]]) (simp_all add: sample_enabled_def second_def)
qed

end
