(* ===== verification/FilePipeline.thy ===== *)
theory FilePipeline
  imports Scheduler
begin

text \<open>
  From a collection to the file: the collections of the scheduler and the file sender put together as \<open>run\<close> does
  for the sender type \<open>file\<close>, with the console goroutine, the switch of the console on a reload of Logging.json
  and the closing of the sender.
\<close>

section \<open>The composition\<close>

text \<open>A run keeps the metrics, as stamped, that were given to \<open>Send\<close>, each with whether it reported success.\<close>

type_synonym file_log = "(metric_data \<times> bool) list"

definition attempted ::
  "(metric_data \<Rightarrow> 's \<Rightarrow> 's \<times> sender_error option) \<Rightarrow> string \<Rightarrow> string \<Rightarrow> collect_error + metric_data option \<Rightarrow> 's \<Rightarrow> file_log" where
  "attempted send agent_id hostname result s =
     (case result of
        Inr (Some d) \<Rightarrow> [(stamp_metric agent_id hostname d, snd (send (stamp_metric agent_id hostname d) s) = None)]
      | _ \<Rightarrow> [])"

inductive file_run ::
  "(string \<Rightarrow> 'w \<Rightarrow> 'w \<times> bool) \<Rightarrow> ('w \<Rightarrow> 'w \<times> bool) \<Rightarrow> json_decoders \<Rightarrow> string \<Rightarrow> string \<Rightarrow> 'w file_sender \<Rightarrow>
     file_log \<Rightarrow> 'w file_sender \<times> int \<Rightarrow> bool"
  for wr close_writer jd agent_id hostname s0 where
  file_begin: "file_run wr close_writer jd agent_id hostname s0 [] (s0, 0)"
| file_collection: "file_run wr close_writer jd agent_id hostname s0 lg st \<Longrightarrow>
    st' = collect_once (file_send wr jd) agent_id hostname now result st \<Longrightarrow>
    file_run wr close_writer jd agent_id hostname s0
      (lg @ attempted (file_send wr jd) agent_id hostname result (fst st)) st'"
| file_console: "file_run wr close_writer jd agent_id hostname s0 lg (s, act) \<Longrightarrow>
    file_run wr close_writer jd agent_id hostname s0 lg (set_console b s, act)"
| file_print: "file_run wr close_writer jd agent_id hostname s0 lg (s, act) \<Longrightarrow>
    file_run wr close_writer jd agent_id hostname s0 lg (drain_one s, act)"
| file_closing: "file_run wr close_writer jd agent_id hostname s0 lg (s, act) \<Longrightarrow>
    file_run wr close_writer jd agent_id hostname s0 lg (fst (file_close close_writer s), act)"

section \<open>What the file says\<close>

text \<open>The lines of a metric under a format, and how much of the lines of a log was written.\<close>

definition metric_lines :: "json_decoders \<Rightarrow> string \<Rightarrow> bool \<Rightarrow> metric_data \<Rightarrow> string list" where
  "metric_lines jd fmt pretty d =
     map (if fmt = ''grok'' then to_grok_string else json_line pretty) (convert_to_ears_rows jd d)"

definition log_lines :: "json_decoders \<Rightarrow> string \<Rightarrow> bool \<Rightarrow> file_log \<Rightarrow> nat list \<Rightarrow> string list" where
  "log_lines jd fmt pretty lg ns = concat (map (\<lambda>((d, ok), n). take n (metric_lines jd fmt pretty d)) (zip lg ns))"

definition counts_ok :: "json_decoders \<Rightarrow> string \<Rightarrow> bool \<Rightarrow> file_log \<Rightarrow> nat list \<Rightarrow> bool" where
  "counts_ok jd fmt pretty =
     list_all2 (\<lambda>(d, ok) n. n \<le> length (metric_lines jd fmt pretty d) \<and> (ok \<longrightarrow> n = length (metric_lines jd fmt pretty d)))"

definition keeps_contents :: "('w \<Rightarrow> 'w \<times> bool) \<Rightarrow> ('w \<Rightarrow> string) \<Rightarrow> bool" where
  "keeps_contents close_writer contents = (\<forall>w. contents (fst (close_writer w)) = contents w)"

definition file_written :: "('w \<Rightarrow> string) \<Rightarrow> json_decoders \<Rightarrow> 'w file_sender \<Rightarrow> file_log \<Rightarrow> 'w file_sender \<Rightarrow> bool" where
  "file_written contents jd s0 lg s =
     (fs_format s = fs_format s0 \<and> fs_pretty_print s = fs_pretty_print s0 \<and>
      (\<exists>ns. counts_ok jd (fs_format s0) (fs_pretty_print s0) lg ns \<and>
         contents (fs_writer s) = contents (fs_writer s0) @ text_of (log_lines jd (fs_format s0) (fs_pretty_print s0) lg ns)))"

lemma text_of_append [simp]: "text_of (xs @ ys) = text_of xs @ text_of ys"
  by (simp add: text_of_def)

lemma file_lines_metric: "file_lines jd d s = metric_lines jd (fs_format s) (fs_pretty_print s) d"
  by (simp add: file_lines_def metric_lines_def)

text \<open>One \<open>Send\<close> adds one entry to the log and a first part of its lines to the file.\<close>

lemma file_send_written:
  assumes "appending wr contents" and "file_written contents jd s0 lg s" and "file_send wr jd d s = (s', res)"
  shows "file_written contents jd s0 (lg @ [(d, res = None)]) s'"
proof -
  obtain ns where ns: "counts_ok jd (fs_format s0) (fs_pretty_print s0) lg ns"
    "contents (fs_writer s) = contents (fs_writer s0) @ text_of (log_lines jd (fs_format s0) (fs_pretty_print s0) lg ns)"
    and fmt: "fs_format s = fs_format s0" "fs_pretty_print s = fs_pretty_print s0"
    using assms(2) by (auto simp: file_written_def)
  have "\<exists>n \<le> length (metric_lines jd (fs_format s0) (fs_pretty_print s0) d).
      contents (fs_writer s') = contents (fs_writer s) @ text_of (take n (metric_lines jd (fs_format s0) (fs_pretty_print s0) d)) \<and>
      (res = None \<longrightarrow> n = length (metric_lines jd (fs_format s0) (fs_pretty_print s0) d)) \<and>
      fs_format s' = fs_format s \<and> fs_pretty_print s' = fs_pretty_print s"
  proof (cases "fs_closed s")
    case True
    then show ?thesis using assms(3) by (intro exI [of _ 0]) (auto simp: file_send_eq text_of_def)
  next
    case False
    then have "write_lines wr (file_lines jd d s) s = (s', res)" using assms(3) by (simp add: file_send_eq)
    from write_lines_spec [OF assms(1) this] show ?thesis unfolding file_lines_metric fmt by blast
  qed
  then obtain n where n: "n \<le> length (metric_lines jd (fs_format s0) (fs_pretty_print s0) d)"
      "contents (fs_writer s') = contents (fs_writer s) @ text_of (take n (metric_lines jd (fs_format s0) (fs_pretty_print s0) d))"
      "res = None \<longrightarrow> n = length (metric_lines jd (fs_format s0) (fs_pretty_print s0) d)"
      "fs_format s' = fs_format s" "fs_pretty_print s' = fs_pretty_print s" by blast
  have len: "length ns = length lg" using ns(1) by (auto simp: counts_ok_def dest: list_all2_lengthD)
  have "counts_ok jd (fs_format s0) (fs_pretty_print s0) (lg @ [(d, res = None)]) (ns @ [n])"
    using ns(1) n(1,3) by (auto simp: counts_ok_def intro: list_all2_appendI)
  moreover have "log_lines jd (fs_format s0) (fs_pretty_print s0) (lg @ [(d, res = None)]) (ns @ [n]) =
      log_lines jd (fs_format s0) (fs_pretty_print s0) lg ns @ take n (metric_lines jd (fs_format s0) (fs_pretty_print s0) d)"
    using len by (simp add: log_lines_def)
  ultimately show ?thesis using n ns fmt by (auto simp: file_written_def intro!: exI [of _ "ns @ [n]"])
qed

lemma drain_all_format [simp]:
  "fs_format (drain_all s) = fs_format s" "fs_pretty_print (drain_all s) = fs_pretty_print s"
proof -
  have "fs_format ((drain_one ^^ n) s) = fs_format s \<and> fs_pretty_print ((drain_one ^^ n) s) = fs_pretty_print s" for n
    by (induction n) (auto simp: drain_one_def split: list.splits)
  then show "fs_format (drain_all s) = fs_format s" "fs_pretty_print (drain_all s) = fs_pretty_print s"
    by (simp_all add: drain_all_def)
qed

lemma file_run_written:
  assumes "file_run wr close_writer jd agent_id hostname s0 lg st" and "appending wr contents"
    and "keeps_contents close_writer contents"
  shows "file_written contents jd s0 lg (fst st)"
  using assms(1)
proof (induction rule: file_run.induct)
  case file_begin
  show ?case by (auto simp: file_written_def counts_ok_def log_lines_def text_of_def)
next
  case (file_collection lg st st' now result)
  show ?case
  proof (cases "\<exists>d. result = Inr (Some d)")
    case True
    then obtain d where d: "result = Inr (Some d)" by blast
    let ?d = "stamp_metric agent_id hostname d"
    have "fst st' = fst (file_send wr jd ?d (fst st))"
      using file_collection.hyps(2) d by (auto simp: collect_once_def split: prod.splits option.splits)
    then show ?thesis
      using file_send_written [OF assms(2) file_collection.IH, of ?d "fst st'" "snd (file_send wr jd ?d (fst st))"] d
      by (simp add: attempted_def)
  next
    case False
    then have "st' = st" "attempted (file_send wr jd) agent_id hostname result (fst st) = []"
      using file_collection.hyps(2) by (auto simp: collect_once_def attempted_def split: sum.splits option.splits)
    then show ?thesis using file_collection.IH by simp
  qed
next
  case (file_console lg s act b)
  then show ?case by (simp add: file_written_def set_console_def)
next
  case (file_print lg s act)
  then show ?case by (simp add: file_written_def drain_one_def split: list.splits)
next
  case (file_closing lg s act)
  then show ?case using assms(3)
    by (auto simp: file_written_def file_close_def Let_def split_def drain_all_spec keeps_contents_def)
qed

lemma file_run_stamped:
  "file_run wr close_writer jd agent_id hostname s0 lg st \<Longrightarrow>
     list_all (\<lambda>(d, ok). md_agent_id d = agent_id \<and> md_hostname d = hostname) lg"
  by (induction rule: file_run.induct) (auto simp: attempted_def stamp_metric_def split: sum.splits option.splits)

end
