(* ===== verification/RefreshLoop.thy ===== *)
theory RefreshLoop
  imports Refresher
begin

text \<open>
  The goroutine of \<open>internal/discovery/refresher.go\<close> with \<open>Start\<close> and \<open>Stop\<close>: its timers, the cancellation of its
  context and the wait for its end, as the step relation \<open>loop_step\<close> over the operations of \<open>Refresher\<close>.  The
  sender may be closed, and replaced transports are closed, at any moment.
\<close>

section \<open>The loop\<close>

text \<open>
  Until \<open>Start\<close>; waiting for the first timer, which fires at the given time; with a ticker made at the first
  and asked last at the second time; ended.  A ticker keeps one tick at most: after the last question a
  tick is there once a multiple of the period has passed.
\<close>

datatype loop_phase = Loop_Unstarted | Loop_First int | Loop_Ticking int int | Loop_Ended

record refresh_loop =
  rl_refresher :: refresher
  rl_now :: int
  rl_phase :: loop_phase
  rl_since :: int            \<comment> \<open>when \<open>Start\<close> was called\<close>
  rl_cancelled :: bool
  rl_stopping :: bool        \<comment> \<open>\<open>Stop\<close> waits for the goroutine\<close>
  rl_stopped :: bool         \<comment> \<open>\<open>Stop\<close> has returned\<close>
  rl_refreshes :: nat        \<comment> \<open>calls of \<open>refreshOnce\<close>\<close>

definition loop_initial :: "refresher \<Rightarrow> int \<Rightarrow> refresh_loop" where
  "loop_initial r now =
     \<lparr>rl_refresher = r, rl_now = now, rl_phase = Loop_Unstarted, rl_since = now, rl_cancelled = False,
      rl_stopping = False, rl_stopped = False, rl_refreshes = 0\<rparr>"

definition loop_start :: "int \<Rightarrow> refresh_loop \<Rightarrow> refresh_loop" where
  "loop_start jitter s =
     (let interval = rf_interval (rl_refresher s) in
      if interval \<le> 0 then s
      else s\<lparr>rl_phase := Loop_First (rl_now s + first_refresh_after interval jitter), rl_since := rl_now s\<rparr>)"

definition tick_ready :: "int \<Rightarrow> int \<Rightarrow> int \<Rightarrow> int \<Rightarrow> bool" where
  "tick_ready interval made asked now = ((asked - made) div interval < (now - made) div interval)"

text \<open>A refresh, which takes until \<open>now\<close>.\<close>

definition loop_refresh :: "discovery_error + string \<Rightarrow> (string \<Rightarrow> bool) \<Rightarrow> int \<Rightarrow> refresh_loop \<Rightarrow> refresh_loop" where
  "loop_refresh fetched factory now s =
     s\<lparr>rl_refresher := refresh_once fetched factory (rl_refresher s), rl_refreshes := Suc (rl_refreshes s), rl_now := now\<rparr>"

definition loop_stop :: "refresh_loop \<Rightarrow> refresh_loop" where
  "loop_stop s = s\<lparr>rl_cancelled := True, rl_stopping := True\<rparr>"

inductive loop_step :: "refresh_loop \<Rightarrow> refresh_loop \<Rightarrow> bool" where
  rl_time: "rl_now s \<le> t \<Longrightarrow> loop_step s (s\<lparr>rl_now := t\<rparr>)"
| rl_start: "rl_phase s = Loop_Unstarted \<Longrightarrow> \<not> rl_stopping s \<Longrightarrow> \<not> rl_stopped s \<Longrightarrow>
    0 \<le> jitter \<Longrightarrow> jitter < max 1 (rf_interval (rl_refresher s)) \<Longrightarrow> loop_step s (loop_start jitter s)"
| rl_first: "rl_phase s = Loop_First due \<Longrightarrow> due \<le> rl_now s \<Longrightarrow> rl_now s \<le> t \<Longrightarrow>
    loop_step s ((loop_refresh fetched factory t s)\<lparr>rl_phase := Loop_Ticking t t\<rparr>)"
| rl_tick: "rl_phase s = Loop_Ticking made asked \<Longrightarrow>
    tick_ready (rf_interval (rl_refresher s)) made asked (rl_now s) \<Longrightarrow> rl_now s \<le> t \<Longrightarrow>
    loop_step s ((loop_refresh fetched factory t s)\<lparr>rl_phase := Loop_Ticking made (rl_now s)\<rparr>)"
| rl_leave: "rl_phase s = Loop_First due \<or> rl_phase s = Loop_Ticking made asked \<Longrightarrow> rl_cancelled s \<Longrightarrow>
    loop_step s (s\<lparr>rl_phase := Loop_Ended\<rparr>)"
| rl_cancel: "loop_step s (s\<lparr>rl_cancelled := True\<rparr>)"
| rl_stop: "loop_step s (loop_stop s)"
| rl_joined: "rl_stopping s \<Longrightarrow> rl_phase s \<in> {Loop_Unstarted, Loop_Ended} \<Longrightarrow>
    loop_step s (s\<lparr>rl_stopping := False, rl_stopped := True\<rparr>)"
| rl_close_old: "loop_step s (s\<lparr>rl_refresher := refresh_event_step (Close_Old t) (rl_refresher s)\<rparr>)"
| rl_close_sender: "loop_step s (s\<lparr>rl_refresher := refresh_event_step Close_Sender (rl_refresher s)\<rparr>)"

inductive loop_reachable :: "refresher \<Rightarrow> refresh_loop \<Rightarrow> bool" for r where
  loop_begin: "loop_reachable r (loop_initial r now)"
| loop_advance: "loop_reachable r s \<Longrightarrow> loop_step s s' \<Longrightarrow> loop_reachable r s'"

section \<open>The invariant\<close>

text \<open>
  \<open>budget\<close>: before the first refresh none was made and the timer is at least one period away from the start;
  later the refreshes fit into the periods up to the last question to the ticker.
\<close>

definition budget :: "refresh_loop \<Rightarrow> bool" where
  "budget s =
     (let interval = rf_interval (rl_refresher s) in
      rl_since s \<le> rl_now s \<and>
      (case rl_phase s of
         Loop_Unstarted \<Rightarrow> rl_refreshes s = 0
       | Loop_First due \<Rightarrow> rl_refreshes s = 0 \<and> 0 < interval \<and> rl_since s + interval \<le> due
       | Loop_Ticking made asked \<Rightarrow>
           0 < interval \<and> rl_since s + interval \<le> made \<and> made \<le> asked \<and> asked \<le> rl_now s \<and>
           int (rl_refreshes s) \<le> 1 + (asked - made) div interval
       | Loop_Ended \<Rightarrow> 0 < interval \<and> int (rl_refreshes s) * interval \<le> rl_now s - rl_since s))"

lemma interval_fixed [simp]:
  "rf_interval (refresh_once fetched factory r) = rf_interval r"
  "rf_interval (refresh_event_step (Close_Old t) r) = rf_interval r"
  "rf_interval (close_sender_transport r) = rf_interval r"
  by (auto simp: refresh_once_def close_sender_transport_def Let_def split: sum.splits prod.splits)

lemma periods_fit:
  fixes n interval :: int
  assumes "0 < interval" and "since + interval \<le> made" and "made \<le> asked" and "asked \<le> now"
    and "n \<le> 1 + (asked - made) div interval"
  shows "n * interval \<le> now - since"
proof -
  have "n * interval \<le> (1 + (asked - made) div interval) * interval"
    using assms(1,5) by (intro mult_right_mono) simp_all
  moreover have "(asked - made) div interval * interval \<le> asked - made"
    using pos_mod_sign [OF assms(1), of "asked - made"] by (simp add: minus_mod_eq_div_mult [symmetric])
  ultimately show ?thesis using assms(2-4) by (simp add: distrib_right)
qed

lemma budget_step: "loop_step s s' \<Longrightarrow> budget s \<Longrightarrow> budget s'"
proof (induction rule: loop_step.induct)
  case (rl_time s t)
  then show ?case by (auto simp: budget_def Let_def split: loop_phase.splits)
next
  case (rl_start s jitter)
  then show ?case by (auto simp: budget_def loop_start_def first_refresh_after_def Let_def)
next
  case (rl_first s due t fetched factory)
  then show ?case by (auto simp: budget_def loop_refresh_def Let_def)
next
  case (rl_tick s made asked t fetched factory)
  then show ?case by (auto simp: budget_def loop_refresh_def tick_ready_def Let_def)
next
  case (rl_leave s due made asked)
  then show ?case by (auto simp: budget_def Let_def intro: periods_fit)
next
  case (rl_close_sender s)
  then show ?case by (auto simp: budget_def Let_def split: loop_phase.splits)
qed (auto simp: budget_def loop_stop_def Let_def split: loop_phase.splits)

lemma budget_spent:
  assumes "budget s"
  shows "int (rl_refreshes s) * rf_interval (rl_refresher s) \<le> rl_now s - rl_since s"
  using assms by (auto simp: budget_def Let_def intro: periods_fit split: loop_phase.splits)

definition loop_ok :: "refresh_loop \<Rightarrow> bool" where
  "loop_ok s =
     (refresher_ok (rl_refresher s) \<and> budget s \<and>
      (rl_stopping s \<longrightarrow> rl_cancelled s) \<and> (rl_stopped s \<longrightarrow> rl_phase s \<in> {Loop_Unstarted, Loop_Ended}))"

lemma loop_ok_step:
  assumes "loop_step s s'" and "loop_ok s"
  shows "loop_ok s'"
proof -
  have "refresher_ok (rl_refresher s') \<and> (rl_stopping s' \<longrightarrow> rl_cancelled s') \<and>
      (rl_stopped s' \<longrightarrow> rl_phase s' \<in> {Loop_Unstarted, Loop_Ended})"
    using assms
    by (induction rule: loop_step.induct)
      (auto simp: loop_ok_def loop_start_def loop_refresh_def loop_stop_def Let_def simp del: refresh_event_step.simps
        intro: refresh_once_ok refresh_event_ok)
  moreover have "budget s'" using budget_step [OF assms(1)] assms(2) by (simp add: loop_ok_def)
  ultimately show ?thesis by (simp add: loop_ok_def)
qed

lemma loop_reachable_ok: "loop_reachable r s \<Longrightarrow> refresher_ok r \<Longrightarrow> loop_ok s"
  by (induction rule: loop_reachable.induct)
    (simp_all add: loop_ok_step, simp add: loop_ok_def loop_initial_def budget_def)

text \<open>Once \<open>Stop\<close> has returned, what goes on is only closing.\<close>

lemma stopped_step:
  assumes "loop_step s s'" and "rl_stopped s" and "loop_ok s"
  shows "rl_stopped s' \<and> rl_refreshes s' = rl_refreshes s \<and> rf_current (rl_refresher s') = rf_current (rl_refresher s) \<and>
    rf_created (rl_refresher s') = rf_created (rl_refresher s)"
  using assms by (cases rule: loop_step.cases) (auto simp: loop_ok_def loop_stop_def close_sender_transport_def)

lemma stopped_steps:
  assumes "loop_step\<^sup>*\<^sup>* s s'" and "rl_stopped s" and "loop_ok s"
  shows "loop_ok s' \<and> rl_stopped s' \<and> rl_refreshes s' = rl_refreshes s \<and>
    rf_current (rl_refresher s') = rf_current (rl_refresher s) \<and> rf_created (rl_refresher s') = rf_created (rl_refresher s)"
  using assms(1)
proof (induction rule: rtranclp_induct)
  case base
  then show ?case using assms by simp
next
  case (step t u)
  then show ?case using stopped_step [OF step.hyps(2)] loop_ok_step [OF step.hyps(2)] by simp
qed

lemma stop_returns:
  assumes "rl_stopping s" and "loop_ok s"
  shows "\<exists>s'. loop_step\<^sup>*\<^sup>* s s' \<and> rl_stopped s'"
proof -
  have cancelled: "rl_cancelled s" using assms by (simp add: loop_ok_def)
  have join: "loop_step t (t\<lparr>rl_stopping := False, rl_stopped := True\<rparr>)"
    if "rl_stopping t" "rl_phase t \<in> {Loop_Unstarted, Loop_Ended}" for t
    using that by (rule loop_step.rl_joined)
  show ?thesis
  proof (cases "rl_phase s \<in> {Loop_Unstarted, Loop_Ended}")
    case True
    have "loop_step\<^sup>*\<^sup>* s (s\<lparr>rl_stopping := False, rl_stopped := True\<rparr>)" by (rule r_into_rtranclp) (rule join [OF assms(1) True])
    then show ?thesis by (intro exI [of _ "s\<lparr>rl_stopping := False, rl_stopped := True\<rparr>"]) simp
  next
    case False
    then have "loop_step s (s\<lparr>rl_phase := Loop_Ended\<rparr>)"
      using cancelled by (cases "rl_phase s") (auto intro: loop_step.rl_leave)
    moreover have "loop_step (s\<lparr>rl_phase := Loop_Ended\<rparr>)
        (s\<lparr>rl_phase := Loop_Ended, rl_stopping := False, rl_stopped := True\<rparr>)"
      using join [of "s\<lparr>rl_phase := Loop_Ended\<rparr>"] assms(1) by simp
    ultimately have "loop_step\<^sup>*\<^sup>* s (s\<lparr>rl_phase := Loop_Ended, rl_stopping := False, rl_stopped := True\<rparr>)"
      by (meson converse_rtranclp_into_rtranclp r_into_rtranclp)
    then show ?thesis
      by (intro exI [of _ "s\<lparr>rl_phase := Loop_Ended, rl_stopping := False, rl_stopped := True\<rparr>"]) simp
  qed
qed

section \<open>Properties\<close>

text \<open>C28 The address refresher in any run of its goroutine, with \<open>Start\<close>, \<open>Stop\<close>, the cancellation of its context, the
  closing of replaced transports and of the sender at any moment: the discovery service is asked at most
  once per interval since the start; the sender sends to the address held for the current one, and every
  transport ever created is closed exactly once, waits for its close or is the one in use; a \<open>Stop\<close> that
  waits can return; and after it has returned nothing is asked, created or exchanged any more.\<close>

theorem address_refresher_safe:
  assumes "\<not> ks_closed k" and "ks_transport k = \<lparr>th_id = 0, th_addr = addr\<rparr>"
    and "loop_reachable (new_refresher interval addr k) s" and "r = rl_refresher s"
  shows "int (rl_refreshes s) * rf_interval r \<le> rl_now s - rl_since s \<and>
    th_addr (ks_transport (rf_sender r)) = rf_current r \<and>
    distinct (rf_closed r @ rf_closing r) \<and>
    set (rf_closed r @ rf_closing r) =
      (if ks_closed (rf_sender r) then {0..<rf_created r} else {0..<rf_created r} - {th_id (ks_transport (rf_sender r))}) \<and>
    (rl_stopping s \<longrightarrow> (\<exists>s'. loop_step\<^sup>*\<^sup>* s s' \<and> rl_stopped s')) \<and>
    (rl_stopped s \<longrightarrow> (\<forall>s'. loop_step\<^sup>*\<^sup>* s s' \<longrightarrow> rl_refreshes s' = rl_refreshes s \<and>
       rf_current (rl_refresher s') = rf_current r \<and> rf_created (rl_refresher s') = rf_created r))"
proof -
  have ok: "loop_ok s" using loop_reachable_ok [OF assms(3)] refresher_ok_init [OF assms(1,2)] by blast
  then have "refresher_ok r" and spent: "int (rl_refreshes s) * rf_interval r \<le> rl_now s - rl_since s"
    using budget_spent assms(4) by (simp_all add: loop_ok_def)
  then show ?thesis
    using refresher_ok_ledger [of r] stop_returns [OF _ ok] stopped_steps [OF _ _ ok] assms(4) by blast
qed

definition sample_loop :: refresh_loop where
  "sample_loop =
     (loop_refresh (Inr ''h2'') (\<lambda>_. True) 605 ((loop_start 5 (loop_initial sample_refresher 0))\<lparr>rl_now := 605\<rparr>))
       \<lparr>rl_phase := Loop_Ticking 605 605\<rparr>"

lemma sample_loop_reachable: "loop_reachable sample_refresher sample_loop"
proof -
  let ?s1 = "loop_start 5 (loop_initial sample_refresher 0)"
  have interval: "rf_interval sample_refresher = 600" by (simp add: sample_refresher_def new_refresher_def)
  have "loop_reachable sample_refresher ?s1"
    by (rule loop_advance [OF loop_begin loop_step.rl_start]) (simp_all add: loop_initial_def interval)
  then have "loop_reachable sample_refresher (?s1\<lparr>rl_now := 605\<rparr>)"
    by (rule loop_advance) (rule loop_step.rl_time, simp add: loop_start_def loop_initial_def interval)
  then show ?thesis unfolding sample_loop_def
    by (rule loop_advance)
      (rule loop_step.rl_first [where due = 605], simp_all add: loop_start_def loop_initial_def interval first_refresh_after_def)
qed

theorem address_refresher_safe_witness:
  "rf_current (rl_refresher sample_loop) = ''h2'' \<and> th_addr (ks_transport (rf_sender (rl_refresher sample_loop))) = ''h2'' \<and>
   int (rl_refreshes sample_loop) * 600 \<le> 605 \<and> rf_closing (rl_refresher sample_loop) = [0]"
proof -
  let ?k = "new_kafka_sender \<lparr>th_id = 0, th_addr = ''h1''\<rparr> ''tp'' None grok_format_raw"
  have vals: "rf_current (rl_refresher sample_loop) = ''h2''" "rf_closing (rl_refresher sample_loop) = [0]"
    "rf_interval (rl_refresher sample_loop) = 600" "rl_now sample_loop = 605" "rl_since sample_loop = 0"
    by (simp_all add: sample_loop_def loop_refresh_def loop_start_def loop_initial_def sample_refresher_def new_refresher_def
        refresh_once_def swap_transport_def new_kafka_sender_def Let_def)
  have "loop_reachable (new_refresher 600 ''h1'' ?k) sample_loop"
    using sample_loop_reachable by (simp add: sample_refresher_def)
  from address_refresher_safe [OF _ _ this refl] vals show ?thesis by (simp add: new_kafka_sender_def)
qed

end
