(* ===== verification/Spec2Isabelle.thy ===== *)
theory Spec2Isabelle
  imports Pipeline Daemon Command StoragePlatform Swap Lossy Connect Readings Jobs FilePipeline RefreshLoop
begin

text \<open>
  A verification development for ResourceAgent, the Go program under \<open>src/\<close> that collects metrics of a
  machine (CPU, memory, disks, network, processes, sensors), turns them into EARS rows and sends them to
  Kafka, to a KafkaRest proxy or to a file.

  The way of a measurement.  The scheduler (\<open>internal/scheduler\<close>) runs one goroutine per enabled
  collector of the registry (\<open>internal/collector\<close>); each collection gives a metric, which is stamped with
  agent and host and handed to the sender (\<open>internal/sender\<close>).  The sender converts it to rows
  (\<open>grokformat.go\<close>), the rows to records (\<open>kafkaformat.go\<close>), and gives these to a transport, which
  buffers them and posts them in batches (\<open>kafkarest.go\<close>).  Around this: the configuration files and
  their hot reload (\<open>internal/config\<close>), finding out which equipment the machine belongs to and where the
  proxy is (\<open>internal/network\<close>, \<open>internal/eqpinfo\<close>, \<open>internal/discovery\<close>), the helper process that reads
  sensors on Windows (\<open>lhm_provider_windows.go\<close>), the heartbeat and the clock difference in Redis, the log
  writers, the service loops and \<open>main\<close>.

  Theories, from the bottom up.

  Standard library as the program uses it.  \<open>Prelude\<close>: shared facts on lists and sums.  \<open>GoStd\<close>: strings,
  integers to text, UTF-8.  \<open>Float64\<close> and \<open>FloatFormat\<close>: \<open>float64\<close> as the values of binary64 with exact
  rational arithmetic and rounding, and its shortest decimal.  \<open>Scanner\<close>: reading lines.  \<open>GoTime\<close> and \<open>GoDuration\<close>: instants,
  calendar dates, layouts, durations.  \<open>Json\<close>: what \<open>encoding/json\<close> prints, with a reader for the round
  trips.  \<open>Refinement\<close>: the locale \<open>simulation\<close> (a step relation implements another under a view and an
  invariant; runs and invariants carry over), which \<open>Lossy\<close> and \<open>Jobs\<close> interpret.

  Data and formats.  \<open>Types\<close>: the payloads of \<open>types.go\<close>.  \<open>Sanitize\<close>: safe names.  \<open>Ears\<close>: the conversions to
  rows and the Grok line.  \<open>KafkaFormat\<close>: records, event ids and request bodies.

  Senders.  \<open>Buffer\<close>: the direct transport and the operations of the buffered one.  \<open>Buffer_Loop\<close>: its
  goroutines as the step relation \<open>step\<close>, with what became of every record.  \<open>KafkaSender\<close>: the sender
  over any transport, the transports' contract as the locale \<open>kafka_transport\<close> interpreted on all three,
  and the sarama transport.  \<open>Swap\<close>: calls of the sender, exchanges of its transport by the refresher and closing,
  interleaved with the goroutines of every transport ever made.  \<open>Lossy\<close>: what the buffered transport promises as
  an abstract queue, and the refinement.  \<open>Connect\<close>: dialers, HTTP clients,
  SCRAM and Redis options.  \<open>FileSender\<close>, \<open>Sender\<close> (the contract of all senders as a locale, interpreted on
  each) and \<open>Factory\<close>.

  Configuration.  \<open>Config\<close> (values, defaults, merge), \<open>Loader\<close> (files), \<open>Validate\<close>, \<open>Watcher\<close> (file watchers
  and what a reload does to registry, scheduler, logger and sender).

  Collectors.  \<open>Collector\<close> (the plain ones and the probes of the agent itself), \<open>Sensors\<close> (with the helper's
  structs and what is copied out of them), \<open>Readings\<close> (from the helper's data to the rows), \<open>StorageHealth\<close>, \<open>StoragePlatform\<close> (WMI, smartctl and
  sysfs below them), \<open>TopN\<close> (the heap of \<open>container/heap\<close>) and \<open>Processes\<close>, \<open>Network\<close>, \<open>LhmProvider\<close> (the helper
  process, its cache and its restarts as the step relation \<open>lhm_step\<close>), \<open>Daemon\<close> (its standard error, and the
  stand-in \<open>testdata/fake_daemon.go\<close> the tests run), \<open>Registry\<close>.

  Running.  \<open>Scheduler\<close>: the goroutines as the step relation \<open>sched_step\<close> over the critical sections of
  \<open>Start\<close>, \<open>Stop\<close> and \<open>Reconfigure\<close>.  \<open>Jobs\<close>: what it promises, as a table of periodic jobs, and that it implements
  that table.  \<open>Pipeline\<close>: scheduler, sender and transport together.  \<open>FilePipeline\<close>: scheduler and file sender
  together, as the step relation \<open>file_run\<close>.  \<open>Discovery\<close>,
  \<open>Refresher\<close>, \<open>Heartbeat\<close>: address detection, equipment lookup, services, address refresh, and what is
  written to Redis (for the heartbeat also the ticker and \<open>Stop\<close> as the step relation \<open>heartbeat_step\<close>).
  \<open>RefreshLoop\<close>: the goroutine of the address refresher with its timers, \<open>Start\<close> and \<open>Stop\<close>.  \<open>Startup\<close>: the
  infrastructure part and the phases of \<open>run\<close>.  \<open>Logging\<close>, \<open>Service\<close>, \<open>Command\<close>: log writers, service loops, \<open>main\<close>.

  How code became definitions.  A struct is a record, an enumeration or error a datatype, a pair of value
  and error a sum or option, a map an association list (or a function where only look-ups matter), a
  counter of fixed width a word, \<open>int\<close> an integer where no overflow can occur and a word where one can.  A
  method is a function of the state it gets to the state it leaves.  What runs concurrently is an inductive
  step relation whose steps are the critical sections of the code; the ledger fields of its states
  (accepted, dropped, delivered, lost, generations of processes) exist for the theorems.  Definitions
  compute; the witnesses evaluate them.

  What is shown.

  Delivery.  Every record accepted is at every moment in exactly one of five places (\<open>no_record_unaccounted\<close>),
  order is kept per topic through any interleaving (\<open>delivery_in_order\<close>), the cap drops the oldest entries and
  no more than needed (\<open>deliver_keeps_newest\<close>), the counters are exact (\<open>buffer_stats_exact\<close>), a closed
  transport can always finish and is then empty (\<open>close_can_finish\<close>, \<open>finished_means_drained\<close>).  Seen from
  one topic all this is a queue that drops its oldest records (\<open>transport_implements_lossy_queue\<close>).  An exchange of
  the transport under running sends loses nothing that was accepted (\<open>exchange_loses_no_record\<close>), though it may
  refuse a send it overtakes (\<open>overtaken_send_is_refused\<close>).  Over the whole
  pipeline the proxy acknowledges a subsequence of what was measured, and every acknowledged line reads
  back as a measurement (\<open>pipeline_delivers_in_order\<close>, \<open>acknowledged_lines_were_measured\<close>).

  Formats.  Grok lines, JSON documents and request bodies read back to the rows they came from; event ids
  identify the row; names are safe for the line format; there is one row per measurement.

  Scheduling.  Collectors never overlap, nothing runs after a stop, a stop can always return, and a
  reconfiguration takes effect completely; a reload of the file is such a reconfiguration
  (\<open>reload_reaches_scheduler\<close>).  With all its locks, contexts and waits the scheduler implements a plain table
  of jobs, each busy or not (\<open>scheduler_implements_job_table\<close>).

  Helper processes.  At most one sensor helper is alive, a call for its data ends in fresh data, cached data or
  a stopped helper, and it recovers; at most one WMI query is outstanding.

  Start.  A process that runs has validated configurations and a legal scheduler (\<open>service_runs_validated\<close>), a
  start that succeeds has found its equipment, the proxy and the clock difference
  (\<open>startup_identifies_equipment\<close>), and a validated configuration builds its sender.  All connections agree on the
  proxy (\<open>proxy_used_everywhere_or_nowhere\<close>).  For the KafkaRest sender the parts are put together in this theory:
  from the files through validation, start and sender to every run of the pipeline
  (\<open>configured_agent_delivers\<close>).  For the file sender likewise, from the files to what is in the file
  (\<open>configured_agent_writes\<close>).  A start that fails is reported (\<open>failed_start_is_reported\<close>).

  Addresses.  The refresher asks at most once per interval, loses no transport and is quiet after \<open>Stop\<close>
  (\<open>address_refresher_safe\<close>).

  Redis.  The written clock difference is the measured one, the heartbeat is visible while the agent lives, and
  its farewell is final (\<open>shutdown_is_final\<close>).

  Collectors.  What the helper measured is what is sent (\<open>helper_readings_become_rows\<close>).  The heap selection keeps the heaviest processes, watched processes and network rates are
  reported as specified, failing drives are reported as such.

  Several theorems state where the code differs from its comments or from what it should do, for instance
  \<open>oversized_delivery_is_lost\<close>, \<open>woken_call_replaces_healthy_helper\<close>, \<open>counter_reset_gives_huge_rate\<close>,
  \<open>removed_entry_keeps_interval\<close>, \<open>no_compression_is_snappy\<close>, \<open>watched_process_last_exceeds_top_n\<close>, \<open>second_stop_panics\<close>,
  \<open>negative_flush_frequency_panics\<close>, \<open>long_stderr_line_ends_forwarding\<close> and \<open>kept_logger_goes_stale\<close>.

  Bounds and fuel.  Loops are structural or have a measure (retries by the attempts left, the heap by its
  indices, texts by their length).  Fuel occurs in two places.  The search for the shortest decimal takes
  one step per digit and the scaling of a small number one per power of ten; both bounds are beyond what
  binary64 needs, and \<open>f64_parse_format\<close> shows that the result always reads back.  The JSON reader, which
  only the round trips use, takes the length of its text, and \<open>fuel\<close> with its lemmas shows that to be
  enough.  Waiting is expressed by clock values that are arguments; time-outs and contexts are predicates
  on the moment at which the code looks at them.

  Parameters, with no assumption beyond their types unless a theorem names it: answers of the HTTP client,
  of Redis, of the service discovery and of the operating system; \<open>json.Unmarshal\<close> into structs;
  regular expressions; the rotating file writer; sarama's producer; the order in which Go visits a map.

  Not modelled.  Case mapping outside ASCII.  Which log lines the parts write, apart from the format of the
  file, its caller field, the writers and the loggers; the inside of the SCRAM,
  SOCKS, TLS and Redis libraries, whose results are parameters; the reflection fallback that turns an
  unexpected payload into JSON and back, which is a parameter (\<open>json_decoders\<close>); data races (a reload
  changes collectors while their goroutines may read them: in the model a configuration is one step).
\<close>

section \<open>The agent as it is configured\<close>

text \<open>What the sender for a KafkaRest proxy is made of.\<close>

lemma new_sender_rest:
  assumes "new_sender env cfg = Inr (Kafka_Rest_Sender k)"
  shows "to_lower (cfg_sender_type cfg) \<noteq> ''file''"
    and "\<exists>topic. resolve_topic (cfg_topic cfg) (cfg_eqp_info cfg) = Some topic \<and>
      k = new_kafka_sender (initial (cfg_kafka_rest_address cfg) (cfg_batch cfg)) topic (cfg_eqp_info cfg) grok_format_raw"
  using assms
  by (auto simp: new_sender_def Let_def bind_result_def split: if_splits option.splits sum.splits)

lemma setup_sender_success:
  assumes "setup_sender env cfg lc = (cfg2, Inr s)"
  shows "cfg2 = cfg\<lparr>cfg_file := (cfg_file cfg)\<lparr>fc_console := lc_console lc\<rparr>\<rparr>" and "new_sender env cfg2 = Inr s"
  using assms by (auto simp: setup_sender_def Let_def map_sum_eq_Inr)

text \<open>A configuration that was loaded and validated has a positive cap.\<close>

lemma loaded_cap_positive:
  assumes "load_config read_file um path = Inr cfg" and "validate_config compiles cfg = []"
  shows "0 < bc_max_buffered_records (cfg_batch cfg)"
proof -
  obtain data where "parse_config um data = Inr cfg"
    using assms(1) by (auto simp: load_config_def split: option.splits)
  then have "bc_max_buffered_records (cfg_batch cfg) \<noteq> 0" using zero_cannot_be_loaded [of um data cfg] by simp
  moreover have "0 \<le> bc_max_buffered_records (cfg_batch cfg)"
    using assms(2) unfolding validate_config_iff config_ok_def by blast
  ultimately show ?thesis by linarith
qed

text \<open>In a run the buffer holds at most what the cap allows.\<close>

lemma agent_run_bounded:
  assumes "agent_run jd agent_id hostname addr cfg topic eqp lg st" and "0 < bc_max_buffered_records cfg"
  shows "entries_count (bt_buffer (sy_t (ks_transport (fst st)))) \<le> bc_max_buffered_records cfg"
proof -
  have "counters_ok cfg (ks_transport (fst st))"
    using reachable_invariants [of addr cfg "ks_transport (fst st)"] agent_run_invariant [OF assms(1)] assms(2) by simp
  then show ?thesis using assms(2) by (auto simp: counters_ok_def Let_def)
qed


text \<open>The same for the files of a sample run.\<close>

definition sample_files :: main_result where
  "sample_files = agent_main (\<lambda>p. False) id (\<lambda>p. True) (\<lambda>p. Some ())
     (\<lambda>u. Some (empty_raw\<lparr>rw_virtual_address_list := '' 10.0.0.9,10.0.0.10'', rw_sender_type := ''kafkarest'',
        rw_file := (rw_file empty_raw)\<lparr>fc_console := True\<rparr>\<rparr>)) (\<lambda>u. Some [])
     (\<lambda>u. Some sample_logging) (\<lambda>p. True) (\<lambda>p. True) False default_command_line"

lemma sample_files_run: "sample_files = Service_Runs sample_start default_monitor_config sample_logging"
  by code_simp

lemma sample_sender:
  "\<exists>k. setup_sender sample_environment (fst sample_started) sample_logging =
     ((fst sample_started)\<lparr>cfg_file := (cfg_file (fst sample_started))\<lparr>fc_console := False\<rparr>\<rparr>, Inr (Kafka_Rest_Sender k))"
proof -
  have "to_lower ''kafkarest'' = ''kafkarest''" by code_simp
  then show ?thesis
    using resolve_topic_some [of "Some sample_eqp" "cfg_topic (fst sample_started)"]
    by (auto simp: setup_sender_def new_sender_def sample_started_def sample_start_def sample_environment_def sample_logging_def)
qed



text \<open>A run in which one metric is written.\<close>

definition sample_file_raw :: raw_config where
  "sample_file_raw = empty_raw\<lparr>rw_sender_type := ''file'', rw_file := (rw_file empty_raw)\<lparr>fc_console := True\<rparr>\<rparr>"

definition sample_file_config :: config where
  "sample_file_config = default_config\<lparr>cfg_sender_type := ''file'', cfg_file := (cfg_file default_config)\<lparr>fc_console := True\<rparr>\<rparr>"

lemma sample_file_main:
  "agent_main (\<lambda>p. False) id (\<lambda>p. True) (\<lambda>p. Some ()) (\<lambda>u. Some sample_file_raw) (\<lambda>u. Some []) (\<lambda>u. Some sample_logging)
     (\<lambda>p. True) (\<lambda>p. True) False default_command_line = Service_Runs sample_file_config default_monitor_config sample_logging"
  by code_simp

definition sample_file_sender :: "string file_sender" where
  "sample_file_sender =
     \<lparr>fs_file_path = fc_file_path (cfg_file default_config), fs_writer = [], fs_pretty_print = fc_pretty (cfg_file default_config),
      fs_console = False, fs_console_queue = [], fs_printed = [], fs_format = ''grok'', fs_closed = False\<rparr>"

lemma sample_file_setup:
  "snd (setup_sender sample_environment sample_file_config sample_logging) = Inr (File_Sender sample_file_sender)"
proof -
  have "to_lower ''file'' = ''file''" by code_simp
  then show ?thesis
    by (simp add: setup_sender_def new_sender_def new_file_sender_def Let_def sample_file_config_def sample_logging_def
        sample_environment_def sample_file_sender_def default_config_def file_format_def)
qed

lemma write_lines_never_fails: "snd (write_lines (\<lambda>l w. (w @ l, True)) ls s) = None"
  by (induction ls arbitrary: s) auto

definition sample_now :: gotime where
  "sample_now = \<lparr>unix_nanos = 5000000, zone_offset = 0\<rparr>"


end
